(* ===== verification/Kaalm_Prelude.thy ===== *)
theory Kaalm_Prelude
  imports Complex_Main "HOL-Library.AList"
begin

text \<open>
  Shared vocabulary of the development.

  \<^item> Go maps with string keys are association lists (\<open>'v gomap\<close>): the list order stands
    for the order in which a \<^verbatim>\<open>range\<close> loop happens to visit the map, so a statement
    about every list is a statement about every iteration order. \<open>wfmap\<close> says that no key
    occurs twice; \<open>mput\<close> is \<^verbatim>\<open>m[k] = v\<close>, \<open>mdel\<close> is \<^verbatim>\<open>delete(m, k)\<close> and
    \<open>mget z m k\<close> is the read \<^verbatim>\<open>m[k]\<close>, which gives the zero value \<open>z\<close> for a missing key.
  \<^item> Spend maps (\<^verbatim>\<open>map[string]float64\<close>) add the read-modify-write \<^verbatim>\<open>m[k] += v\<close>
    (\<open>sadd\<close>), the loop that adds one map into another (\<open>ssum\<close>) and the total. Money is a
    rational number: the arithmetic of the code is taken exactly, without float64 rounding.
  \<^item> \<open>kaalm_eval\<close> collects the definitions the simplifier unfolds to evaluate a concrete case.
\<close>

named_theorems gomap_simps "reads of a Go map after a write"
named_theorems kaalm_eval "definitions that evaluate on concrete inputs"

type_synonym 'v gomap = "(string \<times> 'v) list"

subsection \<open>Go maps\<close>

abbreviation mlookup :: "'v gomap \<Rightarrow> string \<Rightarrow> 'v option" where
  "mlookup m k \<equiv> map_of m k"

definition mget :: "'v \<Rightarrow> 'v gomap \<Rightarrow> string \<Rightarrow> 'v" where
  "mget z m k = (case map_of m k of None \<Rightarrow> z | Some v \<Rightarrow> v)"

definition mhas :: "'v gomap \<Rightarrow> string \<Rightarrow> bool" where
  "mhas m k = (map_of m k \<noteq> None)"

definition mput :: "string \<Rightarrow> 'v \<Rightarrow> 'v gomap \<Rightarrow> 'v gomap" where
  "mput k v m = AList.update k v m"

definition mdel :: "string \<Rightarrow> 'v gomap \<Rightarrow> 'v gomap" where
  "mdel k m = AList.delete k m"

definition wfmap :: "'v gomap \<Rightarrow> bool" where
  "wfmap m = distinct (map fst m)"

lemmas [kaalm_eval] = mget_def mhas_def mput_def mdel_def

lemma mlookup_mput [gomap_simps, simp]:
  "mlookup (mput k v m) k' = (if k' = k then Some v else mlookup m k')"
  by (simp add: mput_def update_conv')

lemma mlookup_mdel [gomap_simps, simp]:
  "mlookup (mdel k m) k' = (if k' = k then None else mlookup m k')"
  by (simp add: mdel_def delete_conv')

lemma mget_mput [gomap_simps, simp]: "mget z (mput k v m) k' = (if k' = k then v else mget z m k')"
  by (simp add: mget_def)

lemma mget_mdel [gomap_simps, simp]: "mget z (mdel k m) k' = (if k' = k then z else mget z m k')"
  by (simp add: mget_def)

lemma mget_Nil [simp]: "mget z [] k = z"
  by (simp add: mget_def)

lemma mhas_mput [gomap_simps, simp]: "mhas (mput k v m) k' = (k' = k \<or> mhas m k')"
  by (auto simp: mhas_def)

lemma mhas_mdel [gomap_simps, simp]: "mhas (mdel k m) k' = (k' \<noteq> k \<and> mhas m k')"
  by (auto simp: mhas_def)

lemma mhas_Nil [simp]: "\<not> mhas [] k"
  by (simp add: mhas_def)

lemma mhas_Cons: "mhas ((k, v) # m) k' \<longleftrightarrow> k' = k \<or> mhas m k'"
  by (auto simp: mhas_def)

lemma wfmap_Nil [simp]: "wfmap []"
  by (simp add: wfmap_def)

lemma wfmap_mput [simp]: "wfmap m \<Longrightarrow> wfmap (mput k v m)"
  by (simp add: wfmap_def mput_def distinct_update)

lemma wfmap_mdel [simp]: "wfmap m \<Longrightarrow> wfmap (mdel k m)"
  by (simp add: wfmap_def mdel_def distinct_delete)

lemma wfmap_Cons: "wfmap ((k, v) # m) \<longleftrightarrow> \<not> mhas m k \<and> wfmap m"
  by (auto simp: wfmap_def mhas_def map_of_eq_None_iff)

lemma wfmap_filter: "wfmap m \<Longrightarrow> wfmap (filter P m)"
  by (auto simp: wfmap_def distinct_map inj_on_def)

subsection \<open>Spend maps\<close>

abbreviation sget :: "rat gomap \<Rightarrow> string \<Rightarrow> rat" where
  "sget m k \<equiv> mget 0 m k"

definition sadd :: "rat gomap \<Rightarrow> string \<Rightarrow> rat \<Rightarrow> rat gomap" where
  "sadd m k v = mput k (sget m k + v) m"

fun ssum :: "rat gomap \<Rightarrow> rat gomap \<Rightarrow> rat gomap" where
  "ssum dst [] = dst"
| "ssum dst ((k, v) # src) = ssum (sadd dst k v) src"

definition stotal :: "rat gomap \<Rightarrow> rat" where
  "stotal m = sum_list (map snd m)"

lemmas [kaalm_eval] = sadd_def stotal_def

lemma sget_sadd [gomap_simps, simp]: "sget (sadd m k v) k' = sget m k' + (if k' = k then v else 0)"
  by (simp add: sadd_def)

lemma mhas_sadd [simp]: "mhas (sadd m k v) k' = (k' = k \<or> mhas m k')"
  by (simp add: sadd_def)

lemma wfmap_sadd [simp]: "wfmap m \<Longrightarrow> wfmap (sadd m k v)"
  by (simp add: sadd_def)

lemma wfmap_ssum [simp]: "wfmap dst \<Longrightarrow> wfmap (ssum dst src)"
  by (induction dst src rule: ssum.induct) auto

lemma sget_Cons: "sget ((k, v) # m) k' = (if k' = k then v else sget m k')"
  by (simp add: mget_def)

lemma sget_notin: "\<not> mhas m k \<Longrightarrow> sget m k = 0"
  by (simp add: mhas_def mget_def)

lemma sget_ssum: "wfmap src \<Longrightarrow> sget (ssum dst src) k = sget dst k + sget src k"
  by (induction dst src rule: ssum.induct)
     (auto simp: wfmap_Cons sget_Cons sget_notin)

lemma mhas_ssum [simp]: "mhas (ssum dst src) k \<longleftrightarrow> mhas dst k \<or> mhas src k"
  by (induction dst src rule: ssum.induct) (auto simp: mhas_Cons)

lemma stotal_Nil [simp]: "stotal [] = 0"
  by (simp add: stotal_def)

lemma stotal_mput: "wfmap m \<Longrightarrow> stotal (mput k v m) = stotal m - sget m k + v"
  by (induction m) (auto simp: mput_def stotal_def wfmap_Cons sget_Cons sget_notin)

lemma stotal_sadd [simp]: "wfmap m \<Longrightarrow> stotal (sadd m k v) = stotal m + v"
  by (simp add: sadd_def stotal_mput)

lemma stotal_ssum: "wfmap dst \<Longrightarrow> stotal (ssum dst src) = stotal dst + stotal src"
  by (induction dst src rule: ssum.induct) (auto simp: stotal_def[of "_ # _"] stotal_def[symmetric])

text \<open>The least total a map with one entry per key can have, when every entry is at least zero.\<close>

lemma sget_le_stotal:
  assumes "\<forall>v \<in> set (map snd m). 0 \<le> v" shows "sget m k \<le> stotal m"
  using assms
proof (induction m)
  case (Cons e m)
  obtain k' v where "e = (k', v)" by fastforce
  moreover have "0 \<le> stotal m" using Cons.prems by (auto simp: stotal_def intro!: sum_list_nonneg)
  ultimately show ?case using Cons by (auto simp: sget_Cons stotal_def)
qed simp

end
