(* ===== verification/Go_Text.thy ===== *)
theory Go_Text
  imports Kaalm_Prelude
begin

text \<open>
  The parts of Go's \<^verbatim>\<open>strings\<close>, \<^verbatim>\<open>strconv\<close> and \<^verbatim>\<open>fmt\<close> packages the program uses.

  Decimal numbers are read by \<open>ParseFloat\<close> (optional sign, digits with at most one point,
  optional exponent) and written by \<open>FormatFloat2\<close>, which is
  \<^verbatim>\<open>strconv.FormatFloat(v, 'f', 2, 64)\<close>: two decimals, ties to even. Both are exact on
  rationals. The spellings \<^verbatim>\<open>Inf\<close>, \<^verbatim>\<open>NaN\<close> and hexadecimal floats, which strconv also
  accepts, are outside the model (\<open>ParseFloat\<close> refuses them), and so is the range check of
  float64.
\<close>

subsection \<open>strings\<close>

definition HasPrefix :: "string \<Rightarrow> string \<Rightarrow> bool" where
  "HasPrefix s p = (take (length p) s = p)"

definition HasSuffix :: "string \<Rightarrow> string \<Rightarrow> bool" where
  "HasSuffix s p = (length p \<le> length s \<and> drop (length s - length p) s = p)"

definition CutPrefix :: "string \<Rightarrow> string \<Rightarrow> string option" where
  "CutPrefix s p = (if HasPrefix s p then Some (drop (length p) s) else None)"

definition TrimSuffix :: "string \<Rightarrow> string \<Rightarrow> string" where
  "TrimSuffix s p = (if HasSuffix s p then take (length s - length p) s else s)"

fun IndexByte :: "char \<Rightarrow> string \<Rightarrow> nat option" where
  "IndexByte c [] = None"
| "IndexByte c (x # xs) = (if x = c then Some 0 else map_option Suc (IndexByte c xs))"

text \<open>\<^verbatim>\<open>strings.Split(s, sep)\<close> for a one-character separator: never the empty list.\<close>

fun SplitByte :: "char \<Rightarrow> string \<Rightarrow> string list" where
  "SplitByte c [] = [[]]"
| "SplitByte c (x # xs) =
     (if x = c then [] # SplitByte c xs
      else (case SplitByte c xs of [] \<Rightarrow> [[x]] | w # ws \<Rightarrow> (x # w) # ws))"

text \<open>What a \<^verbatim>\<open>bufio.Scanner\<close> with token limit \<open>bufSize\<close> yields: the lines without their terminators, a
  last line only when it is not empty, and nothing from the first line on that fills the buffer.\<close>

definition dropCR :: "string \<Rightarrow> string" where
  "dropCR line = (if line \<noteq> [] \<and> last line = CHR 0x0D then butlast line else line)"

definition raw_lines :: "string \<Rightarrow> string list" where
  "raw_lines data = (let raw = SplitByte (CHR 0x0A) data in if last raw = [] then butlast raw else raw)"

definition ScanLines :: "nat \<Rightarrow> string \<Rightarrow> string list" where
  "ScanLines bufSize data = map dropCR (takeWhile (\<lambda>l. length l < bufSize) (raw_lines data))"

definition ScanTooLong :: "nat \<Rightarrow> string \<Rightarrow> bool" where
  "ScanTooLong bufSize data = (\<not> list_all (\<lambda>l. length l < bufSize) (raw_lines data))"

lemmas scan_defs [kaalm_eval] = dropCR_def raw_lines_def ScanLines_def ScanTooLong_def

definition is_space :: "char \<Rightarrow> bool" where
  "is_space c = (c \<in> {CHR '' '', CHR 0x09, CHR 0x0A, CHR 0x0B, CHR 0x0C, CHR 0x0D})"

definition TrimSpace :: "string \<Rightarrow> string" where
  "TrimSpace s = rev (dropWhile is_space (rev (dropWhile is_space s)))"

lemma HasPrefix_append [simp]: "HasPrefix (p @ s) p"
  by (simp add: HasPrefix_def)

lemma HasPrefix_iff: "HasPrefix s p \<longleftrightarrow> (\<exists>r. s = p @ r)"
  by (metis HasPrefix_def append_eq_conv_conj)

lemma CutPrefix_append [simp]: "CutPrefix (p @ s) p = Some s"
  by (simp add: CutPrefix_def)

lemma CutPrefix_Some: "CutPrefix s p = Some r \<longleftrightarrow> s = p @ r"
  by (auto simp: CutPrefix_def HasPrefix_iff split: if_splits)

lemma IndexByte_None: "IndexByte c s = None \<longleftrightarrow> c \<notin> set s"
  by (induction s) auto

lemma IndexByte_Some:
  "IndexByte c s = Some i \<longleftrightarrow> i < length s \<and> s ! i = c \<and> c \<notin> set (take i s)"
proof (induction s arbitrary: i)
  case (Cons x xs)
  show ?case by (cases i) (auto simp: Cons.IH)
qed simp

lemma SplitByte_ne [simp]: "SplitByte c s \<noteq> []"
  by (induction s) (auto split: list.splits)

lemma SplitByte_no_sep: "w \<in> set (SplitByte c s) \<Longrightarrow> c \<notin> set w"
  by (induction s arbitrary: w) (auto split: if_splits list.splits)

subsection \<open>Decimal digits\<close>

definition digit_char :: "nat \<Rightarrow> char" where
  "digit_char d = char_of (48 + d)"

definition digit_val :: "char \<Rightarrow> nat option" where
  "digit_val c = (let n = of_char c :: nat in if 48 \<le> n \<and> n \<le> 57 then Some (n - 48) else None)"

fun read_digits :: "string \<Rightarrow> nat list \<times> string" where
  "read_digits [] = ([], [])"
| "read_digits (c # cs) =
     (case digit_val c of
        None \<Rightarrow> ([], c # cs)
      | Some d \<Rightarrow> (let (ds, r) = read_digits cs in (d # ds, r)))"

fun digits_value :: "nat \<Rightarrow> nat list \<Rightarrow> nat" where
  "digits_value a [] = a"
| "digits_value a (d # ds) = digits_value (10 * a + d) ds"

fun nat_digits :: "nat \<Rightarrow> nat list" where
  "nat_digits n = (if n < 10 then [n] else nat_digits (n div 10) @ [n mod 10])"

declare nat_digits.simps [simp del]

definition show_nat :: "nat \<Rightarrow> string" where
  "show_nat n = map digit_char (nat_digits n)"

text \<open>\<^verbatim>\<open>%02d\<close> and the zero-padded year of \<^verbatim>\<open>Format\<close>, for numbers that are not negative.\<close>

definition show_pad :: "nat \<Rightarrow> nat \<Rightarrow> string" where
  "show_pad w n = (let s = show_nat n in replicate (w - length s) (CHR ''0'') @ s)"

definition show_int :: "int \<Rightarrow> string" where
  "show_int i = (if i < 0 then ''-'' @ show_nat (nat (- i)) else show_nat (nat i))"

lemma digit_val_char [simp]: "d < 10 \<Longrightarrow> digit_val (digit_char d) = Some d"
  by (simp add: digit_val_def digit_char_def)

lemma nat_digits_lt: "\<forall>d \<in> set (nat_digits n). d < 10"
  by (induction n rule: nat_digits.induct) (subst nat_digits.simps, auto)

lemma nat_digits_ne [simp]: "nat_digits n \<noteq> []"
  by (subst nat_digits.simps) simp

lemma digits_value_append: "digits_value a (xs @ ys) = digits_value (digits_value a xs) ys"
  by (induction xs arbitrary: a) auto

lemma digits_value_nat [simp]: "digits_value 0 (nat_digits n) = n"
proof (induction n rule: nat_digits.induct)
  case (1 n)
  show ?case by (subst nat_digits.simps) (simp add: digits_value_append 1)
qed

lemma read_digits_append:
  "\<forall>d \<in> set ds. d < 10 \<Longrightarrow> read_digits (map digit_char ds @ r) = (ds @ fst (read_digits r), snd (read_digits r))"
  by (induction ds) (auto simp: Let_def split: prod.splits)

lemma read_digits_stop: "r = [] \<or> digit_val (hd r) = None \<Longrightarrow> read_digits r = ([], r)"
  by (cases r) auto

lemma read_digits_show_nat:
  "r = [] \<or> digit_val (hd r) = None \<Longrightarrow> read_digits (show_nat n @ r) = (nat_digits n, r)"
  using nat_digits_lt [of n] by (simp add: show_nat_def read_digits_append read_digits_stop)

lemma show_nat_inj: "show_nat m = show_nat n \<longleftrightarrow> m = n"
proof
  assume "show_nat m = show_nat n"
  moreover have "read_digits (show_nat m @ []) = (nat_digits m, [])"
    and "read_digits (show_nat n @ []) = (nat_digits n, [])" by (rule read_digits_show_nat, simp)+
  ultimately have "nat_digits m = nat_digits n" by simp
  then show "m = n" by (metis digits_value_nat)
qed simp

subsection \<open>strconv.ParseFloat\<close>

definition read_sign :: "string \<Rightarrow> bool \<times> string" where
  "read_sign s =
     (case s of
        [] \<Rightarrow> (False, [])
      | c # cs \<Rightarrow> (if c = CHR ''-'' then (True, cs) else if c = CHR ''+'' then (False, cs) else (False, s)))"

definition pow10 :: "bool \<Rightarrow> nat \<Rightarrow> rat" where
  "pow10 neg e = (if neg then 1 / 10 ^ e else 10 ^ e)"

definition read_exponent :: "string \<Rightarrow> rat option" where
  "read_exponent s =
     (case s of
        [] \<Rightarrow> Some 1
      | c # cs \<Rightarrow>
          (if c = CHR ''e'' \<or> c = CHR ''E'' then
             (let (neg, r) = read_sign cs; (ds, r') = read_digits r
              in if ds = [] \<or> r' \<noteq> [] then None else Some (pow10 neg (digits_value 0 ds)))
           else None))"

definition read_fraction :: "string \<Rightarrow> nat list \<times> string" where
  "read_fraction s =
     (case s of [] \<Rightarrow> ([], []) | c # cs \<Rightarrow> (if c = CHR ''.'' then read_digits cs else ([], s)))"

definition ParseFloat :: "string \<Rightarrow> rat option" where
  "ParseFloat s =
     (let (neg, s1) = read_sign s; (ip, s2) = read_digits s1; (fp, s3) = read_fraction s2
      in if ip @ fp = [] then None
         else (case read_exponent s3 of
                 None \<Rightarrow> None
               | Some e \<Rightarrow>
                   Some ((if neg then - 1 else 1) * (of_nat (digits_value 0 (ip @ fp)) / 10 ^ length fp) * e)))"

subsection \<open>strconv.FormatFloat with two decimals\<close>

definition round_half_even :: "rat \<Rightarrow> int" where
  "round_half_even x =
     (let f = \<lfloor>x\<rfloor>; d = x - of_int f
      in if d < 1 / 2 then f else if d > 1 / 2 then f + 1 else if even f then f else f + 1)"

definition cents :: "rat \<Rightarrow> int" where
  "cents v = round_half_even (v * 100)"

definition round2 :: "rat \<Rightarrow> rat" where
  "round2 v = of_int (cents v) / 100"

definition FormatFloat2 :: "rat \<Rightarrow> string" where
  "FormatFloat2 v =
     (if v < 0 then ''-'' else []) @
     (let n = nat \<bar>cents v\<bar>
      in show_nat (n div 100) @ [CHR ''.'', digit_char (n mod 100 div 10), digit_char (n mod 10)])"

definition trunc :: "rat \<Rightarrow> int" where
  "trunc x = (if 0 \<le> x then \<lfloor>x\<rfloor> else \<lceil>x\<rceil>)"

lemmas [kaalm_eval] = HasPrefix_def HasSuffix_def CutPrefix_def TrimSuffix_def is_space_def TrimSpace_def
  digit_char_def digit_val_def nat_digits.simps show_nat_def show_pad_def show_int_def
  ParseFloat_def read_sign_def read_fraction_def read_exponent_def pow10_def
  round_half_even_def cents_def round2_def FormatFloat2_def trunc_def

lemma round_half_even_of_int [simp]: "round_half_even (of_int n) = n"
  by (simp add: round_half_even_def Let_def)

lemma round_half_even_close: "\<bar>of_int (round_half_even x) - x\<bar> \<le> 1 / 2"
  by (auto simp: round_half_even_def Let_def abs_if) linarith+

lemma round2_close: "\<bar>round2 v - v\<bar> \<le> 1 / 200"
  using round_half_even_close [of "v * 100"] by (simp add: round2_def cents_def abs_if field_simps split: if_splits)

text \<open>Amounts in whole cents are what two decimals can carry.\<close>

definition whole_cents :: "rat \<Rightarrow> bool" where
  "whole_cents v = (of_int (cents v) = v * 100)"

lemma round2_whole_cents [simp]: "whole_cents v \<Longrightarrow> round2 v = v"
  by (simp add: whole_cents_def round2_def)

lemma whole_cents_iff: "whole_cents v \<longleftrightarrow> (\<exists>n. v = of_int n / 100)"
proof
  assume "\<exists>n. v = of_int n / 100"
  then obtain n where "v * 100 = of_int n" by auto
  then show "whole_cents v" by (simp only: whole_cents_def cents_def round_half_even_of_int)
qed (auto simp: whole_cents_def field_simps intro!: exI [of _ "cents v"])

lemma whole_cents_round2 [simp]: "whole_cents (round2 v)"
  by (auto simp: whole_cents_iff round2_def)

lemma whole_cents_0 [simp]: "whole_cents 0"
  by (auto simp: whole_cents_iff intro: exI [of _ 0])

lemma whole_cents_add [simp]: "whole_cents a \<Longrightarrow> whole_cents b \<Longrightarrow> whole_cents (a + b)"
  by (auto simp: whole_cents_iff add_divide_distrib [symmetric] simp flip: of_int_add)

lemma round_half_even_nonpos: "x < 0 \<Longrightarrow> round_half_even x \<le> 0"
  by (auto simp: round_half_even_def Let_def)

lemma round_half_even_nonneg: "0 \<le> x \<Longrightarrow> 0 \<le> round_half_even x"
  by (auto simp: round_half_even_def Let_def)

lemma read_sign_show: "read_sign (show_nat n @ r) = (False, show_nat n @ r)"
proof -
  obtain d ds where ds: "nat_digits n = d # ds" by (cases "nat_digits n") auto
  then have "d < 10" using nat_digits_lt [of n] by simp
  then have "digit_char d \<noteq> CHR ''-''" "digit_char d \<noteq> CHR ''+''"
    using digit_val_char [of d] by (auto simp: digit_val_def)
  then show ?thesis by (simp add: read_sign_def show_nat_def ds)
qed

lemma read_sign_minus: "read_sign (CHR ''-'' # s) = (True, s)"
  by (simp add: read_sign_def)

lemma ParseFloat_cents:
  fixes n :: nat and sg :: string
  assumes "sg = [] \<or> sg = ''-''"
  shows "ParseFloat (sg @ show_nat (n div 100) @ [CHR ''.'', digit_char (n mod 100 div 10), digit_char (n mod 10)])
    = Some ((if sg = [] then 1 else - 1) * (of_nat n / 100))"
proof -
  let ?frac = "[CHR ''.'', digit_char (n mod 100 div 10), digit_char (n mod 10)]"
  have d: "n mod 100 div 10 < 10" "n mod 10 < 10" by auto
  have r: "read_digits (show_nat (n div 100) @ ?frac) = (nat_digits (n div 100), ?frac)"
    by (rule read_digits_show_nat) (simp add: digit_val_def)
  have f: "read_fraction ?frac = ([n mod 100 div 10, n mod 10], [])"
    using d by (simp add: read_fraction_def)
  have v: "digits_value 0 (nat_digits (n div 100) @ [n mod 100 div 10, n mod 10]) = n"
  proof -
    have "n mod 100 mod 10 = n mod 10" by (simp add: mod_mod_cancel)
    then have "10 * (n mod 100 div 10) + n mod 10 = n mod 100"
      using mult_div_mod_eq [of 10 "n mod 100"] by simp
    then have "100 * (n div 100) + 10 * (n mod 100 div 10) + n mod 10 = n"
      using mult_div_mod_eq [of 100 n] by linarith
    then show ?thesis by (simp add: digits_value_append)
  qed
  have s: "read_sign (sg @ show_nat (n div 100) @ ?frac) = (sg \<noteq> [], show_nat (n div 100) @ ?frac)"
    using assms by (auto simp: read_sign_show read_sign_minus)
  show ?thesis
    by (simp add: ParseFloat_def s r f v read_exponent_def Let_def del: digits_value.simps)
qed

text \<open>Writing an amount with two decimals and reading it back gives the amount rounded to cents.\<close>

lemma ParseFloat_FormatFloat2 [simp]: "ParseFloat (FormatFloat2 v) = Some (round2 v)"
proof (cases "v < 0")
  case True
  then have "cents v \<le> 0" by (simp add: cents_def round_half_even_nonpos)
  then show ?thesis using True ParseFloat_cents [of "''-''" "nat \<bar>cents v\<bar>"]
    by (simp add: FormatFloat2_def Let_def round2_def)
next
  case False
  then have "0 \<le> cents v" by (simp add: cents_def round_half_even_nonneg)
  then show ?thesis using False ParseFloat_cents [of "[]" "nat \<bar>cents v\<bar>"]
    by (simp add: FormatFloat2_def Let_def round2_def)
qed

end
