(* ===== verification/Json_Doc.thy ===== *)
theory Json_Doc
  imports Go_Text "HOL-Library.Multiset" "HOL-Library.List_Lexorder" "HOL-Library.Char_ord"
begin

text \<open>
  JSON at the level of decoded values. A byte sequence the program hands to
  \<^verbatim>\<open>encoding/json\<close> is a \<open>doc\<close>: \<open>None\<close> for bytes that are not JSON, \<open>Some\<close> of the
  value otherwise. \<open>Marshal_flat\<close> and \<open>Unmarshal_flat\<close> are \<^verbatim>\<open>json.Marshal\<close> and
  \<^verbatim>\<open>json.Unmarshal\<close> at type \<^verbatim>\<open>map[string]string\<close>: marshalling writes the keys in
  ascending order, unmarshalling takes the last of duplicate keys, reads null as the empty
  string and fails on any value that is not a string.
\<close>

datatype json =
    JNull
  | JBool bool
  | JNum rat
  | JStr string
  | JArr "json list"
  | JObj "(string \<times> json) list"

type_synonym doc = "json option"

fun flat_entries :: "(string \<times> json) list \<Rightarrow> string gomap \<Rightarrow> string gomap option" where
  "flat_entries [] acc = Some acc"
| "flat_entries ((k, v) # r) acc =
     (case v of
        JStr s \<Rightarrow> flat_entries r (mput k s acc)
      | JNull \<Rightarrow> flat_entries r (mput k [] acc)
      | _ \<Rightarrow> None)"

definition Unmarshal_flat :: "doc \<Rightarrow> string gomap option" where
  "Unmarshal_flat raw =
     (case raw of
        None \<Rightarrow> None
      | Some v \<Rightarrow> (case v of JNull \<Rightarrow> Some [] | JObj es \<Rightarrow> flat_entries es [] | _ \<Rightarrow> None))"

definition Marshal_flat :: "string gomap \<Rightarrow> doc" where
  "Marshal_flat m = Some (JObj (map (\<lambda>(k, v). (k, JStr v)) (sort_key fst m)))"

lemmas [kaalm_eval] = Unmarshal_flat_def Marshal_flat_def

lemma flat_entries_str:
  "wfmap es \<Longrightarrow> \<forall>k. mhas es k \<longrightarrow> \<not> mhas acc k \<Longrightarrow>
   flat_entries (map (\<lambda>(k, v). (k, JStr v)) es) acc = Some (acc @ es)"
proof (induction es arbitrary: acc)
  case (Cons e es)
  obtain k v where e: "e = (k, v)" by fastforce
  have "\<not> mhas acc k" using Cons.prems by (simp add: e mhas_Cons)
  then have "mput k v acc = acc @ [(k, v)]"
    by (induction acc) (auto simp: mput_def mhas_Cons)
  moreover have "\<forall>k'. mhas es k' \<longrightarrow> \<not> mhas (mput k v acc) k'"
    using Cons.prems by (auto simp: e mhas_Cons wfmap_Cons)
  ultimately show ?case using Cons by (simp add: e wfmap_Cons)
qed simp

lemma wfmap_sort_key: "wfmap m \<Longrightarrow> wfmap (sort_key fst m)"
proof -
  assume "wfmap m"
  moreover have "mset (map fst (sort_key fst m)) = mset (map fst m)" by (simp only: mset_map mset_sort)
  ultimately show ?thesis unfolding wfmap_def by (metis mset_eq_imp_distinct_iff)
qed

lemma mlookup_sort_key: "wfmap m \<Longrightarrow> mlookup (sort_key fst m) k = mlookup m k"
  using wfmap_sort_key [of m] map_of_inject_set [of "sort_key fst m" m] by (simp add: wfmap_def)

text \<open>Reading a marshalled map back gives the same map, in key order.\<close>

lemma Unmarshal_Marshal_flat: "wfmap m \<Longrightarrow> Unmarshal_flat (Marshal_flat m) = Some (sort_key fst m)"
  by (simp add: Unmarshal_flat_def Marshal_flat_def flat_entries_str wfmap_sort_key)

end
