(* ===== verification/Go_Time.thy ===== *)
theory Go_Time
  imports Go_Text
begin

text \<open>
  The part of Go's \<^verbatim>\<open>time\<close> package the program uses. An instant is the number of
  nanoseconds since the Unix epoch in UTC (a negative number before it); a
  \<^verbatim>\<open>time.Duration\<close> is a number of nanoseconds. The zero \<^verbatim>\<open>time.Time\<close>, which the code
  tests with \<^verbatim>\<open>IsZero\<close>, is the value \<open>None\<close> of \<open>instant option\<close>. The saturation of
  \<^verbatim>\<open>Sub\<close> at 292 years is not modelled.

  The calendar is the proleptic Gregorian one. Day 0 is 1 January of year 1, a Monday.
\<close>

type_synonym instant = int
type_synonym duration = int

definition second_ns :: duration where "second_ns = 1000000000"
definition minute_ns :: duration where "minute_ns = 60 * second_ns"
definition day_ns :: duration where "day_ns = 86400 * second_ns"

definition duration_seconds :: "duration \<Rightarrow> rat" where
  "duration_seconds d = of_int d / 1000000000"

definition duration_minutes :: "duration \<Rightarrow> rat" where
  "duration_minutes d = of_int d / 60000000000"

lemmas duration_defs = second_ns_def minute_ns_def day_ns_def

subsection \<open>Days, years and months\<close>

definition day_number :: "instant \<Rightarrow> int" where
  "day_number t = t div day_ns + 719162"

definition day_start :: "int \<Rightarrow> instant" where
  "day_start d = (d - 719162) * day_ns"

definition days_before_year :: "int \<Rightarrow> int" where
  "days_before_year y = 365 * (y - 1) + (y - 1) div 4 - (y - 1) div 100 + (y - 1) div 400"

definition is_leap :: "int \<Rightarrow> bool" where
  "is_leap y = (y mod 4 = 0 \<and> (y mod 100 \<noteq> 0 \<or> y mod 400 = 0))"

definition year_of :: "int \<Rightarrow> int" where
  "year_of d =
     (let y = (400 * d) div 146097 + 1
      in if d < days_before_year y then y - 1
         else if days_before_year (y + 1) \<le> d then y + 1 else y)"

definition year_day :: "int \<Rightarrow> int" where
  "year_day d = d - days_before_year (year_of d)"

definition days_before_month :: "bool \<Rightarrow> int \<Rightarrow> int" where
  "days_before_month leap m =
     (if m \<le> 1 then 0 else if m = 2 then 31
      else (if leap then 1 else 0) +
       (if m = 3 then 59 else if m = 4 then 90 else if m = 5 then 120 else if m = 6 then 151
        else if m = 7 then 181 else if m = 8 then 212 else if m = 9 then 243 else if m = 10 then 273
        else if m = 11 then 304 else if m = 12 then 334 else 365))"

definition month_of :: "int \<Rightarrow> int" where
  "month_of d =
     (let b = days_before_month (is_leap (year_of d)); n = year_day d
      in if n < b 2 then 1 else if n < b 3 then 2 else if n < b 4 then 3 else if n < b 5 then 4
         else if n < b 6 then 5 else if n < b 7 then 6 else if n < b 8 then 7 else if n < b 9 then 8
         else if n < b 10 then 9 else if n < b 11 then 10 else if n < b 12 then 11 else 12)"

definition day_of_month :: "int \<Rightarrow> int" where
  "day_of_month d = year_day d - days_before_month (is_leap (year_of d)) (month_of d) + 1"

text \<open>\<^verbatim>\<open>time.Date(y, m, d, 0, 0, 0, 0, time.UTC)\<close>, months beyond December carried into years.\<close>

definition date_day :: "int \<Rightarrow> int \<Rightarrow> int \<Rightarrow> int" where
  "date_day y m d =
     (let y' = y + (m - 1) div 12; m' = (m - 1) mod 12 + 1
      in days_before_year y' + days_before_month (is_leap y') m' + d - 1)"

definition weekday :: "int \<Rightarrow> int" where
  "weekday d = (d + 1) mod 7"

definition iso_week :: "int \<Rightarrow> int \<times> int" where
  "iso_week d = (let th = d - d mod 7 + 3 in (year_of th, year_day th div 7 + 1))"

subsection \<open>Calendar facts\<close>

lemma div_pred: "0 < n \<Longrightarrow> (y - 1) div n = y div n - (if y mod n = 0 then 1 else 0)" for y n :: int
proof (cases "y mod n = 0")
  case True
  assume "0 < n"
  then have "(y - 1) div n = y div n - 1"
    using mult_div_mod_eq [of n y] True by (intro int_div_pos_eq [of _ _ _ "n - 1"]) (auto simp: algebra_simps)
  with True show ?thesis by simp
next
  case False
  assume "0 < n"
  then have r: "1 \<le> y mod n" "y mod n < n" using False pos_mod_bound [of n y] pos_mod_sign [of n y] by linarith+
  have "(y - 1) div n = y div n"
    using mult_div_mod_eq [of n y] r by (intro int_div_pos_eq [of _ _ _ "y mod n - 1"]) linarith+
  with False show ?thesis by simp
qed

lemma div_bounds: "0 < n \<Longrightarrow> n * (k div n) \<le> k \<and> k - (n - 1) \<le> n * (k div n)" for k n :: int
  using mult_div_mod_eq [of n k] pos_mod_bound [of n k] pos_mod_sign [of n k] by linarith

lemma days_before_year_next:
  "days_before_year (y + 1) = days_before_year y + 365 + (if is_leap y then 1 else 0)"
proof -
  have "y mod 100 = 0 \<Longrightarrow> y mod 4 = 0" "y mod 400 = 0 \<Longrightarrow> y mod 100 = 0"
    by (auto simp: mod_eq_0_iff_dvd elim: dvd_trans [rotated])
  then show ?thesis by (auto simp: days_before_year_def is_leap_def div_pred split: if_splits)
qed

lemma days_before_year_mono: "y \<le> z \<Longrightarrow> days_before_year y + 365 * (z - y) \<le> days_before_year z"
proof (induction z rule: int_ge_induct)
  case (step z)
  then show ?case using days_before_year_next [of z] by (auto split: if_splits)
qed simp

lemma year_of_bounds:
  "days_before_year (year_of d) \<le> d" "d < days_before_year (year_of d + 1)"
proof -
  define q where "q = (400 * d) div 146097"
  have q: "146097 * q \<le> 400 * d" "400 * d < 146097 * q + 146097"
    using div_bounds [of 146097 "400 * d"] unfolding q_def by auto
  have lo: "400 * days_before_year (k + 1) \<le> 146097 * k + 396" for k :: int
  proof -
    have "4 * (k div 4) \<le> k" "k - 99 \<le> 100 * (k div 100)" "400 * (k div 400) \<le> k"
      using div_bounds [of 4 k] div_bounds [of 100 k] div_bounds [of 400 k] by auto
    then show ?thesis by (simp add: days_before_year_def)
  qed
  have hi: "146097 * k - 699 \<le> 400 * days_before_year (k + 1)" for k :: int
  proof -
    have "k - 3 \<le> 4 * (k div 4)" "100 * (k div 100) \<le> k" "k - 399 \<le> 400 * (k div 400)"
      using div_bounds [of 4 k] div_bounds [of 100 k] div_bounds [of 400 k] by auto
    then show ?thesis by (simp add: days_before_year_def)
  qed
  have "days_before_year q \<le> d" using lo [of "q - 1"] q by simp
  moreover have "d < days_before_year (q + 3)" using hi [of "q + 2"] q by (simp add: add.assoc)
  ultimately show "days_before_year (year_of d) \<le> d" "d < days_before_year (year_of d + 1)"
    unfolding year_of_def q_def [symmetric] Let_def by (auto simp: ac_simps)
qed

lemma year_of_unique: "days_before_year y \<le> d \<Longrightarrow> d < days_before_year (y + 1) \<Longrightarrow> year_of d = y"
proof (rule ccontr)
  assume y: "days_before_year y \<le> d" "d < days_before_year (y + 1)" and "year_of d \<noteq> y"
  then consider "year_of d + 1 \<le> y" | "y + 1 \<le> year_of d" by linarith
  then show False
    using y year_of_bounds [of d] days_before_year_mono [of "year_of d + 1" y]
      days_before_year_mono [of "y + 1" "year_of d"] by cases auto
qed

lemma year_day_bounds: "0 \<le> year_day d" "year_day d < 365 + (if is_leap (year_of d) then 1 else 0)"
  using year_of_bounds [of d] days_before_year_next [of "year_of d"] by (auto simp: year_day_def)

lemma month_of_bounds:
  "1 \<le> month_of d" "month_of d \<le> 12"
  "days_before_month (is_leap (year_of d)) (month_of d) \<le> year_day d"
  "year_day d < days_before_month (is_leap (year_of d)) (month_of d + 1)"
proof -
  show "1 \<le> month_of d" "month_of d \<le> 12" by (simp_all add: month_of_def Let_def)
  show "days_before_month (is_leap (year_of d)) (month_of d) \<le> year_day d"
    using year_day_bounds(1) [of d] unfolding month_of_def Let_def
    by (simp add: days_before_month_def)
  show "year_day d < days_before_month (is_leap (year_of d)) (month_of d + 1)"
    using year_day_bounds(2) [of d] unfolding month_of_def Let_def
    by (cases "is_leap (year_of d)") (simp_all add: days_before_month_def)
qed

lemma days_before_month_step: "days_before_month l m \<le> days_before_month l (m + 1)"
  by (auto simp: days_before_month_def)

lemma days_before_month_mono: "m \<le> n \<Longrightarrow> days_before_month l m \<le> days_before_month l n"
  by (induction n rule: int_ge_induct) (auto intro: order_trans days_before_month_step)

lemma month_of_unique:
  assumes "days_before_month (is_leap (year_of d)) m \<le> year_day d"
    and "year_day d < days_before_month (is_leap (year_of d)) (m + 1)"
  shows "month_of d = m"
proof (rule ccontr)
  assume "month_of d \<noteq> m"
  then consider "month_of d + 1 \<le> m" | "m + 1 \<le> month_of d" by linarith
  then show False
    using assms month_of_bounds [of d]
      days_before_month_mono [of "month_of d + 1" m "is_leap (year_of d)"]
      days_before_month_mono [of "m + 1" "month_of d" "is_leap (year_of d)"] by cases linarith+
qed

text \<open>The date of a day determines the day.\<close>

lemma date_day_of: "date_day (year_of d) (month_of d) (day_of_month d) = d"
  using month_of_bounds [of d] by (simp add: date_day_def day_of_month_def year_day_def)

lemma day_start_le: "day_start d \<le> t \<longleftrightarrow> d \<le> day_number t"
proof -
  have D: "0 < day_ns" by (simp add: duration_defs)
  have "d - 719162 \<le> t div day_ns" if "(d - 719162) * day_ns \<le> t"
    using zdiv_mono1 [OF that D] D by simp
  moreover have "(d - 719162) * day_ns \<le> t" if "d - 719162 \<le> t div day_ns"
  proof -
    have "(d - 719162) * day_ns \<le> (t div day_ns) * day_ns" using that D by (intro mult_right_mono) auto
    also have "\<dots> \<le> t" using div_bounds [OF D, of t] by (simp add: mult.commute)
    finally show ?thesis .
  qed
  ultimately show ?thesis by (auto simp: day_number_def day_start_def)
qed

lemma day_number_day_start [simp]: "day_number (day_start d) = d"
  by (simp add: day_number_def day_start_def duration_defs)

end
