(* ===== verification/Api_Types.thy ===== *)
theory Api_Types
  imports Go_Text
begin

text \<open>
  The custom resources the gateway reads (\<^verbatim>\<open>api/v1beta1\<close>): the provider catalogue with
  its budget, rate limits and fallback edges, and the parts of agents, tasks and classes the
  tenancy chain reads. Enumerations stay strings, as in the Go types: an unknown value flows
  through the code like any other. Kubernetes metadata is reduced to names and namespaces.
  \<open>ProviderFormat\<close> and its companions are the format rules of \<^verbatim>\<open>fallback.go\<close>.
\<close>

subsection \<open>ModelProvider\<close>

record SecretKeyReference =
  skr_Name :: string
  skr_Key :: string

record ModelProviderModel =
  mdl_ID :: string
  mdl_DisplayName :: string
  mdl_CostPer1MInputTokens :: string
  mdl_CostPer1MOutputTokens :: string
  mdl_MaxOutputTokens :: "int option"

record ModelProviderBudgetPolicy =
  pol_AtPercent :: int
  pol_Action :: string
  pol_DegradeTo :: "string option"

record ModelProviderBudgetHard =
  hard_BoundaryMarginPercent :: int

record ModelProviderBudget =
  bud_Period :: string
  bud_PerNamespaceUSD :: string
  bud_Policies :: "ModelProviderBudgetPolicy list"
  bud_ClusterUSD :: "string option"
  bud_Enforcement :: string
  bud_Hard :: "ModelProviderBudgetHard option"

record ModelProviderRateLimits =
  rl_RequestsPerMinute :: int
  rl_TokensPerMinute :: int

record ModelProviderHealthCheck =
  hc_Enabled :: bool
  hc_IntervalSeconds :: int
  hc_TimeoutSeconds :: int

record FallbackReference =
  fb_Name :: string
  fb_ModelMap :: "string gomap"

record ModelProviderSpec =
  mps_Type :: string
  mps_Endpoint :: string
  mps_CredentialsRef :: SecretKeyReference
  mps_Models :: "ModelProviderModel list"
  mps_AllowedNamespaces :: "string list"
  mps_Budget :: ModelProviderBudget
  mps_RateLimits :: ModelProviderRateLimits
  mps_Fallback :: "FallbackReference list"
  mps_HealthCheck :: "ModelProviderHealthCheck option"

record ModelProviderBudgetUsage =
  use_Namespace :: string
  use_Period :: string
  use_SpentUSD :: string
  use_PercentUsed :: int
  use_State :: string

record ModelProvider =
  mp_Name :: string
  mp_Spec :: ModelProviderSpec

abbreviation mp_Budget :: "ModelProvider \<Rightarrow> ModelProviderBudget" where
  "mp_Budget p \<equiv> mps_Budget (mp_Spec p)"

abbreviation mp_Models :: "ModelProvider \<Rightarrow> ModelProviderModel list" where
  "mp_Models p \<equiv> mps_Models (mp_Spec p)"

definition BudgetActionWarn :: string where "BudgetActionWarn = ''warn''"
definition BudgetActionDegrade :: string where "BudgetActionDegrade = ''degrade''"
definition BudgetActionBlock :: string where "BudgetActionBlock = ''block''"
definition BudgetEnforcementHard :: string where "BudgetEnforcementHard = ''hard''"

definition BudgetStateNormal :: string where "BudgetStateNormal = ''Normal''"
definition BudgetStateThrottled :: string where "BudgetStateThrottled = ''Throttled''"
definition BudgetStateBlocked :: string where "BudgetStateBlocked = ''Blocked''"

lemmas budget_action_defs = BudgetActionWarn_def BudgetActionDegrade_def BudgetActionBlock_def
lemmas budget_state_defs = BudgetStateNormal_def BudgetStateThrottled_def BudgetStateBlocked_def

subsection \<open>Agents, tasks, classes and tool providers\<close>

record AgentToolGrant =
  tg_ProviderRef :: string
  tg_Tools :: "string list"

record Agent =
  ag_Namespace :: string
  ag_Name :: string
  ag_AgentClassRef :: string
  ag_Providers :: "string list"
  ag_Tools :: "AgentToolGrant list"

record AgentTask =
  at_Namespace :: string
  at_Name :: string
  at_AgentClassRef :: string
  at_Providers :: "string list"
  at_Tools :: "AgentToolGrant list"

record AgentClass =
  ac_Name :: string
  ac_AllowedProviders :: "string list"
  ac_AllowedToolProviders :: "string list"

record ToolProvider =
  tp_Name :: string
  tp_Endpoint :: string
  tp_AllowedNamespaces :: "string list"
  tp_Tools :: "string list"
  tp_RequestsPerMinute :: int

text \<open>A provider for concrete evaluations: one model, a daily budget of 100 USD per namespace with a
  degrade policy at 80 percent and a block policy at 100 percent, enforced hard.\<close>

definition sample_budget :: ModelProviderBudget where
  "sample_budget =
     \<lparr>bud_Period = ''daily'', bud_PerNamespaceUSD = ''100'',
      bud_Policies = [\<lparr>pol_AtPercent = 80, pol_Action = BudgetActionDegrade, pol_DegradeTo = Some ''small''\<rparr>,
                      \<lparr>pol_AtPercent = 100, pol_Action = BudgetActionBlock, pol_DegradeTo = None\<rparr>],
      bud_ClusterUSD = None, bud_Enforcement = BudgetEnforcementHard, bud_Hard = None\<rparr>"

definition sample_provider :: ModelProvider where
  "sample_provider =
     \<lparr>mp_Name = ''main'',
      mp_Spec = \<lparr>mps_Type = ''anthropic'', mps_Endpoint = ''https://llm.example'',
                 mps_CredentialsRef = \<lparr>skr_Name = ''cred'', skr_Key = ''key''\<rparr>,
                 mps_Models = [\<lparr>mdl_ID = ''big'', mdl_DisplayName = [], mdl_CostPer1MInputTokens = ''3'',
                                mdl_CostPer1MOutputTokens = ''15'', mdl_MaxOutputTokens = Some 4096\<rparr>,
                               \<lparr>mdl_ID = ''small'', mdl_DisplayName = [], mdl_CostPer1MInputTokens = ''1'',
                                mdl_CostPer1MOutputTokens = ''5'', mdl_MaxOutputTokens = None\<rparr>],
                 mps_AllowedNamespaces = [''team''], mps_Budget = sample_budget,
                 mps_RateLimits = \<lparr>rl_RequestsPerMinute = 60, rl_TokensPerMinute = 0\<rparr>,
                 mps_Fallback = [], mps_HealthCheck = None\<rparr>\<rparr>"

lemmas [kaalm_eval] = sample_budget_def sample_provider_def budget_action_defs BudgetEnforcementHard_def

subsection \<open>Provider formats (api/v1beta1/fallback.go)\<close>

definition ProviderTypeAnthropic :: string where "ProviderTypeAnthropic = ''anthropic''"
definition ProviderTypeOpenAI :: string where "ProviderTypeOpenAI = ''openai''"
definition ProviderTypeOpenAICompatible :: string where
  "ProviderTypeOpenAICompatible = ''openai-compatible''"
definition ProviderTypeGoogleVertex :: string where "ProviderTypeGoogleVertex = ''google-vertex''"

lemmas provider_type_defs = ProviderTypeAnthropic_def ProviderTypeOpenAI_def
  ProviderTypeOpenAICompatible_def ProviderTypeGoogleVertex_def

definition ProviderFormat :: "string \<Rightarrow> string" where
  "ProviderFormat providerType =
     (if providerType = ProviderTypeOpenAICompatible then ProviderTypeOpenAI else providerType)"

definition translatableFormat :: "string \<Rightarrow> bool" where
  "translatableFormat providerType =
     (providerType = ProviderTypeAnthropic \<or> providerType = ProviderTypeOpenAI
      \<or> providerType = ProviderTypeOpenAICompatible)"

definition FallbackFormatCompatible :: "string \<Rightarrow> string \<Rightarrow> bool" where
  "FallbackFormatCompatible parent child =
     (if parent = child then True else translatableFormat parent \<and> translatableFormat child)"

definition FallbackCrossesFormat :: "string \<Rightarrow> string \<Rightarrow> bool" where
  "FallbackCrossesFormat parent child = (ProviderFormat parent \<noteq> ProviderFormat child)"

lemmas format_defs = ProviderFormat_def translatableFormat_def FallbackFormatCompatible_def
  FallbackCrossesFormat_def provider_type_defs

text \<open>An edge rule 12 admits joins providers that speak one format or the translated pair, and the
  compatibility rule is an equivalence on provider types.\<close>

lemma compatible_crossing:
  "FallbackFormatCompatible p c \<Longrightarrow> FallbackCrossesFormat p c \<Longrightarrow>
   {ProviderFormat p, ProviderFormat c} = {ProviderTypeAnthropic, ProviderTypeOpenAI}"
  by (auto simp: format_defs split: if_splits)

lemma compatible_sym: "FallbackFormatCompatible p c \<longleftrightarrow> FallbackFormatCompatible c p"
  by (auto simp: FallbackFormatCompatible_def)

lemma compatible_trans:
  "FallbackFormatCompatible a b \<Longrightarrow> FallbackFormatCompatible b c \<Longrightarrow> FallbackFormatCompatible a c"
  by (auto simp: FallbackFormatCompatible_def split: if_splits)

end
