(* ===== verification/Budget_Period.thy ===== *)
theory Budget_Period
  imports Go_Time Api_Types
begin

text \<open>
  Budget periods (\<^verbatim>\<open>PeriodKey\<close> and \<^verbatim>\<open>nextPeriodStart\<close> of
  \<^verbatim>\<open>internal/gateway/budget.go\<close>): the identifier a ledger carries, and when it changes. The
  locale \<open>period_scheme\<close> is what the ledger relies on: a key holds until the next period
  starts and never comes back. The three accounting schemes interpret it.
\<close>

subsection \<open>The code\<close>

definition show_year :: "int \<Rightarrow> string" where
  "show_year y = (if y < 0 then ''-'' else []) @ show_pad 4 (nat \<bar>y\<bar>)"

definition PeriodKey :: "string \<Rightarrow> instant \<Rightarrow> string" where
  "PeriodKey scheme t =
     (let d = day_number t
      in if scheme = ''monthly'' then show_year (year_of d) @ ''-'' @ show_pad 2 (nat (month_of d))
         else if scheme = ''weekly'' then
           (let (year, week) = iso_week d in show_int year @ ''-W'' @ show_pad 2 (nat week))
         else if scheme = ''daily'' then
           show_year (year_of d) @ ''-'' @ show_pad 2 (nat (month_of d)) @ ''-'' @ show_pad 2 (nat (day_of_month d))
         else [])"

definition nextPeriodStart :: "string \<Rightarrow> instant \<Rightarrow> instant" where
  "nextPeriodStart scheme t =
     (let d = day_number t
      in if scheme = ''monthly'' then day_start (date_day (year_of d) (month_of d + 1) 1)
         else if scheme = ''weekly'' then
           (let daysUntilMonday = (8 - weekday d) mod 7;
                daysUntilMonday = (if daysUntilMonday = 0 then 7 else daysUntilMonday)
            in day_start (d + daysUntilMonday))
         else day_start (d + 1))"

definition tracked_scheme :: "string \<Rightarrow> bool" where
  "tracked_scheme s = (s = ''monthly'' \<or> s = ''weekly'' \<or> s = ''daily'')"

subsection \<open>What clients rely on\<close>

locale period_scheme =
  fixes key :: "instant \<Rightarrow> string" and nxt :: "instant \<Rightarrow> instant"
  assumes later: "t < nxt t"
    and stable: "t \<le> u \<Longrightarrow> u < nxt t \<Longrightarrow> key u = key t"
    and fresh: "nxt t \<le> u \<Longrightarrow> key u \<noteq> key t"
    and named: "key t \<noteq> []"
begin

lemma same_key_iff: "t \<le> u \<Longrightarrow> key u = key t \<longleftrightarrow> u < nxt t"
  using stable [of t u] fresh [of t u] by linarith

lemma keys_never_return: "t \<le> u \<Longrightarrow> u \<le> v \<Longrightarrow> key v = key t \<Longrightarrow> key u = key t"
  using same_key_iff [of t v] stable [of t u] by linarith

end

subsection \<open>Reading a key back\<close>

lemma digits_value_zeros [simp]: "digits_value 0 (replicate k 0 @ ds) = digits_value 0 ds"
  by (induction k) auto

lemma digit_char_0: "digit_char 0 = CHR ''0''"
  by (simp add: digit_char_def char_of_def bit_0)

lemma show_pad_digits: "show_pad w n = map digit_char (replicate (w - length (show_nat n)) 0 @ nat_digits n)"
  by (simp add: show_pad_def show_nat_def Let_def digit_char_0)

lemma read_show_pad:
  assumes "r = [] \<or> digit_val (hd r) = None"
  obtains ds where "read_digits (show_pad w n @ r) = (ds, r)" "digits_value 0 ds = n"
proof
  show "digits_value 0 (replicate (w - length (show_nat n)) 0 @ nat_digits n) = n" by simp
  show "read_digits (show_pad w n @ r) = (replicate (w - length (show_nat n)) 0 @ nat_digits n, r)"
    unfolding show_pad_digits
    by (subst read_digits_append) (use nat_digits_lt [of n] assms in \<open>auto simp: read_digits_stop\<close>)
qed

lemma show_pad_cancel:
  assumes "show_pad w m @ r = show_pad w n @ q" "r = [] \<or> digit_val (hd r) = None" "q = [] \<or> digit_val (hd q) = None"
  shows "m = n" "r = q"
proof -
  obtain ds where ds: "read_digits (show_pad w m @ r) = (ds, r)" "digits_value 0 ds = m"
    by (rule read_show_pad [OF assms(2)])
  obtain es where es: "read_digits (show_pad w n @ q) = (es, q)" "digits_value 0 es = n"
    by (rule read_show_pad [OF assms(3)])
  from ds es assms(1) show "m = n" "r = q" by auto
qed

lemma show_pad_head:
  obtains d s where "show_pad w n = digit_char d # s" "d < 10"
proof -
  obtain d ds where "replicate (w - length (show_nat n)) 0 @ nat_digits n = d # ds"
    by (cases "replicate (w - length (show_nat n)) 0 @ nat_digits n") auto
  moreover then have "d \<in> set (replicate (w - length (show_nat n)) 0 @ nat_digits n)" by simp
  then have "d < 10" using nat_digits_lt [of n] by auto
  ultimately show ?thesis using that [of d "map digit_char ds"] unfolding show_pad_digits by simp
qed

lemma read_sign_pad: "read_sign (show_pad w n @ r) = (False, show_pad w n @ r)"
proof -
  obtain d s where d: "show_pad w n = digit_char d # s" "d < 10" by (rule show_pad_head)
  then have "digit_char d \<noteq> CHR ''-''" "digit_char d \<noteq> CHR ''+''"
    using digit_val_char [of d] by (auto simp: digit_val_def)
  with d show ?thesis by (simp add: read_sign_def)
qed

lemma signed_pad_cancel:
  assumes "(if y < 0 then ''-'' else []) @ show_pad w (nat \<bar>y\<bar>) @ r = (if z < 0 then ''-'' else []) @ show_pad w (nat \<bar>z\<bar>) @ q"
    and "r = [] \<or> digit_val (hd r) = None" "q = [] \<or> digit_val (hd q) = None"
  shows "y = z" "r = q"
proof -
  have s: "read_sign ((if x < 0 then ''-'' else []) @ show_pad w (nat \<bar>x\<bar>) @ p) = (x < 0, show_pad w (nat \<bar>x\<bar>) @ p)"
    for x :: int and p by (simp add: read_sign_pad read_sign_minus)
  have "(y < 0, show_pad w (nat \<bar>y\<bar>) @ r) = (z < 0, show_pad w (nat \<bar>z\<bar>) @ q)"
    using arg_cong [OF assms(1), of read_sign] by (simp only: s)
  then have sg: "y < 0 \<longleftrightarrow> z < 0" and e: "show_pad w (nat \<bar>y\<bar>) @ r = show_pad w (nat \<bar>z\<bar>) @ q" by simp_all
  from show_pad_cancel [OF e assms(2,3)] sg show "y = z" "r = q" by auto
qed

lemma show_int_pad: "show_int i = (if i < 0 then ''-'' else []) @ show_pad 0 (nat \<bar>i\<bar>)"
  by (simp add: show_int_def show_pad_def Let_def)

lemma show_year_cancel:
  assumes "show_year y @ r = show_year z @ q"
    and "r = [] \<or> digit_val (hd r) = None" "q = [] \<or> digit_val (hd q) = None"
  shows "y = z" "r = q"
proof -
  have "(if y < 0 then ''-'' else []) @ show_pad 4 (nat \<bar>y\<bar>) @ r
      = (if z < 0 then ''-'' else []) @ show_pad 4 (nat \<bar>z\<bar>) @ q"
    using assms(1) unfolding show_year_def append_assoc .
  from signed_pad_cancel [OF this assms(2,3)] show "y = z" "r = q" .
qed

subsection \<open>Schemes that change at midnight\<close>

locale day_scheme =
  fixes key :: "instant \<Rightarrow> string" and nxt :: "instant \<Rightarrow> instant"
    and day_key :: "int \<Rightarrow> string" and next_day :: "int \<Rightarrow> int"
  assumes key_day: "key t = day_key (day_number t)"
    and nxt_day: "nxt t = day_start (next_day (day_number t))"
    and later_day: "d < next_day d"
    and same_day: "d \<le> e \<Longrightarrow> day_key e = day_key d \<longleftrightarrow> e < next_day d"
    and named_day: "day_key d \<noteq> []"

sublocale day_scheme \<subseteq> period_scheme key nxt
proof unfold_locales
  have mono: "t \<le> u \<Longrightarrow> day_number t \<le> day_number u" for t u
    using day_start_le [of "day_number t" t] day_start_le [of "day_number t" u] by simp
  show "t < nxt t" for t
    using day_start_le [of "next_day (day_number t)" t] later_day [of "day_number t"] by (simp add: nxt_day)
  show "key u = key t" if "t \<le> u" "u < nxt t" for t u
    using that mono [of t u] same_day [of "day_number t" "day_number u"]
      day_start_le [of "next_day (day_number t)" u] by (simp add: key_day nxt_day)
  show "key u \<noteq> key t" if "nxt t \<le> u" for t u
    using that later_day [of "day_number t"] same_day [of "day_number t" "day_number u"]
      day_start_le [of "next_day (day_number t)" u] by (simp add: key_day nxt_day)
  show "key t \<noteq> []" for t by (simp add: key_day named_day)
qed

lemma next_month_day:
  "date_day (year_of d) (month_of d + 1) 1 = days_before_year (year_of d) + days_before_month (is_leap (year_of d)) (month_of d + 1)"
proof (cases "month_of d = 12")
  case True
  then show ?thesis
    by (simp add: date_day_def Let_def days_before_year_next) (simp add: days_before_month_def)
next
  case False
  then have "1 \<le> month_of d" "month_of d < 12" using month_of_bounds [of d] by auto
  then have "month_of d div 12 = 0" "month_of d mod 12 = month_of d" by auto
  then show ?thesis by (simp add: date_day_def Let_def)
qed

lemma same_month_iff:
  assumes "d \<le> e"
  shows "year_of e = year_of d \<and> month_of e = month_of d \<longleftrightarrow> e < date_day (year_of d) (month_of d + 1) 1"
proof -
  let ?l = "is_leap (year_of d)" and ?b = "days_before_year (year_of d)"
  have D: "date_day (year_of d) (month_of d + 1) 1 = ?b + days_before_month ?l (month_of d + 1)"
    by (rule next_month_day)
  have top: "?b + days_before_month ?l (month_of d + 1) \<le> days_before_year (year_of d + 1)"
    using days_before_month_mono [of "month_of d + 1" 13 ?l] month_of_bounds(2) [of d]
    by (simp add: days_before_year_next) (simp add: days_before_month_def)
  have "year_of e = year_of d \<and> month_of e = month_of d" if "e < ?b + days_before_month ?l (month_of d + 1)"
  proof -
    have y: "year_of e = year_of d"
      using year_of_bounds(1) [of d] that top assms by (intro year_of_unique) linarith+
    then have "month_of e = month_of d"
      using month_of_bounds(3) [of d] that assms by (intro month_of_unique) (auto simp: year_day_def)
    with y show ?thesis ..
  qed
  moreover have "e < ?b + days_before_month ?l (month_of d + 1)" if "year_of e = year_of d \<and> month_of e = month_of d"
    using month_of_bounds(4) [of e] that by (auto simp: year_day_def)
  ultimately show ?thesis unfolding D by blast
qed

lemma date_inj:
  "year_of e = year_of d \<and> month_of e = month_of d \<and> day_of_month e = day_of_month d \<longleftrightarrow> e = d"
  by (metis date_day_of)

lemma iso_week_eq_iff: "iso_week e = iso_week d \<longleftrightarrow> e div 7 = d div 7"
proof -
  let ?th = "\<lambda>d :: int. d - d mod 7 + 3"
  have th: "?th d = 7 * (d div 7) + 3" for d using mult_div_mod_eq [of 7 d] by linarith
  have "e div 7 = d div 7"
    if y: "year_of (?th e) = year_of (?th d)" and w: "year_day (?th e) div 7 = year_day (?th d) div 7"
  proof -
    have "?th e - ?th d = year_day (?th e) - year_day (?th d)" using y by (simp add: year_day_def)
    moreover have "\<bar>year_day (?th e) - year_day (?th d)\<bar> < 7"
      using w div_bounds [of 7 "year_day (?th e)"] div_bounds [of 7 "year_day (?th d)"] by auto
    ultimately show ?thesis using th [of d] th [of e] by linarith
  qed
  moreover have "?th e = ?th d" if "e div 7 = d div 7" using that th by simp
  ultimately show ?thesis by (auto simp: iso_week_def Let_def)
qed

lemma next_monday:
  "(let k = (8 - weekday d) mod 7; k = (if k = 0 then 7 else k) in d + k) = 7 * (d div 7) + 7"
proof -
  have "0 \<le> d mod 7" "d mod 7 < 7" by auto
  then consider "d mod 7 = 0" | "d mod 7 = 1" | "d mod 7 = 2" | "d mod 7 = 3" | "d mod 7 = 4" | "d mod 7 = 5" | "d mod 7 = 6"
    by linarith
  then have "(let k = (8 - weekday d) mod 7 in if k = 0 then 7 else k) = 7 - d mod 7"
    by cases (auto simp: weekday_def Let_def mod_add_left_eq [of d 7 1, symmetric])
  then show ?thesis by (simp add: Let_def minus_mod_eq_mult_div [symmetric])
qed

subsection \<open>The three accounting schemes\<close>

definition month_key :: "int \<Rightarrow> string" where
  "month_key d = show_year (year_of d) @ ''-'' @ show_pad 2 (nat (month_of d))"

definition day_key :: "int \<Rightarrow> string" where
  "day_key d = show_year (year_of d) @ ''-'' @ show_pad 2 (nat (month_of d)) @ ''-'' @ show_pad 2 (nat (day_of_month d))"

definition week_key :: "int \<Rightarrow> string" where
  "week_key d = (let (year, week) = iso_week d in show_int year @ ''-W'' @ show_pad 2 (nat week))"

lemma dash_no_digit: "digit_val CHR ''-'' = None"
  by (simp add: digit_val_def)

lemma day_of_month_pos: "1 \<le> day_of_month d"
  using month_of_bounds(3) [of d] by (simp add: day_of_month_def)

lemma month_key_eq: "month_key e = month_key d \<longleftrightarrow> year_of e = year_of d \<and> month_of e = month_of d"
proof
  assume k: "month_key e = month_key d"
  then have y: "year_of e = year_of d" and r: "''-'' @ show_pad 2 (nat (month_of e)) = ''-'' @ show_pad 2 (nat (month_of d))"
    using show_year_cancel [of "year_of e" "''-'' @ show_pad 2 (nat (month_of e))" "year_of d" "''-'' @ show_pad 2 (nat (month_of d))"]
    by (auto simp: month_key_def dash_no_digit)
  then have "nat (month_of e) = nat (month_of d)"
    using show_pad_cancel(1) [of 2 "nat (month_of e)" "[]" "nat (month_of d)" "[]"] by simp
  with y show "year_of e = year_of d \<and> month_of e = month_of d"
    using month_of_bounds(1) [of e] month_of_bounds(1) [of d] by auto
qed (simp add: month_key_def)

lemma day_key_eq: "day_key e = day_key d \<longleftrightarrow> e = d"
proof
  let ?tail = "\<lambda>d. ''-'' @ show_pad 2 (nat (day_of_month d))"
  let ?rest = "\<lambda>d. ''-'' @ show_pad 2 (nat (month_of d)) @ ?tail d"
  assume k: "day_key e = day_key d"
  have y: "year_of e = year_of d" and r: "?rest e = ?rest d"
    using k show_year_cancel [of "year_of e" "?rest e" "year_of d" "?rest d"]
    by (auto simp: day_key_def dash_no_digit)
  from r have r': "show_pad 2 (nat (month_of e)) @ ?tail e = show_pad 2 (nat (month_of d)) @ ?tail d" by simp
  have m: "nat (month_of e) = nat (month_of d)" and t: "?tail e = ?tail d"
    using show_pad_cancel [OF r'] by (auto simp: dash_no_digit)
  have "nat (day_of_month e) = nat (day_of_month d)"
    using t show_pad_cancel(1) [of 2 "nat (day_of_month e)" "[]" "nat (day_of_month d)" "[]"] by simp
  with y m show "e = d"
    using month_of_bounds(1) [of e] month_of_bounds(1) [of d] day_of_month_pos [of e] day_of_month_pos [of d]
    by (subst date_inj [symmetric]) auto
qed simp

lemma week_key_eq: "week_key e = week_key d \<longleftrightarrow> e div 7 = d div 7"
proof
  obtain y w where e: "iso_week e = (y, w)" by fastforce
  obtain z v where d: "iso_week d = (z, v)" by fastforce
  have pos: "1 \<le> snd (iso_week d)" for d
    using year_day_bounds(1) [of "d - d mod 7 + 3"] by (simp add: iso_week_def Let_def pos_imp_zdiv_nonneg_iff)
  assume "week_key e = week_key d"
  then have k: "(if y < 0 then ''-'' else []) @ show_pad 0 (nat \<bar>y\<bar>) @ (''-W'' @ show_pad 2 (nat w))
      = (if z < 0 then ''-'' else []) @ show_pad 0 (nat \<bar>z\<bar>) @ (''-W'' @ show_pad 2 (nat v))"
    unfolding week_key_def e d show_int_pad by simp
  have "y = z" and r: "''-W'' @ show_pad 2 (nat w) = ''-W'' @ show_pad 2 (nat v)"
    using signed_pad_cancel [OF k] by (auto simp: dash_no_digit)
  moreover have "nat w = nat v" using r show_pad_cancel(1) [of 2 "nat w" "[]" "nat v" "[]"] by simp
  then have "w = v" using pos [of d] pos [of e] by (simp add: e d)
  ultimately have "iso_week e = iso_week d" by (simp add: e d)
  then show "e div 7 = d div 7" by (simp add: iso_week_eq_iff)
qed (simp add: week_key_def iso_week_eq_iff [symmetric])

interpretation monthly: day_scheme "PeriodKey ''monthly''" "nextPeriodStart ''monthly''" month_key
    "\<lambda>d. date_day (year_of d) (month_of d + 1) 1"
proof unfold_locales
  show "d < date_day (year_of d) (month_of d + 1) 1" for d using same_month_iff [of d d] by simp
  show "month_key d \<noteq> []" for d by (simp add: month_key_def)
  show "PeriodKey ''monthly'' t = month_key (day_number t)" for t by (simp add: PeriodKey_def month_key_def Let_def)
qed (simp_all add: nextPeriodStart_def Let_def month_key_eq same_month_iff)

interpretation daily: day_scheme "PeriodKey ''daily''" "nextPeriodStart ''daily''" day_key "\<lambda>d. d + 1"
  by unfold_locales (auto simp: PeriodKey_def nextPeriodStart_def day_key_eq Let_def, simp_all add: day_key_def)

interpretation weekly: day_scheme "PeriodKey ''weekly''" "nextPeriodStart ''weekly''" week_key "\<lambda>d. 7 * (d div 7) + 7"
proof unfold_locales
  show "PeriodKey ''weekly'' t = week_key (day_number t)" for t by (simp add: PeriodKey_def week_key_def)
  show "nextPeriodStart ''weekly'' t = day_start (7 * (day_number t div 7) + 7)" for t
    unfolding next_monday [symmetric] by (simp add: nextPeriodStart_def Let_def)
  show "d < 7 * (d div 7) + 7" for d :: int using div_bounds [of 7 d] by linarith
  show "week_key e = week_key d \<longleftrightarrow> e < 7 * (d div 7) + 7" if "d \<le> e" for d e
    using that div_bounds [of 7 d] div_bounds [of 7 e] zdiv_mono1 [OF that, of 7] by (auto simp: week_key_eq)
  show "week_key d \<noteq> []" for d by (simp add: week_key_def split: prod.split)
qed

lemmas tracked_key_iff = monthly.same_key_iff weekly.same_key_iff daily.same_key_iff
lemmas tracked_named = monthly.named weekly.named daily.named

lemma PeriodKey_named [simp]: "PeriodKey s t = [] \<longleftrightarrow> \<not> tracked_scheme s"
  using monthly.named weekly.named daily.named by (auto simp: tracked_scheme_def PeriodKey_def)

lemma tracked_later: "tracked_scheme s \<Longrightarrow> t < nextPeriodStart s t"
  using monthly.later weekly.later daily.later by (auto simp: tracked_scheme_def)

lemma tracked_fresh: "tracked_scheme s \<Longrightarrow> nextPeriodStart s t \<le> u \<Longrightarrow> PeriodKey s u \<noteq> PeriodKey s t"
  using monthly.fresh weekly.fresh daily.fresh by (auto simp: tracked_scheme_def)

lemma PeriodKey_never_returns:
  assumes "t \<le> u" "u \<le> v" "PeriodKey s v = PeriodKey s t"
  shows "PeriodKey s u = PeriodKey s t"
proof (cases "tracked_scheme s")
  case True
  then show ?thesis using assms monthly.keys_never_return weekly.keys_never_return daily.keys_never_return
    by (auto simp: tracked_scheme_def)
next
  case False
  then have "PeriodKey s x = []" for x by simp
  then show ?thesis by (simp only:)
qed

text \<open>
  Property C18. For each of the three accounting schemes the period identifier computed at a later
  instant is the same exactly until \<open>nextPeriodStart\<close>, which is always in the future: an
  identifier names one contiguous period and never comes back.
\<close>

theorem period_key_until_next_start:
  assumes "tracked_scheme s" and "t \<le> u"
  shows "t < nextPeriodStart s t \<and> (PeriodKey s u = PeriodKey s t \<longleftrightarrow> u < nextPeriodStart s t)"
  using assms monthly.later weekly.later daily.later
  by (auto simp: tracked_scheme_def tracked_key_iff)

theorem period_key_until_next_start_witness:
  "nextPeriodStart ''weekly'' 0 = 4 * day_ns \<and> PeriodKey ''weekly'' (4 * day_ns - 1) = PeriodKey ''weekly'' 0
   \<and> PeriodKey ''weekly'' (4 * day_ns) \<noteq> PeriodKey ''weekly'' 0"
proof -
  have n: "nextPeriodStart ''weekly'' 0 = 4 * day_ns"
    by (simp add: nextPeriodStart_def day_number_def weekday_def day_start_def duration_defs)
  have w: "tracked_scheme ''weekly''" by (simp add: tracked_scheme_def)
  show ?thesis
    using n period_key_until_next_start [OF w, of 0 "4 * day_ns - 1"]
      period_key_until_next_start [OF w, of 0 "4 * day_ns"] by (simp add: duration_defs)
qed

end
