(* ===== verification/Budget_Partial.thy ===== *)
theory Budget_Partial
  imports Json_Doc Budget_Period
begin

text \<open>
  The wire form of spend in the budget ConfigMap (\<^verbatim>\<open>internal/gateway/budget.go\<close>): each
  replica publishes one \<open>budgetPartial\<close> under its Pod name, the reconciler keeps
  \<^verbatim>\<open>_retired\<close> and \<^verbatim>\<open>_canonical\<close> beside them, and \<open>FoldPartials\<close> adds up what the others
  published for the current period.
\<close>

subsection \<open>The code\<close>

definition BudgetConfigMapName :: "string \<Rightarrow> string" where
  "BudgetConfigMapName providerName = ''kaalm-budget-'' @ providerName"

definition AgentSpendConfigMapName :: "string \<Rightarrow> string" where
  "AgentSpendConfigMapName providerName = ''kaalm-agentspend-'' @ providerName"

definition UnattributedWorkload :: string where "UnattributedWorkload = ''(unattributed)''"
definition CanonicalKey :: string where "CanonicalKey = ''_canonical''"
definition RetiredKey :: string where "RetiredKey = ''_retired''"
definition marginExceededField :: string where "marginExceededField = ''_marginExceeded''"

lemmas partial_key_defs = CanonicalKey_def RetiredKey_def marginExceededField_def

record budgetPartial =
  bp_Period :: string
  bp_Spend :: "string gomap"
  bp_MarginExceeded :: bool

fun put_all :: "'v gomap \<Rightarrow> 'v gomap \<Rightarrow> 'v gomap" where
  "put_all out [] = out"
| "put_all out ((k, v) # src) = put_all (mput k v out) src"

definition MarshalJSON :: "budgetPartial \<Rightarrow> doc" where
  "MarshalJSON p =
     (let out = [(''period'', bp_Period p)];
          out = put_all out (bp_Spend p);
          out = (if bp_MarginExceeded p then mput marginExceededField ''true'' out else out)
      in Marshal_flat out)"

fun parse_fields :: "string gomap \<Rightarrow> string \<times> rat gomap \<times> bool \<Rightarrow> string \<times> rat gomap \<times> bool" where
  "parse_fields [] st = st"
| "parse_fields ((k, v) # r) (period, spend, margin) =
     parse_fields r
       (if k = ''period'' then (v, spend, margin)
        else if HasPrefix k ''_'' then
          (period, spend, if k = marginExceededField \<and> v = ''true'' then True else margin)
        else (case ParseFloat v of
                None \<Rightarrow> (period, spend, margin)
              | Some f \<Rightarrow> (period, mput k f spend, margin)))"

definition ParseBudgetPartial :: "doc \<Rightarrow> (string \<times> rat gomap \<times> bool) option" where
  "ParseBudgetPartial raw =
     (case Unmarshal_flat raw of None \<Rightarrow> None | Some flat \<Rightarrow> Some (parse_fields flat ([], [], False)))"

definition format_spend :: "rat gomap \<Rightarrow> string gomap" where
  "format_spend m = map (\<lambda>(k, v). (k, FormatFloat2 v)) m"

definition RetiredPartial :: "string \<Rightarrow> rat gomap \<Rightarrow> budgetPartial" where
  "RetiredPartial period spend =
     \<lparr>bp_Period = period, bp_Spend = format_spend spend, bp_MarginExceeded = False\<rparr>"

fun fold_partials :: "string \<Rightarrow> string \<Rightarrow> doc gomap \<Rightarrow> rat gomap \<Rightarrow> rat gomap" where
  "fold_partials ownPodName currentPeriod [] peers = peers"
| "fold_partials ownPodName currentPeriod ((key, raw) # r) peers =
     fold_partials ownPodName currentPeriod r
       (if key = ownPodName \<or> key = CanonicalKey then peers
        else (case ParseBudgetPartial raw of
                None \<Rightarrow> peers
              | Some (period, spend, _) \<Rightarrow> if period \<noteq> currentPeriod then peers else ssum peers spend))"

definition FoldPartials :: "doc gomap \<Rightarrow> string \<Rightarrow> string \<Rightarrow> rat gomap" where
  "FoldPartials data ownPodName currentPeriod = fold_partials ownPodName currentPeriod data []"

lemmas [kaalm_eval] = MarshalJSON_def ParseBudgetPartial_def format_spend_def RetiredPartial_def
  FoldPartials_def partial_key_defs

subsection \<open>What a partial says\<close>

definition spend_name :: "string \<Rightarrow> bool" where
  "spend_name k = (k \<noteq> ''period'' \<and> \<not> HasPrefix k ''_'')"

lemma put_all_lookup:
  "wfmap src \<Longrightarrow> mlookup (put_all out src) k = (case mlookup src k of None \<Rightarrow> mlookup out k | Some v \<Rightarrow> Some v)"
  by (induction out src rule: put_all.induct) (auto simp: wfmap_Cons mhas_def split: option.splits)

lemma wfmap_put_all [simp]: "wfmap out \<Longrightarrow> wfmap (put_all out src)"
  by (induction out src rule: put_all.induct) auto

lemma parse_fields_sound:
  assumes "wfmap flat" "parse_fields flat (p0, s0, m0) = (p, s, m)"
  shows "p = mget p0 flat ''period''"
    and "mlookup s k = (case (if spend_name k then Option.bind (mlookup flat k) ParseFloat else None) of
                          None \<Rightarrow> mlookup s0 k | Some f \<Rightarrow> Some f)"
    and "m \<longleftrightarrow> m0 \<or> mlookup flat marginExceededField = Some ''true''"
proof -
  have "p = mget p0 flat ''period'' \<and>
      mlookup s k = (case (if spend_name k then Option.bind (mlookup flat k) ParseFloat else None) of
                          None \<Rightarrow> mlookup s0 k | Some f \<Rightarrow> Some f) \<and>
      (m \<longleftrightarrow> m0 \<or> mlookup flat marginExceededField = Some ''true'')"
    using assms
  proof (induction flat arbitrary: p0 s0 m0)
    case (Cons e flat)
    obtain k' v where e: "e = (k', v)" by fastforce
    have wf: "wfmap flat" "mlookup flat k' = None" using Cons.prems by (auto simp: e wfmap_Cons mhas_def)
    show ?case
    proof (cases "k' = ''period''")
      case True
      then show ?thesis using Cons.IH [OF wf(1)] Cons.prems(2) wf(2)
        by (fastforce simp: e mget_def spend_name_def marginExceededField_def)
    next
      case np: False
      show ?thesis
      proof (cases "HasPrefix k' ''_''")
        case True
        then show ?thesis using Cons.IH [OF wf(1)] Cons.prems(2) wf(2) np
          by (fastforce simp: e mget_def spend_name_def split: if_splits)
      next
        case False
        moreover have "marginExceededField \<noteq> k'"
          using False by (auto simp: marginExceededField_def HasPrefix_def)
        ultimately show ?thesis using Cons.IH [OF wf(1)] Cons.prems(2) wf(2) np
          by (auto simp: e mget_def spend_name_def split: option.splits if_splits)
      qed
    qed
  qed simp
  then show "p = mget p0 flat ''period''"
    and "mlookup s k = (case (if spend_name k then Option.bind (mlookup flat k) ParseFloat else None) of
                          None \<Rightarrow> mlookup s0 k | Some f \<Rightarrow> Some f)"
    and "m \<longleftrightarrow> m0 \<or> mlookup flat marginExceededField = Some ''true''" by blast+
qed

lemma wfmap_parse_fields: "parse_fields flat (p0, s0, m0) = (p, s, m) \<Longrightarrow> wfmap s0 \<Longrightarrow> wfmap s"
  by (induction flat "(p0, s0, m0)" arbitrary: p0 s0 m0 rule: parse_fields.induct)
     (auto split: if_splits option.splits)

lemma wfmap_ParseBudgetPartial: "ParseBudgetPartial raw = Some (p, s, m) \<Longrightarrow> wfmap s"
  by (auto simp: ParseBudgetPartial_def wfmap_parse_fields split: option.splits)

lemma mlookup_format_spend [simp]: "mlookup (format_spend m) k = map_option FormatFloat2 (mlookup m k)"
  by (induction m) (auto simp: format_spend_def)

lemma wfmap_format_spend [simp]: "wfmap (format_spend m) = wfmap m"
  by (simp add: wfmap_def format_spend_def comp_def case_prod_beta)

lemma mget_sort_key: "wfmap m \<Longrightarrow> mget z (sort_key fst m) k = mget z m k"
  by (simp add: mget_def mlookup_sort_key)

text \<open>Decoding a published partial, for any spend map, gives back its fields.\<close>

lemma ParseBudgetPartial_MarshalJSON:
  assumes "wfmap spend"
  obtains s where
    "ParseBudgetPartial (MarshalJSON \<lparr>bp_Period = period, bp_Spend = format_spend spend, bp_MarginExceeded = mg\<rparr>)
      = Some (case mlookup spend ''period'' of None \<Rightarrow> period | Some v \<Rightarrow> FormatFloat2 v, s,
              mg \<or> mlookup (format_spend spend) marginExceededField = Some ''true'')"
    "wfmap s" "\<And>k. mlookup s k = (if spend_name k then map_option round2 (mlookup spend k) else None)"
proof -
  define out where "out = (let out = put_all [(''period'', period)] (format_spend spend)
    in if mg then mput marginExceededField ''true'' out else out)"
  have wf: "wfmap out" by (simp add: out_def Let_def wfmap_def [of "[_]"])
  have look: "mlookup out k =
      (if mg \<and> k = marginExceededField then Some ''true''
       else (case mlookup spend k of
               None \<Rightarrow> (if k = ''period'' then Some period else None)
             | Some v \<Rightarrow> Some (FormatFloat2 v)))" for k
    using assms by (simp add: out_def Let_def put_all_lookup split: option.split)
  have raw: "MarshalJSON \<lparr>bp_Period = period, bp_Spend = format_spend spend, bp_MarginExceeded = mg\<rparr> = Marshal_flat out"
    by (simp add: MarshalJSON_def out_def Let_def)
  obtain p s m where f: "parse_fields (sort_key fst out) ([], [], False) = (p, s, m)" by (metis prod_cases3)
  note snd = parse_fields_sound [OF wfmap_sort_key [OF wf] f]
  have p: "p = (case mlookup spend ''period'' of None \<Rightarrow> period | Some v \<Rightarrow> FormatFloat2 v)"
  proof -
    have "p = mget [] out ''period''" using snd(1) by (simp only: mget_sort_key [OF wf])
    then show ?thesis by (simp add: mget_def look marginExceededField_def split: option.split)
  qed
  have m: "m \<longleftrightarrow> mg \<or> mlookup (format_spend spend) marginExceededField = Some ''true''"
    using snd(3) unfolding mlookup_sort_key [OF wf] look
    by (auto simp: marginExceededField_def split: option.splits)
  have "mlookup s k = (if spend_name k then map_option round2 (mlookup spend k) else None)" for k
  proof -
    have "spend_name k \<Longrightarrow> k \<noteq> marginExceededField \<and> k \<noteq> ''period''"
      by (auto simp: spend_name_def marginExceededField_def HasPrefix_def)
    then show ?thesis using snd(2) [of k] unfolding mlookup_sort_key [OF wf] look
      by (auto split: option.splits)
  qed
  moreover have "wfmap s" using wfmap_parse_fields [OF f] by simp
  ultimately show ?thesis
    using that [of s] by (simp add: raw ParseBudgetPartial_def Unmarshal_Marshal_flat [OF wf] f p m)
qed

subsection \<open>Folding partials\<close>

text \<open>What one entry of the ConfigMap adds to the view of the current period.\<close>

definition contribution :: "string \<Rightarrow> doc \<Rightarrow> string \<Rightarrow> rat" where
  "contribution currentPeriod raw ns =
     (case ParseBudgetPartial raw of
        None \<Rightarrow> 0
      | Some (period, spend, _) \<Rightarrow> if period = currentPeriod then sget spend ns else 0)"

definition folded_spend :: "string \<Rightarrow> string set \<Rightarrow> doc gomap \<Rightarrow> string \<Rightarrow> rat" where
  "folded_spend currentPeriod skipped data ns =
     sum_list (map (\<lambda>(key, raw). if key \<in> skipped then 0 else contribution currentPeriod raw ns) data)"

lemma fold_partials_sget:
  "sget (fold_partials own cur data peers) ns = sget peers ns + folded_spend cur {own, CanonicalKey} data ns"
proof (induction own cur data peers rule: fold_partials.induct)
  case (2 own cur key raw r peers)
  show ?case
  proof (cases "ParseBudgetPartial raw")
    case None
    then show ?thesis using 2 by (simp add: folded_spend_def contribution_def)
  next
    case (Some t)
    obtain p s m where t: "t = (p, s, m)" by (metis prod_cases3)
    have "sget (ssum peers s) ns = sget peers ns + sget s ns"
      by (rule sget_ssum) (use wfmap_ParseBudgetPartial Some t in blast)
    then show ?thesis using 2 Some t by (simp add: folded_spend_def contribution_def)
  qed
qed (simp add: folded_spend_def)

lemma wfmap_fold_partials: "wfmap peers \<Longrightarrow> wfmap (fold_partials own cur data peers)"
  by (induction own cur data peers rule: fold_partials.induct) (auto split: option.splits)

lemma folded_spend_mset: "mset data = mset data' \<Longrightarrow> folded_spend cur S data ns = folded_spend cur S data' ns"
  unfolding folded_spend_def sum_mset_sum_list [symmetric] mset_map by simp

text \<open>
  Property C13. The peer view a replica folds from the budget ConfigMap is, namespace by namespace,
  the sum of what every other key (Pods and the retired accumulator, never its own key and never
  the canonical roll-up) published for the current period; unreadable entries and entries of other
  periods count nothing, and the order in which the map is visited does not matter.
\<close>

theorem FoldPartials_sums_current_period:
  assumes "mset data' = mset data"
  shows "sget (FoldPartials data' own cur) ns = folded_spend cur {own, CanonicalKey} data ns"
  using folded_spend_mset [OF assms] by (simp add: FoldPartials_def fold_partials_sget)

theorem FoldPartials_sums_current_period_witness:
  "sget (FoldPartials
      [(''gw-1'', Some (JObj [(''period'', JStr ''2026-04''), (''team'', JStr ''87.30'')])),
       (CanonicalKey, Some (JObj [(''team'', JStr ''999'')])),
       (''gw-0'', Some (JObj [(''period'', JStr ''2026-04''), (''team'', JStr ''142.50'')]))]
      ''gw-9'' ''2026-04'') ''team'' = 2298 / 10"
  by (subst FoldPartials_sums_current_period [where data =
      "[(''gw-0'', Some (JObj [(''period'', JStr ''2026-04''), (''team'', JStr ''142.50'')])),
        (''gw-1'', Some (JObj [(''period'', JStr ''2026-04''), (''team'', JStr ''87.30'')])),
        (CanonicalKey, Some (JObj [(''team'', JStr ''999'')]))]"])
     (simp, simp add: kaalm_eval folded_spend_def contribution_def)

end
