(* ===== verification/Budget_Ledger.thy ===== *)
theory Budget_Ledger
  imports Budget_Partial "HOL-Library.Word"
begin

text \<open>
  The in-memory spend ledger of one gateway replica (\<^verbatim>\<open>internal/gateway/budget.go\<close>), with
  the observed-traffic tracker of \<^verbatim>\<open>budget_hard.go\<close>. Every method of \<^verbatim>\<open>BudgetLedger\<close> runs under its mutex, so each is one
  function from the ledger and the clock reading \<open>now\<close> to the new ledger: the clock is read
  once per critical section. A read of the injected replica counter is the field
  \<open>bl_replicas\<close>.
\<close>

subsection \<open>State\<close>

record providerLedger =
  pl_period :: string
  pl_own :: "rat gomap"
  pl_peers :: "rat gomap"
  pl_ownW :: "rat gomap"
  pl_peersW :: "rat gomap"
  pl_adm :: "64 word gomap"
  pl_nextToken :: "64 word"
  pl_maxCostPerCall :: rat
  pl_rateBucketStart :: "instant option"
  pl_rateBucketSum :: rat
  pl_peakRatePerSec :: rat
  pl_dirtySince :: "instant option"
  pl_lastFoldOK :: "instant option"
  pl_marginRaised :: bool

record BudgetLedger =
  bl_replicas :: "int option"
  bl_kick :: "string list"
  bl_stalenessWindow :: duration
  bl_providers :: "providerLedger gomap"

definition rateBucketWidth :: duration where "rateBucketWidth = 10 * second_ns"
definition defaultPublishInterval :: duration where "defaultPublishInterval = 10 * second_ns"
definition clusterSlotKey :: string where "clusterSlotKey = []"
definition kickCapacity :: nat where "kickCapacity = 64"

definition NewBudgetLedger :: BudgetLedger where
  "NewBudgetLedger =
     \<lparr>bl_replicas = None, bl_kick = [], bl_stalenessWindow = 3 * defaultPublishInterval, bl_providers = []\<rparr>"

definition SetReplicas :: "int option \<Rightarrow> BudgetLedger \<Rightarrow> BudgetLedger" where
  "SetReplicas f b = b\<lparr>bl_replicas := f\<rparr>"

definition new_ledger :: "string \<Rightarrow> providerLedger" where
  "new_ledger period =
     \<lparr>pl_period = period, pl_own = [], pl_peers = [], pl_ownW = [], pl_peersW = [], pl_adm = [],
      pl_nextToken = 0, pl_maxCostPerCall = 0, pl_rateBucketStart = None, pl_rateBucketSum = 0,
      pl_peakRatePerSec = 0, pl_dirtySince = None, pl_lastFoldOK = None, pl_marginRaised = False\<rparr>"

definition roll_over :: "string \<Rightarrow> providerLedger \<Rightarrow> providerLedger" where
  "roll_over period l =
     (if pl_period l \<noteq> period then
        l\<lparr>pl_period := period, pl_own := [], pl_peers := [], pl_ownW := [], pl_peersW := [],
          pl_adm := [], pl_maxCostPerCall := 0, pl_rateBucketStart := None, pl_rateBucketSum := 0,
          pl_peakRatePerSec := 0, pl_marginRaised := False\<rparr>
      else l)"

text \<open>\<^verbatim>\<open>ledgerFor\<close> returns a pointer into the map; here it returns the rolled-over ledger, and
  \<open>put_ledger\<close> stores what the caller did with it.\<close>

definition ledgerFor :: "BudgetLedger \<Rightarrow> instant \<Rightarrow> string \<Rightarrow> string \<Rightarrow> providerLedger" where
  "ledgerFor b now providerName scheme =
     (let period = PeriodKey scheme now
      in case mlookup (bl_providers b) providerName of
           None \<Rightarrow> new_ledger period
         | Some l \<Rightarrow> roll_over period l)"

definition put_ledger :: "BudgetLedger \<Rightarrow> string \<Rightarrow> providerLedger \<Rightarrow> BudgetLedger" where
  "put_ledger b providerName l = b\<lparr>bl_providers := mput providerName l (bl_providers b)\<rparr>"

subsection \<open>Recording spend\<close>

definition trackLocked :: "instant \<Rightarrow> rat \<Rightarrow> providerLedger \<Rightarrow> providerLedger" where
  "trackLocked now cost l =
     (if cost \<le> 0 then l
      else
        (let l = (if cost > pl_maxCostPerCall l then l\<lparr>pl_maxCostPerCall := cost\<rparr> else l);
             l = (case pl_rateBucketStart l of
                    None \<Rightarrow> l\<lparr>pl_rateBucketStart := Some now, pl_rateBucketSum := 0\<rparr>
                  | Some start \<Rightarrow>
                      (if now - start \<ge> rateBucketWidth then
                         (let r = pl_rateBucketSum l / duration_seconds rateBucketWidth;
                              l = (if r > pl_peakRatePerSec l then l\<lparr>pl_peakRatePerSec := r\<rparr> else l)
                          in l\<lparr>pl_rateBucketStart := Some now, pl_rateBucketSum := 0\<rparr>)
                       else l))
         in l\<lparr>pl_rateBucketSum := pl_rateBucketSum l + cost\<rparr>))"

definition record_cost :: "instant \<Rightarrow> string \<Rightarrow> string \<Rightarrow> rat \<Rightarrow> providerLedger \<Rightarrow> providerLedger" where
  "record_cost now namespace workload cost l =
     (let l = l\<lparr>pl_own := sadd (pl_own l) namespace cost,
                pl_ownW := sadd (pl_ownW l) (namespace @ ''/'' @ workload) cost\<rparr>;
          l = trackLocked now cost l
      in (if pl_dirtySince l = None then l\<lparr>pl_dirtySince := Some now\<rparr> else l))"

definition Add :: "BudgetLedger \<Rightarrow> instant \<Rightarrow> ModelProvider \<Rightarrow> string \<Rightarrow> string \<Rightarrow> rat \<Rightarrow> BudgetLedger" where
  "Add b now provider namespace workload costUSD =
     (let scheme = bud_Period (mp_Budget provider)
      in if PeriodKey scheme now = [] \<or> costUSD = 0 then b
         else put_ledger b (mp_Name provider)
                (record_cost now namespace workload costUSD (ledgerFor b now (mp_Name provider) scheme)))"

subsection \<open>The peer view and publishing\<close>

definition FoldPeers :: "BudgetLedger \<Rightarrow> instant \<Rightarrow> ModelProvider \<Rightarrow> rat gomap \<Rightarrow> BudgetLedger" where
  "FoldPeers b now provider peers =
     put_ledger b (mp_Name provider)
       ((ledgerFor b now (mp_Name provider) (bud_Period (mp_Budget provider)))
          \<lparr>pl_peers := peers, pl_lastFoldOK := Some now\<rparr>)"

definition InitCanonical :: "BudgetLedger \<Rightarrow> instant \<Rightarrow> ModelProvider \<Rightarrow> rat gomap \<Rightarrow> BudgetLedger" where
  "InitCanonical b now provider canonical = FoldPeers b now provider canonical"

definition FoldWorkloadPeers :: "BudgetLedger \<Rightarrow> instant \<Rightarrow> ModelProvider \<Rightarrow> rat gomap \<Rightarrow> BudgetLedger" where
  "FoldWorkloadPeers b now provider peers =
     put_ledger b (mp_Name provider)
       ((ledgerFor b now (mp_Name provider) (bud_Period (mp_Budget provider)))\<lparr>pl_peersW := peers\<rparr>)"

definition OwnWorkloadPartial :: "BudgetLedger \<Rightarrow> string \<Rightarrow> (string \<times> string gomap) option" where
  "OwnWorkloadPartial b providerName =
     (case mlookup (bl_providers b) providerName of
        None \<Rightarrow> None
      | Some l \<Rightarrow> if pl_ownW l = [] then None else Some (pl_period l, format_spend (pl_ownW l)))"

definition OwnPartial :: "BudgetLedger \<Rightarrow> string \<Rightarrow> (string \<times> string gomap \<times> bool) option" where
  "OwnPartial b providerName =
     (case mlookup (bl_providers b) providerName of
        None \<Rightarrow> None
      | Some l \<Rightarrow> if pl_own l = [] then None
                  else Some (pl_period l, format_spend (pl_own l), pl_marginRaised l))"

definition MarkPublished :: "BudgetLedger \<Rightarrow> string \<Rightarrow> instant \<Rightarrow> BudgetLedger" where
  "MarkPublished b providerName snapshot =
     (case mlookup (bl_providers b) providerName of
        None \<Rightarrow> b
      | Some l \<Rightarrow>
          (case pl_dirtySince l of
             None \<Rightarrow> b
           | Some since \<Rightarrow>
               (if since \<le> snapshot then put_ledger b providerName (l\<lparr>pl_dirtySince := None\<rparr>) else b)))"

record WorkloadProviderSpend =
  wps_Period :: string
  wps_Workloads :: "string gomap"

fun prefix_sums :: "string \<Rightarrow> rat gomap \<Rightarrow> rat gomap \<Rightarrow> rat gomap" where
  "prefix_sums pfx [] acc = acc"
| "prefix_sums pfx ((key, v) # r) acc =
     prefix_sums pfx r
       (case CutPrefix key pfx of None \<Rightarrow> acc | Some workload \<Rightarrow> sadd acc workload v)"

definition workload_sums :: "string \<Rightarrow> providerLedger \<Rightarrow> rat gomap" where
  "workload_sums namespace l =
     (let pfx = namespace @ ''/'' in prefix_sums pfx (pl_peersW l) (prefix_sums pfx (pl_ownW l) []))"

definition WorkloadSpend :: "BudgetLedger \<Rightarrow> string \<Rightarrow> WorkloadProviderSpend gomap" where
  "WorkloadSpend b namespace =
     List.map_filter
       (\<lambda>(providerName, l).
          (let acc = workload_sums namespace l
           in if acc = [] then None
              else Some (providerName, \<lparr>wps_Period = pl_period l, wps_Workloads = format_spend acc\<rparr>)))
       (bl_providers b)"

subsection \<open>Utilization and the policy ladder\<close>

definition spent :: "providerLedger \<Rightarrow> string \<Rightarrow> rat" where
  "spent l namespace = sget (pl_own l) namespace + sget (pl_peers l) namespace"

definition clusterSpent :: "providerLedger \<Rightarrow> rat" where
  "clusterSpent l = stotal (pl_own l) + stotal (pl_peers l)"

record budgetDecision =
  bd_Action :: string
  bd_DegradeTo :: string
  bd_RetryAfter :: int
  bd_Percent :: int
  bd_Ceiling :: string
  bd_Throttled :: bool
  bd_Unavailable :: bool
  bd_BoundaryEngaged :: bool
  bd_MarginRaisedNow :: bool

definition no_decision :: budgetDecision where
  "no_decision =
     \<lparr>bd_Action = [], bd_DegradeTo = [], bd_RetryAfter = 0, bd_Percent = 0, bd_Ceiling = [],
      bd_Throttled = False, bd_Unavailable = False, bd_BoundaryEngaged = False, bd_MarginRaisedNow = False\<rparr>"

record utilization =
  u_nsPct :: rat
  u_clPct :: rat
  u_nsUSD :: rat
  u_clUSD :: rat
  u_worst :: rat
  u_worstIsCluster :: bool

definition utilizationLocked :: "ModelProviderBudget \<Rightarrow> providerLedger \<Rightarrow> string \<Rightarrow> utilization" where
  "utilizationLocked budget l namespace =
     (let u = \<lparr>u_nsPct = 0, u_clPct = 0, u_nsUSD = 0, u_clUSD = 0, u_worst = 0, u_worstIsCluster = False\<rparr>;
          u = (case ParseFloat (bud_PerNamespaceUSD budget) of
                 None \<Rightarrow> u
               | Some ceil \<Rightarrow>
                   (if ceil > 0 then
                      (let pct = spent l namespace / ceil * 100
                       in u\<lparr>u_nsUSD := ceil, u_nsPct := pct, u_worst := pct\<rparr>)
                    else u))
      in (case bud_ClusterUSD budget of
            None \<Rightarrow> u
          | Some cluster \<Rightarrow>
              (case ParseFloat cluster of
                 None \<Rightarrow> u
               | Some ceil \<Rightarrow>
                   (if ceil > 0 then
                      (let u = u\<lparr>u_clUSD := ceil, u_clPct := clusterSpent l / ceil * 100\<rparr>
                       in if u_clPct u > u_worst u then u\<lparr>u_worst := u_clPct u, u_worstIsCluster := True\<rparr> else u)
                    else u))))"

fun winner_policy ::
  "rat \<Rightarrow> ModelProviderBudgetPolicy list \<Rightarrow> ModelProviderBudgetPolicy option \<Rightarrow> ModelProviderBudgetPolicy option" where
  "winner_policy worst [] winner = winner"
| "winner_policy worst (p # ps) winner =
     winner_policy worst ps
       (if worst \<ge> of_int (pol_AtPercent p) \<and>
           (case winner of None \<Rightarrow> True | Some w \<Rightarrow> pol_AtPercent p > pol_AtPercent w)
        then Some p else winner)"

definition decide :: "instant \<Rightarrow> ModelProviderBudget \<Rightarrow> utilization \<Rightarrow> budgetDecision" where
  "decide now budget u =
     (let d = no_decision\<lparr>bd_Percent := trunc (u_worst u),
                          bd_Ceiling := (if u_worstIsCluster u then ''cluster'' else ''namespace'')\<rparr>
      in case winner_policy (u_worst u) (bud_Policies budget) None of
           None \<Rightarrow> d
         | Some winner \<Rightarrow>
             (let d = d\<lparr>bd_Action := pol_Action winner\<rparr>;
                  d = (case pol_DegradeTo winner of
                         None \<Rightarrow> d
                       | Some m \<Rightarrow> if pol_Action winner = BudgetActionDegrade then d\<lparr>bd_DegradeTo := m\<rparr> else d)
              in if pol_Action winner = BudgetActionBlock
                 then d\<lparr>bd_RetryAfter := trunc (duration_seconds (nextPeriodStart (bud_Period budget) now - now)) + 1\<rparr>
                 else d))"

definition Enforce :: "BudgetLedger \<Rightarrow> instant \<Rightarrow> ModelProvider \<Rightarrow> string \<Rightarrow> budgetDecision \<times> BudgetLedger" where
  "Enforce b now provider namespace =
     (let budget = mp_Budget provider
      in if PeriodKey (bud_Period budget) now = [] \<or> bud_Policies budget = [] then (no_decision, b)
         else (let l = ledgerFor b now (mp_Name provider) (bud_Period budget)
               in (decide now budget (utilizationLocked budget l namespace), put_ledger b (mp_Name provider) l)))"

lemmas [kaalm_eval] = NewBudgetLedger_def new_ledger_def roll_over_def ledgerFor_def put_ledger_def
  trackLocked_def record_cost_def Add_def FoldPeers_def MarkPublished_def spent_def clusterSpent_def
  no_decision_def utilizationLocked_def decide_def Enforce_def rateBucketWidth_def
  defaultPublishInterval_def clusterSlotKey_def kickCapacity_def duration_defs
  duration_seconds_def

subsection \<open>Period rollover\<close>

lemma period_ledgerFor [simp]: "pl_period (ledgerFor b now name scheme) = PeriodKey scheme now"
  by (simp add: ledgerFor_def roll_over_def new_ledger_def Let_def split: option.split)

lemma put_ledger_lookup [simp]:
  "mlookup (bl_providers (put_ledger b name l)) n = (if n = name then Some l else mlookup (bl_providers b) n)"
  by (simp add: put_ledger_def)

lemma put_ledger_frame [simp]:
  "bl_replicas (put_ledger b name l) = bl_replicas b" "bl_kick (put_ledger b name l) = bl_kick b"
  "bl_stalenessWindow (put_ledger b name l) = bl_stalenessWindow b"
  by (simp_all add: put_ledger_def)

lemma ledgerFor_same_period:
  "mlookup (bl_providers b) name = Some l \<Longrightarrow> pl_period l = PeriodKey scheme now \<Longrightarrow> ledgerFor b now name scheme = l"
  by (simp add: ledgerFor_def roll_over_def)

lemma trackLocked_frame [simp]:
  "pl_period (trackLocked now c l) = pl_period l" "pl_own (trackLocked now c l) = pl_own l"
  "pl_peers (trackLocked now c l) = pl_peers l" "pl_ownW (trackLocked now c l) = pl_ownW l"
  "pl_peersW (trackLocked now c l) = pl_peersW l" "pl_adm (trackLocked now c l) = pl_adm l"
  "pl_nextToken (trackLocked now c l) = pl_nextToken l" "pl_dirtySince (trackLocked now c l) = pl_dirtySince l"
  "pl_lastFoldOK (trackLocked now c l) = pl_lastFoldOK l" "pl_marginRaised (trackLocked now c l) = pl_marginRaised l"
  by (simp_all add: trackLocked_def Let_def split: option.split)

lemma record_cost_frame [simp]:
  "pl_period (record_cost now ns w c l) = pl_period l" "pl_adm (record_cost now ns w c l) = pl_adm l"
  "pl_peers (record_cost now ns w c l) = pl_peers l" "pl_peersW (record_cost now ns w c l) = pl_peersW l"
  "pl_nextToken (record_cost now ns w c l) = pl_nextToken l"
  "pl_own (record_cost now ns w c l) = sadd (pl_own l) ns c"
  "pl_ownW (record_cost now ns w c l) = sadd (pl_ownW l) (ns @ ''/'' @ w) c"
  "pl_lastFoldOK (record_cost now ns w c l) = pl_lastFoldOK l"
  by (simp_all add: record_cost_def Let_def)

subsection \<open>Workload rows add up to the namespace figure\<close>

definition ns_rows :: "rat gomap \<Rightarrow> string \<Rightarrow> rat" where
  "ns_rows m ns = sum_list (map (\<lambda>(k, v). if HasPrefix k (ns @ ''/'') then v else 0) m)"

lemma ns_rows_mput:
  "wfmap m \<Longrightarrow> ns_rows (mput k v m) ns = ns_rows m ns + (if HasPrefix k (ns @ ''/'') then v - sget m k else 0)"
  by (induction m) (auto simp: ns_rows_def mput_def wfmap_Cons sget_Cons sget_notin)

lemma ns_rows_sadd:
  "wfmap m \<Longrightarrow> ns_rows (sadd m k v) ns = ns_rows m ns + (if HasPrefix k (ns @ ''/'') then v else 0)"
  by (simp add: sadd_def ns_rows_mput)

lemma before_slash:
  "CHR ''/'' \<notin> set ns \<Longrightarrow> takeWhile (\<lambda>c. c \<noteq> CHR ''/'') (ns @ CHR ''/'' # r) = ns"
  by (induction ns) auto

lemma slash_prefix_inj:
  assumes "CHR ''/'' \<notin> set ns" "CHR ''/'' \<notin> set ns'"
  shows "HasPrefix (ns' @ CHR ''/'' # w) (ns @ ''/'') \<longleftrightarrow> ns' = ns"
proof
  assume "HasPrefix (ns' @ CHR ''/'' # w) (ns @ ''/'')"
  then obtain r where "ns' @ CHR ''/'' # w = ns @ CHR ''/'' # r" by (auto simp: HasPrefix_iff)
  from arg_cong [OF this, of "takeWhile (\<lambda>c. c \<noteq> CHR ''/'')"] show "ns' = ns"
    using assms by (simp add: before_slash)
qed (simp add: HasPrefix_iff)

definition ledger_ok :: "providerLedger \<Rightarrow> bool" where
  "ledger_ok l \<longleftrightarrow> wfmap (pl_own l) \<and> wfmap (pl_ownW l) \<and>
     (\<forall>ns. CHR ''/'' \<notin> set ns \<longrightarrow> ns_rows (pl_ownW l) ns = sget (pl_own l) ns)"

lemma ledger_ok_new [simp]: "ledger_ok (new_ledger p)"
  by (simp add: ledger_ok_def new_ledger_def ns_rows_def)

lemma ledger_ok_roll_over [simp]: "ledger_ok l \<Longrightarrow> ledger_ok (roll_over p l)"
  by (simp add: ledger_ok_def roll_over_def ns_rows_def)

lemma ledger_ok_record_cost:
  "ledger_ok l \<Longrightarrow> CHR ''/'' \<notin> set ns \<Longrightarrow> ledger_ok (record_cost now ns w c l)"
  by (auto simp: ledger_ok_def ns_rows_sadd slash_prefix_inj)

lemma ledger_ok_cong:
  "pl_own l' = pl_own l \<Longrightarrow> pl_ownW l' = pl_ownW l \<Longrightarrow> ledger_ok l' = ledger_ok l"
  by (simp add: ledger_ok_def)

definition ledgers_ok :: "BudgetLedger \<Rightarrow> bool" where
  "ledgers_ok b \<longleftrightarrow> (\<forall>name l. mlookup (bl_providers b) name = Some l \<longrightarrow> ledger_ok l)"

lemma ledger_ok_ledgerFor: "ledgers_ok b \<Longrightarrow> ledger_ok (ledgerFor b now name scheme)"
  by (auto simp: ledgers_ok_def ledgerFor_def Let_def split: option.split)

lemma ledgers_ok_put: "ledgers_ok b \<Longrightarrow> ledger_ok l \<Longrightarrow> ledgers_ok (put_ledger b name l)"
  by (auto simp: ledgers_ok_def)

subsection \<open>The policy ladder\<close>

abbreviation reached :: "rat \<Rightarrow> ModelProviderBudgetPolicy \<Rightarrow> bool" where
  "reached worst p \<equiv> of_int (pol_AtPercent p) \<le> worst"

definition first_highest :: "rat \<Rightarrow> ModelProviderBudgetPolicy list \<Rightarrow> ModelProviderBudgetPolicy \<Rightarrow> bool" where
  "first_highest worst ps p \<longleftrightarrow>
     (\<exists>before after. ps = before @ p # after \<and> reached worst p \<and>
        (\<forall>q\<in>set before. reached worst q \<longrightarrow> pol_AtPercent q < pol_AtPercent p) \<and>
        (\<forall>q\<in>set after. reached worst q \<longrightarrow> pol_AtPercent q \<le> pol_AtPercent p))"

lemma first_highest_Cons:
  "first_highest worst (a # ps) p \<longleftrightarrow>
     p = a \<and> reached worst a \<and> (\<forall>q\<in>set ps. reached worst q \<longrightarrow> pol_AtPercent q \<le> pol_AtPercent a) \<or>
     first_highest worst ps p \<and> (reached worst a \<longrightarrow> pol_AtPercent a < pol_AtPercent p)"
  (is "?L \<longleftrightarrow> ?R")
proof
  assume ?L
  then obtain xs ys where d: "a # ps = xs @ p # ys" "reached worst p"
    "\<forall>q\<in>set xs. reached worst q \<longrightarrow> pol_AtPercent q < pol_AtPercent p"
    "\<forall>q\<in>set ys. reached worst q \<longrightarrow> pol_AtPercent q \<le> pol_AtPercent p" unfolding first_highest_def by blast
  show ?R
  proof (cases xs)
    case Nil
    then show ?thesis using d by simp
  next
    case (Cons x xs')
    then have "first_highest worst ps p" unfolding first_highest_def using d
      by (intro exI [of _ xs'] exI [of _ ys]) simp
    then show ?thesis using d Cons by simp
  qed
next
  assume ?R
  then show ?L
  proof (elim disjE conjE)
    assume "p = a" "reached worst a" "\<forall>q\<in>set ps. reached worst q \<longrightarrow> pol_AtPercent q \<le> pol_AtPercent a"
    then show ?L unfolding first_highest_def by (intro exI [of _ "[]"] exI [of _ ps]) simp
  next
    assume "first_highest worst ps p" and a: "reached worst a \<longrightarrow> pol_AtPercent a < pol_AtPercent p"
    then obtain xs ys where "ps = xs @ p # ys" "reached worst p"
      "\<forall>q\<in>set xs. reached worst q \<longrightarrow> pol_AtPercent q < pol_AtPercent p"
      "\<forall>q\<in>set ys. reached worst q \<longrightarrow> pol_AtPercent q \<le> pol_AtPercent p" unfolding first_highest_def by blast
    then show ?L unfolding first_highest_def using a by (intro exI [of _ "a # xs"] exI [of _ ys]) simp
  qed
qed

lemma first_highest_Nil [simp]: "\<not> first_highest worst [] p"
  by (simp add: first_highest_def)

lemma first_highest_reached:
  assumes "first_highest worst ps p"
  shows "p \<in> set ps" "reached worst p" "q \<in> set ps \<Longrightarrow> reached worst q \<Longrightarrow> pol_AtPercent q \<le> pol_AtPercent p"
  using assms unfolding first_highest_def by fastforce+

lemma first_highest_unique: "first_highest worst ps p \<Longrightarrow> first_highest worst ps q \<Longrightarrow> p = q"
proof (induction ps)
  case (Cons a ps)
  have tail: False if "first_highest worst ps x" "reached worst a"
    "\<forall>q\<in>set ps. reached worst q \<longrightarrow> pol_AtPercent q \<le> pol_AtPercent a" "pol_AtPercent a < pol_AtPercent x" for x
    using first_highest_reached(1,2) [OF that(1)] that(3,4) by fastforce
  from Cons.prems(1) [unfolded first_highest_Cons] Cons.prems(2) [unfolded first_highest_Cons]
  show ?case by (elim disjE conjE) (blast intro: Cons.IH dest: tail)+
qed simp

lemma winner_policy_Some:
  "winner_policy worst ps (Some w) = Some w \<and> (\<forall>q\<in>set ps. reached worst q \<longrightarrow> pol_AtPercent q \<le> pol_AtPercent w) \<or>
   (\<exists>p. winner_policy worst ps (Some w) = Some p \<and> first_highest worst ps p \<and> pol_AtPercent w < pol_AtPercent p)"
proof (induction ps arbitrary: w)
  case (Cons a ps)
  show ?case
  proof (cases "reached worst a \<and> pol_AtPercent a > pol_AtPercent w")
    case True
    then show ?thesis using Cons.IH [of a] by (auto simp: first_highest_Cons)
  next
    case False
    then show ?thesis using Cons.IH [of w] by (auto simp: first_highest_Cons)
  qed
qed simp

lemma winner_policy_None:
  "winner_policy worst ps None = None \<longleftrightarrow> (\<forall>q\<in>set ps. \<not> reached worst q)"
proof (induction ps)
  case (Cons a ps)
  then show ?case using winner_policy_Some [of worst ps a] by auto
qed simp

lemma winner_policy_first_highest: "winner_policy worst ps None = Some p \<longleftrightarrow> first_highest worst ps p"
proof -
  have "winner_policy worst ps None = Some q \<Longrightarrow> first_highest worst ps q" for q
  proof (induction ps)
    case (Cons a ps)
    then show ?case using winner_policy_Some [of worst ps a] by (auto simp: first_highest_Cons split: if_splits)
  qed simp
  moreover have "\<exists>q. winner_policy worst ps None = Some q" if "first_highest worst ps p"
    using winner_policy_None [of worst ps] first_highest_reached [OF that] by (cases "winner_policy worst ps None") auto
  ultimately show ?thesis using first_highest_unique by blast
qed

lemma Enforce_tracked:
  assumes "tracked_scheme (bud_Period (mp_Budget P))"
  shows "fst (Enforce b now P ns) =
     (if bud_Policies (mp_Budget P) = [] then no_decision
      else decide now (mp_Budget P)
        (utilizationLocked (mp_Budget P) (ledgerFor b now (mp_Name P) (bud_Period (mp_Budget P))) ns))"
  using assms by (simp add: Enforce_def Let_def)

lemma decide_action:
  "bd_Action (decide now budget u) =
     (case winner_policy (u_worst u) (bud_Policies budget) None of None \<Rightarrow> [] | Some p \<Rightarrow> pol_Action p)"
  by (simp add: decide_def no_decision_def Let_def split: option.split)

lemma decide_degrade:
  "bd_DegradeTo (decide now budget u) =
     (case winner_policy (u_worst u) (bud_Policies budget) None of None \<Rightarrow> []
      | Some p \<Rightarrow> if pol_Action p = BudgetActionDegrade then (case pol_DegradeTo p of None \<Rightarrow> [] | Some m \<Rightarrow> m) else [])"
  by (simp add: decide_def no_decision_def Let_def budget_action_defs split: option.split)

lemma decide_retry:
  "bd_Action (decide now budget u) = BudgetActionBlock \<Longrightarrow>
     bd_RetryAfter (decide now budget u) = trunc (duration_seconds (nextPeriodStart (bud_Period budget) now - now)) + 1"
  by (auto simp: decide_def no_decision_def Let_def budget_action_defs split: option.splits if_splits)

text \<open>
  Property C15. A budget check applies the policy with the highest threshold that the worse of the
  two utilizations has reached, the first such policy when several share that threshold, with its
  degrade target when it is a degrade policy; when no threshold is reached nothing is applied.
\<close>

theorem Enforce_applies_highest_reached:
  assumes "tracked_scheme (bud_Period (mp_Budget P))"
    and "w = u_worst (utilizationLocked (mp_Budget P) (ledgerFor b now (mp_Name P) (bud_Period (mp_Budget P))) ns)"
  shows "(\<forall>p. first_highest w (bud_Policies (mp_Budget P)) p \<longrightarrow>
            bd_Action (fst (Enforce b now P ns)) = pol_Action p \<and>
            bd_DegradeTo (fst (Enforce b now P ns)) =
              (if pol_Action p = BudgetActionDegrade then (case pol_DegradeTo p of None \<Rightarrow> [] | Some m \<Rightarrow> m) else [])) \<and>
         ((\<forall>q\<in>set (bud_Policies (mp_Budget P)). \<not> reached w q) \<longrightarrow> bd_Action (fst (Enforce b now P ns)) = [])"
proof -
  have "bud_Policies (mp_Budget P) \<noteq> []" if "first_highest w (bud_Policies (mp_Budget P)) p" for p
    using that by auto
  then show ?thesis
    using assms by (auto simp: Enforce_tracked decide_action decide_degrade no_decision_def
        winner_policy_None [symmetric] winner_policy_first_highest [symmetric] simp del: winner_policy.simps)
qed

theorem Enforce_applies_highest_reached_witness:
  "bd_DegradeTo (fst (Enforce (Add NewBudgetLedger 0 sample_provider ''team'' ''bot'' 85) 0 sample_provider ''team'')) = ''small''"
proof -
  let ?b = "Add NewBudgetLedger 0 sample_provider ''team'' ''bot'' 85"
  have s: "tracked_scheme (bud_Period (mp_Budget sample_provider))" by (simp add: kaalm_eval tracked_scheme_def)
  have w: "85 = u_worst (utilizationLocked (mp_Budget sample_provider)
      (ledgerFor ?b 0 (mp_Name sample_provider) (bud_Period (mp_Budget sample_provider))) ''team'')"
    by (simp add: kaalm_eval tracked_scheme_def)
  have "first_highest 85 (bud_Policies (mp_Budget sample_provider))
      \<lparr>pol_AtPercent = 80, pol_Action = BudgetActionDegrade, pol_DegradeTo = Some ''small''\<rparr>"
    by (simp add: kaalm_eval first_highest_Cons)
  then show ?thesis using Enforce_applies_highest_reached [OF s w] by fastforce
qed

subsection \<open>Retrying after a block\<close>

lemma retry_after_bound:
  assumes "now < n"
  shows "n < now + (trunc (duration_seconds (n - now)) + 1) * second_ns"
    and "now + (trunc (duration_seconds (n - now)) + 1) * second_ns \<le> n + second_ns"
proof -
  let ?f = "\<lfloor>(of_int (n - now) / 1000000000 :: rat)\<rfloor>"
  have t: "trunc (duration_seconds (n - now)) = ?f" using assms by (simp add: trunc_def duration_seconds_def)
  have "of_int ?f \<le> (of_int (n - now) / 1000000000 :: rat)" "(of_int (n - now) / 1000000000 :: rat) < of_int ?f + 1"
    by linarith+
  then have "(of_int (?f * 1000000000) :: rat) \<le> of_int (n - now)" "(of_int (n - now) :: rat) < of_int ((?f + 1) * 1000000000)"
    by (simp_all add: field_simps)
  then have "?f * 1000000000 \<le> n - now" "n - now < (?f + 1) * 1000000000" by (simp_all only: of_int_le_iff of_int_less_iff)
  then show "n < now + (trunc (duration_seconds (n - now)) + 1) * second_ns"
    and "now + (trunc (duration_seconds (n - now)) + 1) * second_ns \<le> n + second_ns"
    by (simp_all add: t second_ns_def)
qed

lemma utilization_empty:
  "pl_own l = [] \<Longrightarrow> pl_peers l = [] \<Longrightarrow> u_worst (utilizationLocked budget l ns) = 0"
  by (simp add: utilizationLocked_def spent_def clusterSpent_def stotal_def Let_def split: option.split)

lemma ledgerFor_rolled:
  assumes "mlookup (bl_providers b) name = Some l" "pl_period l \<noteq> PeriodKey scheme now"
  shows "pl_own (ledgerFor b now name scheme) = []" "pl_peers (ledgerFor b now name scheme) = []"
    "pl_ownW (ledgerFor b now name scheme) = []" "pl_peersW (ledgerFor b now name scheme) = []"
    "pl_adm (ledgerFor b now name scheme) = []"
  using assms by (simp_all add: ledgerFor_def roll_over_def)

text \<open>
  Property C22. A request that a budget check blocks, retried after the number of seconds it was told
  to wait with no other activity in between, is not acted upon: the wait reaches into the next
  period by at most one second, where the counters restart from zero.
\<close>

theorem blocked_caller_admitted_after_retry:
  assumes "tracked_scheme (bud_Period (mp_Budget P))"
    and "bd_Action (fst (Enforce b now P ns)) = BudgetActionBlock"
    and "\<forall>p\<in>set (bud_Policies (mp_Budget P)). 0 < pol_AtPercent p"
    and "t = now + bd_RetryAfter (fst (Enforce b now P ns)) * second_ns"
  shows "bd_Action (fst (Enforce (snd (Enforce b now P ns)) t P ns)) = [] \<and>
         nextPeriodStart (bud_Period (mp_Budget P)) now < t \<and>
         t \<le> nextPeriodStart (bud_Period (mp_Budget P)) now + second_ns"
proof -
  let ?s = "bud_Period (mp_Budget P)" and ?n = "nextPeriodStart (bud_Period (mp_Budget P)) now"
  have ps: "bud_Policies (mp_Budget P) \<noteq> []" using assms(1,2) by (auto simp: Enforce_tracked no_decision_def budget_action_defs)
  then have "t = now + (trunc (duration_seconds (?n - now)) + 1) * second_ns"
    using assms(1,2,4) by (simp add: Enforce_tracked decide_retry)
  with retry_after_bound [OF tracked_later [OF assms(1), of now]] have t: "?n < t" "t \<le> ?n + second_ns" by simp_all
  define b' where "b' = snd (Enforce b now P ns)"
  have b': "mlookup (bl_providers b') (mp_Name P) = Some (ledgerFor b now (mp_Name P) ?s)"
    using assms(1) ps by (simp add: b'_def Enforce_def Let_def)
  have "u_worst (utilizationLocked (mp_Budget P) (ledgerFor b' t (mp_Name P) ?s) ns) = 0"
    using ledgerFor_rolled [OF b', of ?s t] tracked_fresh [OF assms(1), of now t] t by (intro utilization_empty) auto
  then have "bd_Action (fst (Enforce b' t P ns)) = []"
    using assms(1,3) ps winner_policy_None [of 0 "bud_Policies (mp_Budget P)"]
    by (auto simp: Enforce_tracked decide_action split: option.split)
  with t show ?thesis by (simp add: b'_def)
qed

theorem blocked_caller_admitted_after_retry_witness:
  "bd_Action (fst (Enforce (snd (Enforce (Add NewBudgetLedger 0 sample_provider ''team'' ''bot'' 100) 0 sample_provider ''team''))
       (86401 * second_ns) sample_provider ''team'')) = []"
proof -
  let ?b = "Add NewBudgetLedger 0 sample_provider ''team'' ''bot'' 100"
  have d: "bd_Action (fst (Enforce ?b 0 sample_provider ''team'')) = BudgetActionBlock"
    "bd_RetryAfter (fst (Enforce ?b 0 sample_provider ''team'')) = 86401"
    by (simp_all add: kaalm_eval tracked_scheme_def nextPeriodStart_def day_number_def day_start_def duration_defs)
  show ?thesis
    by (rule blocked_caller_admitted_after_retry [THEN conjunct1])
       (simp_all only: d, simp_all add: kaalm_eval tracked_scheme_def)
qed

subsection \<open>Workload rows\<close>

lemma prefix_sums_sget:
  "wfmap m \<Longrightarrow> sget (prefix_sums pfx m acc) w = sget acc w + sget m (pfx @ w)"
proof (induction pfx m acc rule: prefix_sums.induct)
  case (2 pfx key v r acc)
  then have wf: "wfmap r" "\<not> mhas r key" by (simp_all add: wfmap_Cons)
  show ?case
  proof (cases "CutPrefix key pfx")
    case None
    then have "key \<noteq> pfx @ w" by (auto simp: CutPrefix_def)
    then show ?thesis using 2(1) [OF wf(1)] None by (simp add: sget_Cons)
  next
    case (Some k)
    then have "key = pfx @ k" by (simp add: CutPrefix_Some)
    then show ?thesis using 2(1) [OF wf(1)] Some wf(2) by (auto simp: sget_Cons sget_notin)
  qed
qed simp

lemma mhas_prefix_sums: "mhas (prefix_sums pfx m acc) w \<longleftrightarrow> mhas acc w \<or> mhas m (pfx @ w)"
proof (induction pfx m acc rule: prefix_sums.induct)
  case (2 pfx key v r acc)
  show ?case
  proof (cases "CutPrefix key pfx")
    case None
    then have "key \<noteq> pfx @ w" by (auto simp: CutPrefix_def)
    then show ?thesis using 2 None by (auto simp: mhas_Cons)
  next
    case (Some k)
    then have "key = pfx @ k" by (simp add: CutPrefix_Some)
    then show ?thesis using 2 Some by (auto simp: mhas_Cons)
  qed
qed simp

lemma wfmap_prefix_sums: "wfmap acc \<Longrightarrow> wfmap (prefix_sums pfx m acc)"
  by (induction pfx m acc rule: prefix_sums.induct) (auto split: option.split)

lemma workload_sums_lookup:
  assumes "wfmap (pl_ownW l)" "wfmap (pl_peersW l)"
  shows "mlookup (workload_sums ns l) w =
     (if mhas (pl_ownW l) (ns @ ''/'' @ w) \<or> mhas (pl_peersW l) (ns @ ''/'' @ w)
      then Some (sget (pl_ownW l) (ns @ ''/'' @ w) + sget (pl_peersW l) (ns @ ''/'' @ w)) else None)"
proof -
  let ?m = "workload_sums ns l"
  have "sget ?m w = sget (pl_ownW l) (ns @ ''/'' @ w) + sget (pl_peersW l) (ns @ ''/'' @ w)"
    using assms by (simp add: workload_sums_def prefix_sums_sget Let_def)
  moreover have "mhas ?m w \<longleftrightarrow> mhas (pl_ownW l) (ns @ ''/'' @ w) \<or> mhas (pl_peersW l) (ns @ ''/'' @ w)"
    by (auto simp: workload_sums_def mhas_prefix_sums Let_def)
  ultimately show ?thesis by (cases "mlookup ?m w") (auto simp: mhas_def mget_def)
qed

lemma WorkloadSpend_lookup:
  assumes "wfmap (bl_providers b)"
  shows "mlookup (WorkloadSpend b ns) name =
     (case mlookup (bl_providers b) name of None \<Rightarrow> None
      | Some l \<Rightarrow> if workload_sums ns l = [] then None
                  else Some \<lparr>wps_Period = pl_period l, wps_Workloads = format_spend (workload_sums ns l)\<rparr>)"
proof -
  have "wfmap ps \<Longrightarrow>
    mlookup (List.map_filter (\<lambda>(providerName, l).
          (let acc = workload_sums ns l
           in if acc = [] then None
              else Some (providerName, \<lparr>wps_Period = pl_period l, wps_Workloads = format_spend acc\<rparr>))) ps) name =
     (case mlookup ps name of None \<Rightarrow> None
      | Some l \<Rightarrow> if workload_sums ns l = [] then None
                  else Some \<lparr>wps_Period = pl_period l, wps_Workloads = format_spend (workload_sums ns l)\<rparr>)" for ps
  proof (induction ps)
    case (Cons e ps)
    obtain k l where e: "e = (k, l)" by fastforce
    have "mlookup ps k = None" "wfmap ps" using Cons.prems by (auto simp: e wfmap_Cons mhas_def)
    then show ?case using Cons.IH by (auto simp: e List.map_filter_simps Let_def split: option.splits)
  qed (simp add: List.map_filter_simps)
  from this [OF assms] show ?thesis by (simp add: WorkloadSpend_def)
qed

text \<open>
  The spend rows served for a namespace: a provider appears exactly when one of the
  namespace's workloads has a row in this replica's or the peers' counters, its period is the
  ledger's, and each workload's figure is the two counters' sum printed with two decimals.
\<close>

theorem WorkloadSpend_rows:
  assumes "wfmap (bl_providers b)" and "mlookup (bl_providers b) name = Some l"
    and "wfmap (pl_ownW l)" and "wfmap (pl_peersW l)"
  shows "(mlookup (WorkloadSpend b ns) name = None \<longleftrightarrow>
            (\<forall>w. \<not> mhas (pl_ownW l) (ns @ ''/'' @ w) \<and> \<not> mhas (pl_peersW l) (ns @ ''/'' @ w))) \<and>
         (\<forall>r. mlookup (WorkloadSpend b ns) name = Some r \<longrightarrow> wps_Period r = pl_period l \<and>
            (\<forall>w. mlookup (wps_Workloads r) w =
               (if mhas (pl_ownW l) (ns @ ''/'' @ w) \<or> mhas (pl_peersW l) (ns @ ''/'' @ w)
                then Some (FormatFloat2 (sget (pl_ownW l) (ns @ ''/'' @ w) + sget (pl_peersW l) (ns @ ''/'' @ w)))
                else None)))"
proof -
  have "workload_sums ns l = [] \<longleftrightarrow> (\<forall>w. mlookup (workload_sums ns l) w = None)"
    by (cases "workload_sums ns l") (auto simp: map_of_eq_None_iff)
  then show ?thesis
    using assms(2) by (auto simp: WorkloadSpend_lookup [OF assms(1)] workload_sums_lookup [OF assms(3,4)] split: if_splits)
qed

theorem WorkloadSpend_rows_witness:
  "mlookup (WorkloadSpend (Add (Add NewBudgetLedger 0 sample_provider ''team'' ''bot'' (5 / 4)) 1 sample_provider ''team'' ''bot'' 1) ''team'') ''main''
   \<noteq> None"
proof -
  let ?b = "Add (Add NewBudgetLedger 0 sample_provider ''team'' ''bot'' (5 / 4)) 1 sample_provider ''team'' ''bot'' 1"
  have k: "PeriodKey ''daily'' 1 = PeriodKey ''daily'' 0" by (simp add: PeriodKey_def day_number_def duration_defs)
  obtain l where l: "mlookup (bl_providers ?b) ''main'' = Some l" "pl_ownW l = [(''team/bot'', 9 / 4)]" "pl_peersW l = []"
    by (simp add: kaalm_eval tracked_scheme_def k)
  have b: "wfmap (bl_providers ?b)" by (simp add: kaalm_eval tracked_scheme_def wfmap_def k)
  have "mhas (pl_ownW l) (''team'' @ ''/'' @ ''bot'')" by (simp add: l mhas_def)
  then show ?thesis
    using WorkloadSpend_rows [OF b l(1), of "''team''"] l by (auto simp: wfmap_def)
qed

subsection \<open>Publishing\<close>

lemma Add_lookup:
  assumes "tracked_scheme (bud_Period (mp_Budget P))" "c \<noteq> 0"
  shows "mlookup (bl_providers (Add b now P ns w c)) (mp_Name P) =
     Some (record_cost now ns w c (ledgerFor b now (mp_Name P) (bud_Period (mp_Budget P))))"
  using assms by (simp add: Add_def Let_def)

lemma dirty_record_cost:
  "pl_dirtySince (record_cost now ns w c l) = (case pl_dirtySince l of None \<Rightarrow> Some now | Some d \<Rightarrow> Some d)"
  by (auto simp: record_cost_def Let_def split: option.split)

text \<open>
  The unpublished-spend mark keeps the oldest unpublished settlement only: when spend
  lands before a snapshot and more lands after it, marking the snapshot published clears the mark
  although the later spend has not been published.
\<close>

theorem MarkPublished_clears_newer_spend:
  assumes "tracked_scheme (bud_Period (mp_Budget P))" and "c \<noteq> 0" and "c' \<noteq> 0"
    and "mlookup (bl_providers b) (mp_Name P) = None"
    and "t1 \<le> snapshot" and "snapshot < t2"
    and "PeriodKey (bud_Period (mp_Budget P)) t2 = PeriodKey (bud_Period (mp_Budget P)) t1"
  shows "\<exists>l. mlookup (bl_providers (MarkPublished (Add (Add b t1 P ns w c) t2 P ns' w' c') (mp_Name P) snapshot)) (mp_Name P) = Some l
             \<and> pl_dirtySince l = None \<and> sget (pl_own l) ns' = (if ns' = ns then c else 0) + c'"
proof -
  let ?s = "bud_Period (mp_Budget P)"
  define l1 where "l1 = record_cost t1 ns w c (new_ledger (PeriodKey ?s t1))"
  have b1: "mlookup (bl_providers (Add b t1 P ns w c)) (mp_Name P) = Some l1"
    using assms(1,2,4) by (simp add: Add_lookup l1_def ledgerFor_def)
  have l2: "ledgerFor (Add b t1 P ns w c) t2 (mp_Name P) ?s = l1"
    using assms(7) by (intro ledgerFor_same_period [OF b1]) (simp add: l1_def new_ledger_def)
  have "mlookup (bl_providers (Add (Add b t1 P ns w c) t2 P ns' w' c')) (mp_Name P) = Some (record_cost t2 ns' w' c' l1)"
    using assms(1,3) by (simp add: Add_lookup l2)
  moreover have "pl_dirtySince l1 = Some t1" by (simp add: l1_def dirty_record_cost new_ledger_def)
  moreover have "sget (pl_own l1) ns' = (if ns' = ns then c else 0)" by (simp add: l1_def new_ledger_def)
  ultimately show ?thesis using assms(5) by (simp add: MarkPublished_def dirty_record_cost)
qed

theorem MarkPublished_clears_newer_spend_witness:
  "\<exists>l. mlookup (bl_providers (MarkPublished (Add (Add NewBudgetLedger 0 sample_provider ''team'' ''bot'' 1) 2 sample_provider ''team'' ''bot'' 7)
          ''main'' 1)) ''main'' = Some l \<and> pl_dirtySince l = None \<and> sget (pl_own l) ''team'' = 8"
  using MarkPublished_clears_newer_spend [of sample_provider 1 7 NewBudgetLedger 0 1 2 "''team''" "''bot''" "''team''" "''bot''"]
  by (simp add: sample_provider_def sample_budget_def tracked_scheme_def NewBudgetLedger_def PeriodKey_def day_number_def duration_defs)

end
