(* ===== verification/Budget_Hard.thy ===== *)
theory Budget_Hard
  imports Budget_Ledger
begin

text \<open>
  Hard budget enforcement (\<^verbatim>\<open>internal/gateway/budget_hard.go\<close>): the boundary region below a
  block threshold, serialized admission inside it, and settlement. The closure \<^verbatim>\<open>Admit\<close> hands
  out is the record \<open>settleHandle\<close> of what it captured; that \<^verbatim>\<open>sync.Once\<close> runs it at most
  once is part of the request that holds it.
\<close>

subsection \<open>Hard enforcement\<close>

definition hardActive :: "ModelProvider \<Rightarrow> bool" where
  "hardActive provider =
     (if bud_Enforcement (mp_Budget provider) \<noteq> BudgetEnforcementHard then False
      else list_ex (\<lambda>p. pol_Action p = BudgetActionBlock) (bud_Policies (mp_Budget provider)))"

fun min_block_at :: "ModelProviderBudgetPolicy list \<Rightarrow> rat \<Rightarrow> rat" where
  "min_block_at [] lowest = lowest"
| "min_block_at (p # ps) lowest =
     min_block_at ps
       (if pol_Action p = BudgetActionBlock \<and> of_int (pol_AtPercent p) < lowest then of_int (pol_AtPercent p) else lowest)"

definition minBlockAt :: "ModelProviderBudget \<Rightarrow> rat" where
  "minBlockAt budget = min_block_at (bud_Policies budget) 101"

definition configuredMarginPercent :: "ModelProviderBudget \<Rightarrow> rat" where
  "configuredMarginPercent budget =
     (case bud_Hard budget of None \<Rightarrow> 5 | Some h \<Rightarrow> of_int (hard_BoundaryMarginPercent h))"

definition replicasCount :: "BudgetLedger \<Rightarrow> int" where
  "replicasCount b = (case bl_replicas b of None \<Rightarrow> 1 | Some r \<Rightarrow> if r > 1 then r else 1)"

definition effectiveMarginPctLocked :: "BudgetLedger \<Rightarrow> providerLedger \<Rightarrow> rat \<Rightarrow> rat \<Rightarrow> rat" where
  "effectiveMarginPctLocked b l ceilingUSD configured =
     (if ceilingUSD \<le> 0 then configured
      else
        (let reps = of_int (replicasCount b);
             marginUSD = reps * pl_maxCostPerCall l
                       + (reps - 1) * pl_peakRatePerSec l * duration_seconds (bl_stalenessWindow b);
             pct = 100 * marginUSD / ceilingUSD
         in if pct > configured then pct else configured))"

record settleHandle =
  sh_providerName :: string
  sh_scheme :: string
  sh_capturedPeriod :: string
  sh_namespace :: string
  sh_workload :: string
  sh_keys :: "string list"
  sh_token :: "64 word"

definition stale_view :: "BudgetLedger \<Rightarrow> instant \<Rightarrow> providerLedger \<Rightarrow> bool" where
  "stale_view b now l =
     ((case pl_dirtySince l of None \<Rightarrow> False | Some d \<Rightarrow> now - d > bl_stalenessWindow b) \<or>
      (case pl_lastFoldOK l of None \<Rightarrow> True | Some f \<Rightarrow> now - f > bl_stalenessWindow b))"

text \<open>Whether the request is inside the namespace's and the cluster's boundary region, and whether a
  region it is inside was widened beyond the configured margin.\<close>

definition boundary :: "BudgetLedger \<Rightarrow> ModelProviderBudget \<Rightarrow> providerLedger \<Rightarrow> utilization \<Rightarrow> bool \<times> bool \<times> bool" where
  "boundary b budget l u =
     (let blockAt = minBlockAt budget;
          configured = configuredMarginPercent budget;
          effNS = effectiveMarginPctLocked b l (u_nsUSD u) configured;
          effCL = effectiveMarginPctLocked b l (u_clUSD u) configured;
          inBoundaryNS = (u_nsUSD u > 0 \<and> u_nsPct u \<ge> blockAt - effNS);
          inBoundaryCL = (u_clUSD u > 0 \<and> u_clPct u \<ge> blockAt - effCL)
      in (inBoundaryNS, inBoundaryCL, (inBoundaryNS \<and> effNS > configured) \<or> (inBoundaryCL \<and> effCL > configured)))"

definition grant_slots ::
  "ModelProvider \<Rightarrow> string \<Rightarrow> string \<Rightarrow> bool \<Rightarrow> bool \<Rightarrow> bool \<Rightarrow> budgetDecision \<Rightarrow> providerLedger \<Rightarrow>
   budgetDecision \<times> settleHandle \<times> providerLedger" where
  "grant_slots provider namespace workload inBoundaryNS inBoundaryCL widened d l =
     (let raise = widened \<and> \<not> pl_marginRaised l;
          d = (if raise then d\<lparr>bd_MarginRaisedNow := True\<rparr> else d);
          l = (if raise then l\<lparr>pl_marginRaised := True\<rparr> else l);
          token = pl_nextToken l + 1;
          l = l\<lparr>pl_nextToken := token\<rparr>;
          l = (if inBoundaryNS then l\<lparr>pl_adm := mput namespace token (pl_adm l)\<rparr> else l);
          l = (if inBoundaryCL then l\<lparr>pl_adm := mput clusterSlotKey token (pl_adm l)\<rparr> else l);
          keys = (if inBoundaryNS then [namespace] else []) @ (if inBoundaryCL then [clusterSlotKey] else [])
      in (d\<lparr>bd_BoundaryEngaged := True\<rparr>,
          \<lparr>sh_providerName = mp_Name provider, sh_scheme = bud_Period (mp_Budget provider),
           sh_capturedPeriod = pl_period l, sh_namespace = namespace,
           sh_workload = workload, sh_keys = keys, sh_token = token\<rparr>,
          l))"

definition Admit ::
  "BudgetLedger \<Rightarrow> instant \<Rightarrow> ModelProvider \<Rightarrow> string \<Rightarrow> string \<Rightarrow>
   budgetDecision \<times> settleHandle option \<times> BudgetLedger" where
  "Admit b now provider namespace workload =
     (let budget = mp_Budget provider; scheme = bud_Period budget
      in if PeriodKey scheme now = [] \<or> bud_Policies budget = [] then (no_decision, None, b)
         else
           (let l = ledgerFor b now (mp_Name provider) scheme;
                b' = put_ledger b (mp_Name provider) l;
                u = utilizationLocked budget l namespace;
                d = decide now budget u
            in if \<not> hardActive provider \<or> bd_Action d = BudgetActionBlock then (d, None, b')
               else if mhas (pl_adm l) namespace then (d\<lparr>bd_Throttled := True\<rparr>, None, b')
               else if mhas (pl_adm l) clusterSlotKey \<and> u_clUSD u > 0 then (d\<lparr>bd_Throttled := True\<rparr>, None, b')
               else
                 (case boundary b budget l u of
                    (inBoundaryNS, inBoundaryCL, widened) \<Rightarrow>
                      if \<not> inBoundaryNS \<and> \<not> inBoundaryCL then (d, None, b')
                      else if stale_view b now l then (d\<lparr>bd_Unavailable := True\<rparr>, None, b')
                      else
                        (case grant_slots provider namespace workload inBoundaryNS inBoundaryCL widened d l of
                           (d, h, l) \<Rightarrow> (d, Some h, put_ledger b (mp_Name provider) l)))))"

fun free_slots :: "64 word \<Rightarrow> string list \<Rightarrow> 64 word gomap \<Rightarrow> 64 word gomap" where
  "free_slots token [] adm = adm"
| "free_slots token (k # ks) adm = free_slots token ks (if mget 0 adm k = token then mdel k adm else adm)"

definition settle :: "BudgetLedger \<Rightarrow> instant \<Rightarrow> settleHandle \<Rightarrow> rat \<Rightarrow> BudgetLedger" where
  "settle b now h costUSD =
     (let l = ledgerFor b now (sh_providerName h) (sh_scheme h);
          l = (if pl_period l = sh_capturedPeriod h
               then l\<lparr>pl_adm := free_slots (sh_token h) (sh_keys h) (pl_adm l)\<rparr> else l);
          dirty = (costUSD \<noteq> 0);
          l = (if dirty then record_cost now (sh_namespace h) (sh_workload h) costUSD l else l);
          b = put_ledger b (sh_providerName h) l
      in if dirty \<and> length (bl_kick b) < kickCapacity
         then b\<lparr>bl_kick := bl_kick b @ [sh_providerName h]\<rparr> else b)"

lemmas [kaalm_eval] = hardActive_def minBlockAt_def configuredMarginPercent_def replicasCount_def
  effectiveMarginPctLocked_def stale_view_def boundary_def grant_slots_def Admit_def settle_def

subsection \<open>Requests in flight\<close>

text \<open>
  The ledger together with the boundary requests that have been admitted and not yet settled. An
  operation happens at a clock reading; a handle is settled once (\<^verbatim>\<open>sync.Once\<close>): settling one that
  is no longer in flight does nothing.
\<close>

datatype ledger_op =
    OpAdmit ModelProvider string string
  | OpSettle settleHandle rat
  | OpAdd ModelProvider string string rat
  | OpEnforce ModelProvider string
  | OpFoldPeers ModelProvider "rat gomap"
  | OpFoldWorkloadPeers ModelProvider "rat gomap"
  | OpMarkPublished string instant
  | OpDrainKick
  | OpSetReplicas "int option"

record admState =
  as_ledger :: BudgetLedger
  as_inflight :: "settleHandle list"
  as_now :: instant

fun apply_op :: "instant \<Rightarrow> ledger_op \<Rightarrow> admState \<Rightarrow> admState" where
  "apply_op now (OpAdmit P ns w) s =
     (case Admit (as_ledger s) now P ns w of
        (_, None, b) \<Rightarrow> s\<lparr>as_ledger := b, as_now := now\<rparr>
      | (_, Some h, b) \<Rightarrow> s\<lparr>as_ledger := b, as_inflight := h # as_inflight s, as_now := now\<rparr>)"
| "apply_op now (OpSettle h c) s =
     (if h \<in> set (as_inflight s)
      then s\<lparr>as_ledger := settle (as_ledger s) now h c, as_inflight := remove1 h (as_inflight s), as_now := now\<rparr>
      else s\<lparr>as_now := now\<rparr>)"
| "apply_op now (OpAdd P ns w c) s = s\<lparr>as_ledger := Add (as_ledger s) now P ns w c, as_now := now\<rparr>"
| "apply_op now (OpEnforce P ns) s = s\<lparr>as_ledger := snd (Enforce (as_ledger s) now P ns), as_now := now\<rparr>"
| "apply_op now (OpFoldPeers P m) s = s\<lparr>as_ledger := FoldPeers (as_ledger s) now P m, as_now := now\<rparr>"
| "apply_op now (OpFoldWorkloadPeers P m) s = s\<lparr>as_ledger := FoldWorkloadPeers (as_ledger s) now P m, as_now := now\<rparr>"
| "apply_op now (OpMarkPublished name snapshot) s = s\<lparr>as_ledger := MarkPublished (as_ledger s) name snapshot, as_now := now\<rparr>"
| "apply_op now OpDrainKick s = s\<lparr>as_ledger := (as_ledger s)\<lparr>bl_kick := tl (bl_kick (as_ledger s))\<rparr>, as_now := now\<rparr>"
| "apply_op now (OpSetReplicas f) s = s\<lparr>as_ledger := SetReplicas f (as_ledger s), as_now := now\<rparr>"

text \<open>Namespaces are Kubernetes names: not empty and without a slash. The accounting scheme of a
  provider does not change during a run; everything else in its spec may.\<close>

definition namespace_name :: "string \<Rightarrow> bool" where
  "namespace_name ns = (ns \<noteq> [] \<and> CHR ''/'' \<notin> set ns)"

fun op_ok :: "(string \<Rightarrow> string) \<Rightarrow> ledger_op \<Rightarrow> bool" where
  "op_ok scheme (OpAdmit P ns w) = (bud_Period (mp_Budget P) = scheme (mp_Name P) \<and> namespace_name ns)"
| "op_ok scheme (OpAdd P ns w c) = (bud_Period (mp_Budget P) = scheme (mp_Name P) \<and> namespace_name ns)"
| "op_ok scheme (OpEnforce P ns) = (bud_Period (mp_Budget P) = scheme (mp_Name P))"
| "op_ok scheme (OpFoldPeers P m) = (bud_Period (mp_Budget P) = scheme (mp_Name P))"
| "op_ok scheme (OpFoldWorkloadPeers P m) = (bud_Period (mp_Budget P) = scheme (mp_Name P))"
| "op_ok scheme _ = True"

inductive ledger_reach :: "(string \<Rightarrow> string) \<Rightarrow> nat \<Rightarrow> admState \<Rightarrow> bool" for scheme where
  start: "ledger_reach scheme 0 \<lparr>as_ledger = NewBudgetLedger, as_inflight = [], as_now = t\<rparr>"
| step: "ledger_reach scheme n s \<Longrightarrow> as_now s \<le> now \<Longrightarrow> op_ok scheme op \<Longrightarrow>
         ledger_reach scheme (Suc n) (apply_op now op s)"

subsection \<open>Admission, seen from the slots\<close>

type_synonym slots = "string \<times> 64 word gomap \<times> 64 word"

definition slots_of :: "providerLedger \<Rightarrow> slots" where
  "slots_of l = (pl_period l, pl_adm l, pl_nextToken l)"

definition slot_view :: "BudgetLedger \<Rightarrow> string \<Rightarrow> slots option" where
  "slot_view b name = map_option slots_of (mlookup (bl_providers b) name)"

fun roll_slots :: "string \<Rightarrow> slots option \<Rightarrow> slots" where
  "roll_slots p None = (p, [], 0)"
| "roll_slots p (Some (q, adm, n)) = (if q \<noteq> p then (p, [], n) else (q, adm, n))"

lemma slots_of_ledgerFor: "slots_of (ledgerFor b now name sch) = roll_slots (PeriodKey sch now) (slot_view b name)"
  by (simp add: ledgerFor_def slot_view_def slots_of_def roll_over_def new_ledger_def Let_def split: option.split)

lemma slot_view_put: "slot_view (put_ledger b name l) = (slot_view b)(name := Some (slots_of l))"
  by (auto simp: slot_view_def fun_eq_iff)

lemma slot_view_cong: "bl_providers b = bl_providers b' \<Longrightarrow> slot_view b = slot_view b'"
  by (simp add: slot_view_def fun_eq_iff)

lemma slots_of_record_cost [simp]: "slots_of (record_cost now ns w c l) = slots_of l"
  by (simp add: slots_of_def)

abbreviation rolled :: "BudgetLedger \<Rightarrow> instant \<Rightarrow> string \<Rightarrow> string \<Rightarrow> string \<Rightarrow> slots option" where
  "rolled b now name sch \<equiv> (slot_view b)(name := Some (roll_slots (PeriodKey sch now) (slot_view b name)))"

lemma slot_view_Add:
  "slot_view (Add b now P ns w c) \<in> {slot_view b, rolled b now (mp_Name P) (bud_Period (mp_Budget P))}"
  by (simp add: Add_def Let_def slot_view_put slots_of_ledgerFor)

lemma slot_view_Enforce:
  "slot_view (snd (Enforce b now P ns)) \<in> {slot_view b, rolled b now (mp_Name P) (bud_Period (mp_Budget P))}"
  by (simp add: Enforce_def Let_def slot_view_put slots_of_ledgerFor)

lemma slot_view_FoldPeers: "slot_view (FoldPeers b now P m) \<in> {slot_view b, rolled b now (mp_Name P) (bud_Period (mp_Budget P))}"
  using slots_of_ledgerFor [of b now "mp_Name P" "bud_Period (mp_Budget P)"]
  by (simp add: FoldPeers_def slot_view_put) (simp add: slots_of_def)

lemma slot_view_FoldWorkloadPeers:
  "slot_view (FoldWorkloadPeers b now P m) \<in> {slot_view b, rolled b now (mp_Name P) (bud_Period (mp_Budget P))}"
  using slots_of_ledgerFor [of b now "mp_Name P" "bud_Period (mp_Budget P)"]
  by (simp add: FoldWorkloadPeers_def slot_view_put) (simp add: slots_of_def)

lemma slot_view_MarkPublished: "slot_view (MarkPublished b name t) = slot_view b"
  by (auto simp: MarkPublished_def slot_view_put slot_view_def slots_of_def fun_eq_iff split: option.split)

lemma Admit_None:
  assumes "Admit b now P ns w = (d, None, b')"
  shows "b' \<in> {b, put_ledger b (mp_Name P) (ledgerFor b now (mp_Name P) (bud_Period (mp_Budget P)))}"
  using assms by (simp add: Admit_def Let_def split: if_splits prod.splits)

lemma slot_view_Admit_None:
  assumes "Admit b now P ns w = (d, None, b')"
  shows "slot_view b' \<in> {slot_view b, rolled b now (mp_Name P) (bud_Period (mp_Budget P))}"
  using Admit_None [OF assms] by (auto simp: slot_view_put slots_of_ledgerFor)

lemma grant_slots_effect:
  assumes "grant_slots P ns w inNS inCL widened d0 l = (d, h, l')"
  shows "pl_own l' = pl_own l" "pl_peers l' = pl_peers l" "pl_ownW l' = pl_ownW l" "pl_period l' = pl_period l"
    "pl_nextToken l' = pl_nextToken l + 1" "sh_token h = pl_nextToken l + 1"
    "mlookup (pl_adm l') k = (if k \<in> set (sh_keys h) then Some (pl_nextToken l + 1) else mlookup (pl_adm l) k)"
    "sh_providerName h = mp_Name P" "sh_scheme h = bud_Period (mp_Budget P)" "sh_capturedPeriod h = pl_period l"
    "sh_namespace h = ns" "set (sh_keys h) = (if inNS then {ns} else {}) \<union> (if inCL then {clusterSlotKey} else {})"
    "bd_Action d = bd_Action d0" "bd_BoundaryEngaged d"
  using assms by (auto simp: grant_slots_def Let_def)

lemma grant_slots_throttled: "bd_Throttled (fst (grant_slots P ns w inNS inCL widened d0 l)) = bd_Throttled d0"
  by (simp add: grant_slots_def Let_def)

lemma boundary_cluster: "boundary b budget l u = (inNS, inCL, widened) \<Longrightarrow> inCL \<Longrightarrow> 0 < u_clUSD u"
  by (auto simp: boundary_def Let_def)

lemma Admit_Some:
  fixes P ns b now
  defines "l \<equiv> ledgerFor b now (mp_Name P) (bud_Period (mp_Budget P))"
  defines "u \<equiv> utilizationLocked (mp_Budget P) l ns"
  assumes "Admit b now P ns w = (d, Some h, b')"
  obtains inNS inCL widened l' where "boundary b (mp_Budget P) l u = (inNS, inCL, widened)" "inNS \<or> inCL"
    "grant_slots P ns w inNS inCL widened (decide now (mp_Budget P) u) l = (d, h, l')"
    "b' = put_ledger b (mp_Name P) l'" "hardActive P" "bd_Action (decide now (mp_Budget P) u) \<noteq> BudgetActionBlock"
    "mlookup (pl_adm l) ns = None" "mlookup (pl_adm l) clusterSlotKey = None \<or> \<not> u_clUSD u > 0"
    "\<not> stale_view b now l"
    "\<forall>k\<in>set (sh_keys h). mlookup (pl_adm l) k = None"
proof -
  obtain inNS inCL widened where bd: "boundary b (mp_Budget P) l u = (inNS, inCL, widened)" by (metis prod_cases3)
  obtain d1 h1 l1 where g: "grant_slots P ns w inNS inCL widened (decide now (mp_Budget P) u) l = (d1, h1, l1)"
    by (metis prod_cases3)
  have c: "\<not> (\<not> hardActive P \<or> bd_Action (decide now (mp_Budget P) u) = BudgetActionBlock)"
    "\<not> mhas (pl_adm l) ns" "\<not> (mhas (pl_adm l) clusterSlotKey \<and> 0 < u_clUSD u)" "inNS \<or> inCL" "\<not> stale_view b now l"
    "d1 = d" "h1 = h" "b' = put_ledger b (mp_Name P) l1"
    using assms(3) unfolding Admit_def Let_def l_def [symmetric] u_def [symmetric] bd
    by (simp_all add: g split: if_splits)
  have "\<forall>k\<in>set (sh_keys h). mlookup (pl_adm l) k = None"
    using grant_slots_effect(12) [OF g] c(2,3,7) boundary_cluster [OF bd] by (auto simp: mhas_def split: if_splits)
  then show ?thesis using c by (intro that [OF bd _ g [unfolded c(6,7)]]) (simp_all add: mhas_def)
qed

lemma free_slots_lookup:
  "mlookup (free_slots t ks adm) k = (if k \<in> set ks \<and> mlookup adm k = Some t then None else mlookup adm k)"
  by (induction t ks adm rule: free_slots.induct) (auto simp: mget_def split: option.splits)

lemma settle_ledger:
  "bl_providers (settle b now h c) =
     bl_providers (put_ledger b (sh_providerName h)
       (let l = ledgerFor b now (sh_providerName h) (sh_scheme h);
            l = (if pl_period l = sh_capturedPeriod h
                 then l\<lparr>pl_adm := free_slots (sh_token h) (sh_keys h) (pl_adm l)\<rparr> else l)
        in if c \<noteq> 0 then record_cost now (sh_namespace h) (sh_workload h) c l else l))"
  by (simp add: settle_def Let_def)

lemma slot_view_settle:
  fixes h
  defines "r \<equiv> \<lambda>b now. roll_slots (PeriodKey (sh_scheme h) now) (slot_view b (sh_providerName h))"
  shows "slot_view (settle b now h c) = (slot_view b)(sh_providerName h := Some (fst (r b now),
     if fst (r b now) = sh_capturedPeriod h then free_slots (sh_token h) (sh_keys h) (fst (snd (r b now))) else fst (snd (r b now)),
     snd (snd (r b now))))"
proof -
  have r: "r b now = slots_of (ledgerFor b now (sh_providerName h) (sh_scheme h))" by (simp add: r_def slots_of_ledgerFor)
  have "slot_view (settle b now h c) = slot_view (put_ledger b (sh_providerName h)
       (let l = ledgerFor b now (sh_providerName h) (sh_scheme h);
            l = (if pl_period l = sh_capturedPeriod h
                 then l\<lparr>pl_adm := free_slots (sh_token h) (sh_keys h) (pl_adm l)\<rparr> else l)
        in if c \<noteq> 0 then record_cost now (sh_namespace h) (sh_workload h) c l else l))"
    by (simp add: slot_view_def settle_ledger fun_eq_iff)
  also have "\<dots> = (slot_view b)(sh_providerName h := Some (slots_of (let l = ledgerFor b now (sh_providerName h) (sh_scheme h) in
        if pl_period l = sh_capturedPeriod h
                 then l\<lparr>pl_adm := free_slots (sh_token h) (sh_keys h) (pl_adm l)\<rparr> else l)))"
    by (simp add: slot_view_put Let_def)
  finally show ?thesis unfolding r by (simp add: slots_of_def Let_def)
qed

subsection \<open>The slot invariant\<close>

text \<open>Every occupied slot belongs to a request in flight; a request in flight admitted in the ledger's
  period occupies all its slots; tokens are not reused.\<close>

definition slot_backed :: "settleHandle list \<Rightarrow> string \<Rightarrow> slots \<Rightarrow> bool" where
  "slot_backed infl name = (\<lambda>(p, adm, tok). \<forall>k t. mlookup adm k = Some t \<longrightarrow>
     (\<exists>h\<in>set infl. sh_providerName h = name \<and> sh_token h = t \<and> k \<in> set (sh_keys h) \<and> sh_capturedPeriod h = p))"

definition handle_live :: "(string \<Rightarrow> string) \<Rightarrow> (string \<Rightarrow> slots option) \<Rightarrow> instant \<Rightarrow> settleHandle \<Rightarrow> bool" where
  "handle_live scheme sv now h \<longleftrightarrow>
     (\<exists>p adm tok t u. sv (sh_providerName h) = Some (p, adm, tok) \<and> unat (sh_token h) \<le> unat tok \<and>
        sh_scheme h = scheme (sh_providerName h) \<and> t \<le> u \<and> u \<le> now \<and>
        sh_capturedPeriod h = PeriodKey (sh_scheme h) t \<and> p = PeriodKey (sh_scheme h) u \<and>
        (sh_capturedPeriod h = p \<longrightarrow> (\<forall>k\<in>set (sh_keys h). mlookup adm k = Some (sh_token h))))"

definition exclusive :: "settleHandle list \<Rightarrow> bool" where
  "exclusive infl \<longleftrightarrow> (\<forall>h\<in>set infl. \<forall>h'\<in>set infl.
     sh_providerName h = sh_providerName h' \<and> sh_capturedPeriod h = sh_capturedPeriod h' \<and>
     set (sh_keys h) \<inter> set (sh_keys h') \<noteq> {} \<longrightarrow> h = h')"

definition slots_inv ::
  "(string \<Rightarrow> string) \<Rightarrow> nat \<Rightarrow> (string \<Rightarrow> slots option) \<Rightarrow> settleHandle list \<Rightarrow> instant \<Rightarrow> bool" where
  "slots_inv scheme n sv infl now \<longleftrightarrow>
     (\<forall>name x. sv name = Some x \<longrightarrow> unat (snd (snd x)) \<le> n \<and> slot_backed infl name x) \<and>
     (\<forall>h\<in>set infl. handle_live scheme sv now h) \<and>
     distinct (map (\<lambda>h. (sh_providerName h, sh_token h)) infl) \<and> exclusive infl"

lemma handle_liveI:
  assumes "sv (sh_providerName h) = Some (p, adm, tok)" "unat (sh_token h) \<le> unat tok"
    "sh_scheme h = scheme (sh_providerName h)" "t \<le> u" "u \<le> now"
    "sh_capturedPeriod h = PeriodKey (sh_scheme h) t" "p = PeriodKey (sh_scheme h) u"
    "sh_capturedPeriod h = p \<Longrightarrow> (\<forall>k\<in>set (sh_keys h). mlookup adm k = Some (sh_token h))"
  shows "handle_live scheme sv now h"
  unfolding handle_live_def using assms by blast

lemma handle_liveE:
  assumes "handle_live scheme sv now h"
  obtains p adm tok t u where "sv (sh_providerName h) = Some (p, adm, tok)" "unat (sh_token h) \<le> unat tok"
    "sh_scheme h = scheme (sh_providerName h)" "t \<le> u" "u \<le> now"
    "sh_capturedPeriod h = PeriodKey (sh_scheme h) t" "p = PeriodKey (sh_scheme h) u"
    "sh_capturedPeriod h = p \<Longrightarrow> (\<forall>k\<in>set (sh_keys h). mlookup adm k = Some (sh_token h))"
  using assms unfolding handle_live_def by blast

lemma handle_live_later:
  assumes "handle_live scheme sv now h" "now \<le> now'"
  shows "handle_live scheme sv now' h"
  using assms(1) by (rule handle_liveE) (rule handle_liveI, (assumption | use assms(2) in linarith)+)

lemma slots_inv_later:
  assumes "slots_inv scheme n sv infl now" "now \<le> now'" "n \<le> n'"
  shows "slots_inv scheme n' sv infl now'"
  using assms handle_live_later [OF _ assms(2)] unfolding slots_inv_def by (meson order_trans)

lemma handle_live_roll:
  assumes "handle_live scheme sv now h" "now \<le> now'"
  shows "handle_live scheme (sv(name := Some (roll_slots (PeriodKey (scheme name) now') (sv name)))) now' h"
proof (cases "sh_providerName h = name")
  case True
  from assms(1) obtain p adm tok t u where h: "sv name = Some (p, adm, tok)" "unat (sh_token h) \<le> unat tok"
    "sh_scheme h = scheme name" "t \<le> u" "u \<le> now" "sh_capturedPeriod h = PeriodKey (scheme name) t"
    "p = PeriodKey (scheme name) u" "sh_capturedPeriod h = p \<Longrightarrow> (\<forall>k\<in>set (sh_keys h). mlookup adm k = Some (sh_token h))"
    by (rule handle_liveE) (simp add: True)
  show ?thesis
  proof (cases "p = PeriodKey (scheme name) now'")
    case same: True
    then have "roll_slots (PeriodKey (scheme name) now') (sv name) = (p, adm, tok)" by (simp add: h(1))
    then show ?thesis using True h assms(2) by (intro handle_liveI [where t = t and u = u]) simp_all
  next
    case False
    then have "sh_capturedPeriod h \<noteq> PeriodKey (scheme name) now'"
      using PeriodKey_never_returns [of t u now' "scheme name"] h assms(2) by auto
    moreover have "roll_slots (PeriodKey (scheme name) now') (sv name) = (PeriodKey (scheme name) now', [], tok)"
      using False by (simp add: h(1))
    ultimately show ?thesis using True h assms(2) by (intro handle_liveI [where t = t and u = now']) auto
  qed
next
  case False
  then show ?thesis using handle_live_later [OF assms] by (simp add: handle_live_def)
qed

lemma slots_inv_providerD:
  "slots_inv scheme n sv infl now \<Longrightarrow> sv name = Some x \<Longrightarrow> unat (snd (snd x)) \<le> n \<and> slot_backed infl name x"
  unfolding slots_inv_def by blast

lemma slots_inv_roll:
  assumes "slots_inv scheme n sv infl now" "now \<le> now'"
  shows "slots_inv scheme n (sv(name := Some (roll_slots (PeriodKey (scheme name) now') (sv name)))) infl now'"
proof -
  have r: "unat (snd (snd (roll_slots p (sv name)))) \<le> n \<and> slot_backed infl name (roll_slots p (sv name))" for p
  proof (cases "sv name")
    case None
    then show ?thesis by (simp add: slot_backed_def)
  next
    case (Some x)
    obtain q adm tok where "x = (q, adm, tok)" by (metis prod_cases3)
    then show ?thesis using slots_inv_providerD [OF assms(1) Some] by (auto simp: Some slot_backed_def)
  qed
  then show ?thesis using assms(1) handle_live_roll [OF _ assms(2)] unfolding slots_inv_def by (simp del: split_paired_All)
qed

lemma slots_inv_choice:
  assumes "slots_inv scheme n (slot_view b) infl now" "now \<le> now'" "bud_Period (mp_Budget P) = scheme (mp_Name P)"
    and "slot_view b' \<in> {slot_view b, rolled b now' (mp_Name P) (bud_Period (mp_Budget P))}"
  shows "slots_inv scheme (Suc n) (slot_view b') infl now'"
  using slots_inv_later [OF assms(1,2), of "Suc n"] assms(3,4)
    slots_inv_later [OF slots_inv_roll [OF assms(1,2), of "mp_Name P"], of now' "Suc n"] by auto

lemma handle_live_update:
  assumes live: "handle_live scheme sv now h" and sv: "sv name = Some (p, adm, tok)" and tok: "unat tok \<le> unat tok'"
    and held: "sh_providerName h = name \<Longrightarrow> \<forall>k\<in>set (sh_keys h). mlookup adm k = Some (sh_token h) \<Longrightarrow>
               \<forall>k\<in>set (sh_keys h). mlookup adm' k = Some (sh_token h)"
  shows "handle_live scheme (sv(name := Some (p, adm', tok'))) now h"
  using live
proof (rule handle_liveE)
  fix q adm0 tok0 t u
  assume l: "sv (sh_providerName h) = Some (q, adm0, tok0)" "unat (sh_token h) \<le> unat tok0"
    "sh_scheme h = scheme (sh_providerName h)" "t \<le> u" "u \<le> now" "sh_capturedPeriod h = PeriodKey (sh_scheme h) t"
    "q = PeriodKey (sh_scheme h) u"
    and k: "sh_capturedPeriod h = q \<Longrightarrow> \<forall>k\<in>set (sh_keys h). mlookup adm0 k = Some (sh_token h)"
  show ?thesis
  proof (cases "sh_providerName h = name")
    case True
    then have e: "q = p" "adm0 = adm" "tok0 = tok" using l(1) sv by simp_all
    have le: "unat (sh_token h) \<le> unat tok'" using l(2) tok e by simp
    show ?thesis
    proof (rule handle_liveI [where p = p and adm = adm' and tok = tok' and t = t and u = u])
      show "(sv(name := Some (p, adm', tok'))) (sh_providerName h) = Some (p, adm', tok')" using True by simp
      show "\<forall>k\<in>set (sh_keys h). mlookup adm' k = Some (sh_token h)" if "sh_capturedPeriod h = p"
        using held k True e that by blast
    qed (use e l le in \<open>simp_all\<close>)
  next
    case False
    then show ?thesis using l k by (intro handle_liveI [where t = t and u = u]) simp_all
  qed
qed

lemma exclusive_Cons:
  assumes "exclusive infl"
    and new: "\<And>h'. h' \<in> set infl \<Longrightarrow> sh_providerName h' = sh_providerName h \<Longrightarrow>
               sh_capturedPeriod h' = sh_capturedPeriod h \<Longrightarrow> set (sh_keys h) \<inter> set (sh_keys h') = {}"
  shows "exclusive (h # infl)"
  unfolding exclusive_def
proof (intro ballI impI)
  fix x y
  assume "x \<in> set (h # infl)" "y \<in> set (h # infl)"
    and e: "sh_providerName x = sh_providerName y \<and> sh_capturedPeriod x = sh_capturedPeriod y \<and> set (sh_keys x) \<inter> set (sh_keys y) \<noteq> {}"
  then consider "x = h" "y = h" | "x = h" "y \<in> set infl" | "x \<in> set infl" "y = h" | "x \<in> set infl" "y \<in> set infl" by auto
  then show "x = y"
  proof cases
    case 2
    then show ?thesis using new [of y] e by simp
  next
    case 3
    then show ?thesis using new [of x] e by (simp add: Int_commute)
  next
    case 4
    then show ?thesis using assms(1) e unfolding exclusive_def by blast
  qed simp
qed

lemma slots_inv_grant:
  assumes inv: "slots_inv scheme n sv infl now" and sv: "sv name = Some (p, adm, tok)"
    and n: "Suc n < 2 ^ 64" and p: "p = PeriodKey (scheme name) now"
    and h: "sh_providerName h = name" "sh_scheme h = scheme name" "sh_capturedPeriod h = p" "sh_token h = tok + 1"
    and free: "\<forall>k\<in>set (sh_keys h). mlookup adm k = None"
    and adm': "\<And>k. mlookup adm' k = (if k \<in> set (sh_keys h) then Some (tok + 1) else mlookup adm k)"
  shows "slots_inv scheme (Suc n) (sv(name := Some (p, adm', tok + 1))) (h # infl) now"
proof -
  have tok: "unat (tok + 1) = Suc (unat tok)" "unat tok \<le> n" "slot_backed infl name (p, adm, tok)"
    using slots_inv_providerD [OF inv sv] n by (auto simp: unat_word_ariths)
  have live: "handle_live scheme sv now h'" if "h' \<in> set infl" for h' using inv that by (simp add: slots_inv_def)
  have live': "handle_live scheme (sv(name := Some (p, adm', tok + 1))) now h'" if "h' \<in> set infl" for h'
    by (rule handle_live_update [where p = p and adm = adm and tok = tok, OF live [OF that] sv]) (use tok(1) free in \<open>auto simp: adm'\<close>)
  have new: "handle_live scheme (sv(name := Some (p, adm', tok + 1))) now h"
    using h p adm'
    by (intro handle_liveI [where t = now and u = now and p = p and adm = adm' and tok = "tok + 1"]) simp_all
  have held: "unat (sh_token h') \<le> unat tok \<and> (sh_capturedPeriod h' = p \<longrightarrow> (\<forall>k\<in>set (sh_keys h'). mlookup adm k = Some (sh_token h')))"
    if "h' \<in> set infl" "sh_providerName h' = name" for h'
    using live [OF that(1)] by (rule handle_liveE) (use that(2) sv in simp)
  have apart: "set (sh_keys h) \<inter> set (sh_keys h') = {}"
    if "h' \<in> set infl" "sh_providerName h' = name" "sh_capturedPeriod h' = p" for h'
    using held [OF that(1,2)] that(3) free by (auto dest: bspec)
  have "slot_backed (h # infl) name (p, adm', tok + 1)"
    using tok(3) h by (auto simp: slot_backed_def adm' split: if_splits)
  moreover have "slot_backed (h # infl) name' x" if "sv name' = Some x" for name' x
    using slots_inv_providerD [OF inv that] by (auto simp: slot_backed_def split: prod.splits)
  moreover have "unat (snd (snd x)) \<le> Suc n" if "sv name' = Some x" for name' x
    using slots_inv_providerD [OF inv that] by simp
  moreover have "\<forall>h'\<in>set infl. sh_providerName h' = name \<longrightarrow> sh_token h' \<noteq> tok + 1" using held tok(1) by fastforce
  then have "distinct (map (\<lambda>h. (sh_providerName h, sh_token h)) (h # infl))"
    using inv h by (auto simp: slots_inv_def)
  moreover have "exclusive (h # infl)"
    using inv h apart by (intro exclusive_Cons) (simp_all add: slots_inv_def)
  ultimately show ?thesis using tok(1,2) live' new unfolding slots_inv_def by (simp del: split_paired_All)
qed

lemma slots_inv_free:
  assumes inv: "slots_inv scheme n sv infl now" and h: "h \<in> set infl" "sh_providerName h = name"
    and sv: "sv name = Some (p, adm, tok)"
    and adm': "\<And>k. mlookup adm' k = (if p = sh_capturedPeriod h \<and> k \<in> set (sh_keys h) \<and> mlookup adm k = Some (sh_token h) then None else mlookup adm k)"
  shows "slots_inv scheme n (sv(name := Some (p, adm', tok))) (remove1 h infl) now"
proof -
  have dist: "distinct (map (\<lambda>h. (sh_providerName h, sh_token h)) infl)" using inv by (simp add: slots_inv_def)
  then have d: "distinct infl" by (simp add: distinct_map)
  have tokens: "sh_token h' \<noteq> sh_token h" if "h' \<in> set (remove1 h infl)" "sh_providerName h' = name" for h'
    using dist that h d by (auto simp: distinct_map inj_on_def)
  have live: "handle_live scheme (sv(name := Some (p, adm', tok))) now h'" if m: "h' \<in> set (remove1 h infl)" for h'
  proof (rule handle_live_update [where p = p and adm = adm and tok = tok])
    show "handle_live scheme sv now h'" using inv that d by (auto simp: slots_inv_def)
  qed (use tokens [OF m] sv in \<open>auto simp: adm'\<close>)
  have "slot_backed (remove1 h infl) name (p, adm', tok)"
    using slots_inv_providerD [OF inv sv] h d by (fastforce simp: slot_backed_def adm' split: if_splits)
  moreover have "slot_backed (remove1 h infl) name' x" if "sv name' = Some x" "name' \<noteq> name" for name' x
    using slots_inv_providerD [OF inv that(1)] that(2) h d by (fastforce simp: slot_backed_def split: prod.splits)
  moreover have "exclusive (remove1 h infl)" using inv d by (auto simp: slots_inv_def exclusive_def)
  moreover have "distinct (map (\<lambda>h. (sh_providerName h, sh_token h)) (remove1 h infl))"
    using dist by (simp add: distinct_map inj_on_def)
  ultimately show ?thesis using slots_inv_providerD [OF inv] live sv unfolding slots_inv_def
    by (simp del: split_paired_All) fastforce
qed

lemma slots_inv_OpAdmit:
  assumes inv: "slots_inv scheme n (slot_view (as_ledger s)) (as_inflight s) (as_now s)" and n: "Suc n < 2 ^ 64"
    and now: "as_now s \<le> now" and sch: "bud_Period (mp_Budget P) = scheme (mp_Name P)" and s': "s' = apply_op now (OpAdmit P ns w) s"
  shows "slots_inv scheme (Suc n) (slot_view (as_ledger s')) (as_inflight s') (as_now s')"
proof -
  obtain d ho b' where a: "Admit (as_ledger s) now P ns w = (d, ho, b')" by (metis prod_cases3)
  show ?thesis
  proof (cases ho)
    case None
    then show ?thesis using a s' slots_inv_choice [where b' = b', OF inv now sch] slot_view_Admit_None [of "as_ledger s" now P ns w d b'] by simp
  next
    case (Some h)
    let ?l = "ledgerFor (as_ledger s) now (mp_Name P) (scheme (mp_Name P))"
    have "Admit (as_ledger s) now P ns w = (d, Some h, b')" using a Some by simp
    then obtain inNS inCL widened d0 l' where g: "grant_slots P ns w inNS inCL widened d0 ?l = (d, h, l')"
      and b': "b' = put_ledger (as_ledger s) (mp_Name P) l'" and free: "\<forall>k\<in>set (sh_keys h). mlookup (pl_adm ?l) k = None"
      by (rule Admit_Some) (simp add: sch)
    note l' = b' free grant_slots_effect [OF g] sch
    define sv where "sv = (slot_view (as_ledger s))(mp_Name P := Some (slots_of ?l))"
    have "slots_inv scheme n sv (as_inflight s) now"
      using slots_inv_roll [OF inv now, of "mp_Name P"] by (simp add: sv_def slots_of_ledgerFor)
    then have "slots_inv scheme (Suc n) (sv(mp_Name P := Some (pl_period ?l, pl_adm l', pl_nextToken ?l + 1))) (h # as_inflight s) now"
      by (rule slots_inv_grant) (use l' n in \<open>simp_all add: sv_def slots_of_def\<close>)
    then show ?thesis using a s' Some l' by (simp add: sv_def slot_view_put slots_of_def)
  qed
qed

lemma slots_inv_OpSettle:
  assumes inv: "slots_inv scheme n (slot_view (as_ledger s)) (as_inflight s) (as_now s)"
    and now: "as_now s \<le> now" and s': "s' = apply_op now (OpSettle h c) s"
  shows "slots_inv scheme n (slot_view (as_ledger s')) (as_inflight s') (as_now s')"
proof (cases "h \<in> set (as_inflight s)")
  case True
  then have sch: "sh_scheme h = scheme (sh_providerName h)"
    using inv by (auto simp: slots_inv_def elim!: handle_liveE)
  let ?r = "roll_slots (PeriodKey (sh_scheme h) now) (slot_view (as_ledger s) (sh_providerName h))"
  obtain p adm tok where r: "?r = (p, adm, tok)" by (metis prod_cases3)
  define adm' where "adm' = (if p = sh_capturedPeriod h then free_slots (sh_token h) (sh_keys h) adm else adm)"
  have "slots_inv scheme n ((slot_view (as_ledger s))(sh_providerName h := Some (p, adm, tok))) (as_inflight s) now"
    using slots_inv_roll [OF inv now, of "sh_providerName h"] r sch by simp
  then have "slots_inv scheme n (((slot_view (as_ledger s))(sh_providerName h := Some (p, adm, tok)))
      (sh_providerName h := Some (p, adm', tok))) (remove1 h (as_inflight s)) now"
    by (rule slots_inv_free [OF _ True]) (auto simp: adm'_def free_slots_lookup)
  then show ?thesis using True s' by (cases "p = sh_capturedPeriod h") (simp_all add: slot_view_settle r adm'_def)
next
  case False
  then show ?thesis using slots_inv_later [OF inv now order_refl] s' by simp
qed

lemma reach_slots_inv:
  "ledger_reach scheme n s \<Longrightarrow> n < 2 ^ 64 \<Longrightarrow> slots_inv scheme n (slot_view (as_ledger s)) (as_inflight s) (as_now s)"
proof (induction rule: ledger_reach.induct)
  case (start t)
  then show ?case by (simp add: slots_inv_def slot_view_def NewBudgetLedger_def exclusive_def)
next
  case (step n s now op)
  then have inv: "slots_inv scheme n (slot_view (as_ledger s)) (as_inflight s) (as_now s)" by simp
  note choice = slots_inv_choice [OF inv \<open>as_now s \<le> now\<close>]
  note later = slots_inv_later [OF inv \<open>as_now s \<le> now\<close>, of "Suc n"]
  show ?case
  proof (cases op)
    case (OpAdmit P ns w)
    then show ?thesis using slots_inv_OpAdmit [OF inv] step by simp
  next
    case (OpSettle h c)
    show ?thesis unfolding OpSettle
      by (rule slots_inv_later [OF slots_inv_OpSettle [OF inv \<open>as_now s \<le> now\<close> refl]]) simp_all
  next
    case (OpAdd P ns w c)
    then show ?thesis using choice [OF _ slot_view_Add] step by simp
  next
    case (OpEnforce P ns)
    then show ?thesis using choice [OF _ slot_view_Enforce] step by simp
  next
    case (OpFoldPeers P m)
    then show ?thesis using choice [OF _ slot_view_FoldPeers] step by simp
  next
    case (OpFoldWorkloadPeers P m)
    then show ?thesis using choice [OF _ slot_view_FoldWorkloadPeers] step by simp
  next
    case (OpMarkPublished name t)
    then show ?thesis using later by (simp add: slot_view_MarkPublished)
  next
    case OpDrainKick
    then show ?thesis using later slot_view_cong [of "(as_ledger s)\<lparr>bl_kick := tl (bl_kick (as_ledger s))\<rparr>" "as_ledger s"] by simp
  next
    case (OpSetReplicas f)
    then show ?thesis using later slot_view_cong [of "SetReplicas f (as_ledger s)" "as_ledger s"] by (simp add: SetReplicas_def)
  qed
qed

subsection \<open>Serialized admission\<close>

definition sample_handle :: settleHandle where
  "sample_handle =
     \<lparr>sh_providerName = ''main'', sh_scheme = ''daily'', sh_capturedPeriod = PeriodKey ''daily'' 0,
      sh_namespace = ''team'', sh_workload = ''bot'', sh_keys = [''team''], sh_token = 1\<rparr>"

definition sample_ops :: "ledger_op list" where
  "sample_ops = [OpFoldPeers sample_provider [], OpAdd sample_provider ''team'' ''bot'' 97, OpAdmit sample_provider ''team'' ''bot'']"

definition sample_state :: admState where
  "sample_state = fold (apply_op 0) sample_ops \<lparr>as_ledger = NewBudgetLedger, as_inflight = [], as_now = 0\<rparr>"

lemma sample_reach: "ledger_reach (\<lambda>_. ''daily'') 3 sample_state"
proof -
  let ?s = "\<lparr>as_ledger = NewBudgetLedger, as_inflight = [], as_now = 0\<rparr>"
  have "ledger_reach (\<lambda>_. ''daily'') (Suc (Suc (Suc 0))) (fold (apply_op 0) sample_ops ?s)"
    unfolding sample_ops_def fold_simps comp_def id_def
    by (intro ledger_reach.intros) (auto simp: sample_provider_def sample_budget_def namespace_name_def split: prod.split option.split)
  then show ?thesis by (simp add: sample_state_def numeral_3_eq_3)
qed

lemma sample_inflight: "as_inflight sample_state = [sample_handle]" "as_now sample_state = 0"
  by (simp_all add: sample_state_def sample_ops_def kaalm_eval sample_handle_def Let_def tracked_scheme_def)


text \<open>
  Property C3. Inside the boundary region admissions are serialized: after any sequence of fewer than
  2 to the 64 ledger operations, two requests in flight that were admitted in the same period against
  the same ceiling of the same provider are the same request.
\<close>

theorem boundary_slot_exclusive:
  assumes "ledger_reach scheme n s" and "n < 2 ^ 64"
    and "h \<in> set (as_inflight s)" and "h' \<in> set (as_inflight s)"
    and "sh_providerName h = sh_providerName h'" and "sh_capturedPeriod h = sh_capturedPeriod h'"
    and "k \<in> set (sh_keys h)" and "k \<in> set (sh_keys h')"
  shows "h = h'"
  using reach_slots_inv [OF assms(1,2)] assms(3-) unfolding slots_inv_def exclusive_def by blast

theorem boundary_slot_exclusive_witness: "as_inflight sample_state \<noteq> [] \<and> hd (as_inflight sample_state) = sample_handle"
proof -
  have i: "hd (as_inflight sample_state) \<in> set (as_inflight sample_state)" "sample_handle \<in> set (as_inflight sample_state)"
    by (simp_all add: sample_inflight)
  have "hd (as_inflight sample_state) = sample_handle"
    by (rule boundary_slot_exclusive [OF sample_reach _ i, of "''team''"]) (simp_all add: sample_inflight sample_handle_def)
  then show ?thesis by (simp add: sample_inflight)
qed

lemma held_slot:
  assumes inv: "slots_inv scheme n (slot_view b) infl t" and h: "h \<in> set infl" "k \<in> set (sh_keys h)"
    and now: "t \<le> now" "PeriodKey (scheme (sh_providerName h)) now = sh_capturedPeriod h"
  shows "mlookup (pl_adm (ledgerFor b now (sh_providerName h) (scheme (sh_providerName h)))) k = Some (sh_token h)"
proof -
  let ?N = "sh_providerName h" and ?l = "ledgerFor b now (sh_providerName h) (scheme (sh_providerName h))"
  have "handle_live scheme ((slot_view b)(?N := Some (roll_slots (PeriodKey (scheme ?N) now) (slot_view b ?N)))) now h"
    using inv h by (intro handle_live_roll [OF _ now(1)]) (simp add: slots_inv_def)
  then show ?thesis unfolding slots_of_ledgerFor [symmetric]
  proof (rule handle_liveE)
    fix p adm tok
    assume "((slot_view b)(?N := Some (slots_of ?l))) ?N = Some (p, adm, tok)"
      and "sh_capturedPeriod h = p \<Longrightarrow> \<forall>k\<in>set (sh_keys h). mlookup adm k = Some (sh_token h)"
    then show ?thesis using now(2) h(2) by (simp add: slots_of_def)
  qed
qed

lemma hardActive_policies: "hardActive P \<Longrightarrow> bud_Policies (mp_Budget P) \<noteq> []"
  by (auto simp: hardActive_def split: if_splits)

text \<open>
  While a boundary request of a namespace is in flight, every further request of that
  namespace in the same period is turned away: either the budget blocks it, or it is throttled, and it
  gets no slot, even if the computed utilization has dropped below the boundary in the meantime.
\<close>

theorem second_boundary_request_throttled:
  assumes "ledger_reach scheme n s" and "n < 2 ^ 64" and "h \<in> set (as_inflight s)"
    and "sh_providerName h = mp_Name P" and "ns \<in> set (sh_keys h)"
    and "as_now s \<le> now" and "PeriodKey (scheme (mp_Name P)) now = sh_capturedPeriod h"
    and "bud_Period (mp_Budget P) = scheme (mp_Name P)" and "tracked_scheme (scheme (mp_Name P))" and "hardActive P"
  shows "fst (snd (Admit (as_ledger s) now P ns w)) = None \<and>
         (bd_Action (fst (Admit (as_ledger s) now P ns w)) = BudgetActionBlock \<or>
          bd_Throttled (fst (Admit (as_ledger s) now P ns w)))"
proof -
  have "mlookup (pl_adm (ledgerFor (as_ledger s) now (mp_Name P) (scheme (mp_Name P)))) ns = Some (sh_token h)"
    using held_slot [OF reach_slots_inv [OF assms(1,2)] assms(3,5,6)] assms(4,7) by simp
  then have "mhas (pl_adm (ledgerFor (as_ledger s) now (mp_Name P) (scheme (mp_Name P)))) ns" by (simp add: mhas_def)
  then show ?thesis using assms(8-10) hardActive_policies [OF assms(10)] by (simp add: Admit_def Let_def)
qed

lemma sample_hard: "hardActive sample_provider" "tracked_scheme ''daily''"
  "bud_Period (mp_Budget sample_provider) = ''daily''" "mp_Name sample_provider = ''main''"
  by (simp_all add: hardActive_def sample_provider_def sample_budget_def tracked_scheme_def)

theorem second_boundary_request_throttled_witness:
  "fst (snd (Admit (as_ledger sample_state) 5 sample_provider ''team'' ''other'')) = None"
proof -
  have h: "sample_handle \<in> set (as_inflight sample_state)" by (simp add: sample_inflight)
  have k: "PeriodKey ''daily'' 5 = PeriodKey ''daily'' 0" by (simp add: PeriodKey_def day_number_def duration_defs)
  show ?thesis
    by (rule second_boundary_request_throttled [OF sample_reach _ h, THEN conjunct1])
       (simp_all add: sample_hard sample_handle_def sample_inflight k)
qed

text \<open>
  Property C20. Slots do not leak: when no boundary request of a provider is in flight, no request to that
  provider is throttled.
\<close>

theorem no_slot_leak:
  assumes "ledger_reach scheme n s" and "n < 2 ^ 64" and "as_now s \<le> now"
    and "\<forall>h\<in>set (as_inflight s). sh_providerName h \<noteq> mp_Name P"
    and "bud_Period (mp_Budget P) = scheme (mp_Name P)"
  shows "\<not> bd_Throttled (fst (Admit (as_ledger s) now P ns w))"
proof -
  let ?l = "ledgerFor (as_ledger s) now (mp_Name P) (scheme (mp_Name P))"
  have "slots_inv scheme n (rolled (as_ledger s) now (mp_Name P) (scheme (mp_Name P))) (as_inflight s) now"
    by (rule slots_inv_roll [OF reach_slots_inv [OF assms(1,2)] assms(3)])
  then have "slot_backed (as_inflight s) (mp_Name P) (slots_of ?l)"
    using slots_inv_providerD [of scheme n _ "as_inflight s" now "mp_Name P" "slots_of ?l"] by (auto simp: slots_of_ledgerFor)
  then have empty: "\<not> mhas (pl_adm ?l) k" for k
    using assms(4) by (auto simp: slot_backed_def slots_of_def mhas_def)
  have d: "\<not> bd_Throttled (decide now budget u)" for budget u
    by (simp add: decide_def no_decision_def Let_def split: option.split)
  have "\<not> bd_Throttled d'" if "grant_slots P ns w a c v (decide now budget u) l = (d', h, l')" for a c v budget u l d' h l'
    using that d grant_slots_throttled [of P ns w a c v "decide now budget u" l] by simp
  then show ?thesis using assms(5) empty d by (auto simp: Admit_def Let_def no_decision_def split: prod.split)
qed

theorem no_slot_leak_witness:
  "\<not> bd_Throttled (fst (Admit (as_ledger (apply_op 7 (OpSettle sample_handle 1) sample_state)) 8 sample_provider ''team'' ''bot''))"
proof -
  let ?s = "apply_op 7 (OpSettle sample_handle 1) sample_state"
  have r: "ledger_reach (\<lambda>_. ''daily'') (Suc 3) ?s" by (rule ledger_reach.step [OF sample_reach]) (simp_all add: sample_inflight)
  have i: "as_inflight ?s = []" "as_now ?s = 7" by (simp_all add: sample_inflight)
  show ?thesis by (rule no_slot_leak [OF r]) (simp_all only: i, simp_all add: sample_hard)
qed

subsection \<open>Workload rows\<close>

lemma ledger_ok_settle:
  assumes "ledgers_ok b" "CHR ''/'' \<notin> set (sh_namespace h)"
  shows "ledgers_ok (settle b now h c)"
proof -
  let ?l = "ledgerFor b now (sh_providerName h) (sh_scheme h)"
  have "ledger_ok ?l" by (rule ledger_ok_ledgerFor [OF assms(1)])
  then have "ledger_ok (let l = ?l; l = (if pl_period l = sh_capturedPeriod h
                 then l\<lparr>pl_adm := free_slots (sh_token h) (sh_keys h) (pl_adm l)\<rparr> else l)
        in if c \<noteq> 0 then record_cost now (sh_namespace h) (sh_workload h) c l else l)"
    using assms(2) by (auto simp: Let_def ledger_ok_record_cost ledger_ok_cong [of "_\<lparr>pl_adm := _\<rparr>" ?l])
  then show ?thesis using ledgers_ok_put [OF assms(1)] by (auto simp: ledgers_ok_def settle_ledger)
qed

lemma ledger_ok_Admit:
  assumes "ledgers_ok b" "Admit b now P ns w = (d, ho, b')"
  shows "ledgers_ok b'"
proof (cases ho)
  case None
  then show ?thesis using Admit_None [of b now P ns w d b'] assms ledgers_ok_put [OF assms(1) ledger_ok_ledgerFor [OF assms(1)]] by auto
next
  case (Some h)
  let ?l = "ledgerFor b now (mp_Name P) (bud_Period (mp_Budget P))"
  have "Admit b now P ns w = (d, Some h, b')" using assms(2) Some by simp
  then obtain inNS inCL widened d0 l' where g: "grant_slots P ns w inNS inCL widened d0 ?l = (d, h, l')"
    and b': "b' = put_ledger b (mp_Name P) l'" by (rule Admit_Some) simp
  then have "pl_own l' = pl_own ?l" "pl_ownW l' = pl_ownW ?l" by (simp_all add: grant_slots_effect [OF g])
  then have "ledger_ok l'" using ledger_ok_cong ledger_ok_ledgerFor [OF assms(1)] by blast
  then show ?thesis using ledgers_ok_put [OF assms(1)] b' by simp
qed

lemma Admit_Some_namespace: "Admit b now P ns w = (d, Some h, b') \<Longrightarrow> sh_namespace h = ns"
  by (erule Admit_Some) (erule grant_slots_effect(11))

lemma reach_ledgers_ok:
  "ledger_reach scheme n s \<Longrightarrow> ledgers_ok (as_ledger s) \<and> (\<forall>h\<in>set (as_inflight s). CHR ''/'' \<notin> set (sh_namespace h))"
proof (induction rule: ledger_reach.induct)
  case (start t)
  then show ?case by (simp add: ledgers_ok_def NewBudgetLedger_def)
next
  case (step n s now op)
  let ?b = "as_ledger s"
  have b: "ledgers_ok ?b" and i: "\<forall>h\<in>set (as_inflight s). CHR ''/'' \<notin> set (sh_namespace h)" using step.IH by auto
  note put = ledgers_ok_put [OF b] and lok = ledger_ok_ledgerFor [OF b]
  have upd: "ledger_ok (l\<lparr>pl_peers := x, pl_lastFoldOK := y\<rparr>) = ledger_ok l" "ledger_ok (l\<lparr>pl_peersW := x\<rparr>) = ledger_ok l"
    "ledger_ok (l\<lparr>pl_dirtySince := y\<rparr>) = ledger_ok l" for l x y by (simp_all add: ledger_ok_def)
  show ?case
  proof (cases op)
    case (OpAdmit P ns w)
    obtain d ho b' where a: "Admit ?b now P ns w = (d, ho, b')" by (metis prod_cases3)
    then show ?thesis using OpAdmit i ledger_ok_Admit [OF b a] Admit_Some_namespace [of ?b now P ns w d _ b'] step.hyps(3)
      by (cases ho) (auto simp: namespace_name_def)
  next
    case (OpSettle h c)
    then show ?thesis using b i ledger_ok_settle [OF b] by (auto dest: in_set_remove1 [THEN iffD1] notin_set_remove1)
  next
    case (OpAdd P ns w c)
    then show ?thesis using step.hyps(3) b i by (auto simp: Add_def Let_def namespace_name_def intro!: put ledger_ok_record_cost lok)
  next
    case (OpEnforce P ns)
    then show ?thesis using b i by (auto simp: Enforce_def Let_def intro!: put lok)
  next
    case (OpMarkPublished name t)
    have "ledger_ok l" if "mlookup (bl_providers ?b) name = Some l" for l using b that by (auto simp: ledgers_ok_def)
    then show ?thesis using OpMarkPublished b i by (auto simp: MarkPublished_def upd split: option.split intro!: put)
  qed (use b i in \<open>auto simp: FoldPeers_def FoldWorkloadPeers_def SetReplicas_def ledgers_ok_def upd intro!: lok\<close>)
qed

text \<open>
  Property C21. After any sequence of ledger operations, for every provider and every namespace, the
  per-workload figures of this replica add up to the figure its budget enforcement uses.
\<close>

theorem workload_rows_add_up:
  assumes "ledger_reach scheme n s" and "mlookup (bl_providers (as_ledger s)) name = Some l" and "namespace_name ns"
  shows "ns_rows (pl_ownW l) ns = sget (pl_own l) ns"
  using reach_ledgers_ok [OF assms(1)] assms(2,3) by (auto simp: ledgers_ok_def ledger_ok_def namespace_name_def)

theorem workload_rows_add_up_witness:
  "\<exists>l. mlookup (bl_providers (as_ledger sample_state)) ''main'' = Some l \<and> ns_rows (pl_ownW l) ''team'' = sget (pl_own l) ''team''"
proof -
  have "\<exists>l. mlookup (bl_providers (as_ledger sample_state)) ''main'' = Some l"
    by (simp add: sample_state_def sample_ops_def kaalm_eval Let_def tracked_scheme_def)
  then obtain l where "mlookup (bl_providers (as_ledger sample_state)) ''main'' = Some l" by blast
  then show ?thesis using workload_rows_add_up [OF sample_reach, of "''main''" l "''team''"] by (simp add: namespace_name_def)
qed

end
