(* ===== verification/Budget_Cap.thy ===== *)
theory Budget_Cap
  imports Budget_Hard
begin

text \<open>
  What hard enforcement (\<^verbatim>\<open>internal/gateway/budget_hard.go\<close>) guarantees about the amount spent:
  a bound on a namespace's spend over any run of ledger operations within one period, for budgets
  whose highest policies are the blocking ones, and what happens for other policy ladders.
\<close>

subsection \<open>Below the block threshold\<close>

text \<open>A ladder on which nothing but blocking happens from the lowest block threshold on, with the
  thresholds the API admits.\<close>

definition block_on_top :: "ModelProviderBudget \<Rightarrow> bool" where
  "block_on_top budget = list_all (\<lambda>p. (pol_Action p = BudgetActionBlock \<longrightarrow> pol_AtPercent p \<le> 100) \<and>
     (minBlockAt budget \<le> of_int (pol_AtPercent p) \<longrightarrow> pol_Action p = BudgetActionBlock)) (bud_Policies budget)"

lemma min_block_at_attained:
  "min_block_at ps z = z \<or> (\<exists>p\<in>set ps. pol_Action p = BudgetActionBlock \<and> min_block_at ps z = of_int (pol_AtPercent p))"
  by (induction ps z rule: min_block_at.induct) (auto split: if_splits)

lemma min_block_at_le_start: "min_block_at ps z \<le> z"
proof (induction ps z rule: min_block_at.induct)
  case (2 p ps lowest)
  then show ?case by (cases "pol_Action p = BudgetActionBlock \<and> of_int (pol_AtPercent p) < lowest") auto
qed simp

lemma min_block_at_le: "p \<in> set ps \<Longrightarrow> pol_Action p = BudgetActionBlock \<Longrightarrow> min_block_at ps z \<le> of_int (pol_AtPercent p)"
proof (induction ps arbitrary: z)
  case (Cons a ps)
  show ?case
  proof (cases "p = a")
    case True
    then show ?thesis
      using Cons.prems min_block_at_le_start [of ps "of_int (pol_AtPercent a)"] min_block_at_le_start [of ps z] by auto
  next
    case False
    then show ?thesis using Cons by simp
  qed
qed simp

lemma minBlockAt_attained:
  assumes "hardActive P" "block_on_top (mp_Budget P)"
  obtains p where "p \<in> set (bud_Policies (mp_Budget P))" "pol_Action p = BudgetActionBlock"
    "minBlockAt (mp_Budget P) = of_int (pol_AtPercent p)"
proof -
  let ?ps = "bud_Policies (mp_Budget P)"
  obtain p where p: "p \<in> set ?ps" "pol_Action p = BudgetActionBlock"
    using assms(1) by (auto simp: hardActive_def list_ex_iff split: if_splits)
  then have "pol_AtPercent p \<le> 100" using assms(2) by (auto simp: block_on_top_def list_all_iff)
  then have "min_block_at ?ps 101 \<noteq> 101" using min_block_at_le [OF p, of 101] by (auto dest: order_trans)
  then show ?thesis using min_block_at_attained [of ?ps 101] that by (auto simp: minBlockAt_def)
qed

lemma not_blocked_below:
  assumes "hardActive P" "block_on_top (mp_Budget P)" "bd_Action (decide now (mp_Budget P) u) \<noteq> BudgetActionBlock"
  shows "u_worst u < minBlockAt (mp_Budget P)"
proof (rule ccontr)
  let ?ps = "bud_Policies (mp_Budget P)"
  assume over: "\<not> u_worst u < minBlockAt (mp_Budget P)"
  obtain p where p: "p \<in> set ?ps" "minBlockAt (mp_Budget P) = of_int (pol_AtPercent p)"
    using minBlockAt_attained [OF assms(1,2)] by metis
  then have r: "reached (u_worst u) p" using over by simp
  then obtain w where w: "winner_policy (u_worst u) ?ps None = Some w"
    using p winner_policy_None [of "u_worst u" ?ps] by (cases "winner_policy (u_worst u) ?ps None") auto
  then have f: "first_highest (u_worst u) ?ps w" by (simp add: winner_policy_first_highest)
  have "minBlockAt (mp_Budget P) \<le> of_int (pol_AtPercent w)"
    using first_highest_reached(3) [OF f p(1) r] p(2) by simp
  then have "pol_Action w = BudgetActionBlock"
    using first_highest_reached(1) [OF f] assms(2) by (auto simp: block_on_top_def list_all_iff)
  then show False using assms(3) w by (simp add: decide_action)
qed

definition ns_ceiling :: "ModelProviderBudget \<Rightarrow> rat" where
  "ns_ceiling budget = (case ParseFloat (bud_PerNamespaceUSD budget) of None \<Rightarrow> 0 | Some c \<Rightarrow> c)"

definition block_limit :: "ModelProviderBudget \<Rightarrow> rat" where
  "block_limit budget = ns_ceiling budget * minBlockAt budget / 100"

lemma ns_utilization_le_worst:
  "0 < ns_ceiling budget \<Longrightarrow> spent l ns / ns_ceiling budget * 100 \<le> u_worst (utilizationLocked budget l ns)"
  by (auto simp: utilizationLocked_def ns_ceiling_def Let_def split: option.splits if_splits)

lemma not_blocked_spent:
  assumes "hardActive P" "block_on_top (mp_Budget P)" "0 < ns_ceiling (mp_Budget P)"
    "bd_Action (decide now (mp_Budget P) (utilizationLocked (mp_Budget P) l ns)) \<noteq> BudgetActionBlock"
  shows "spent l ns < block_limit (mp_Budget P)"
proof -
  have "spent l ns / ns_ceiling (mp_Budget P) * 100 < minBlockAt (mp_Budget P)"
    using not_blocked_below [OF assms(1,2,4)] ns_utilization_le_worst [OF assms(3), of l ns] by linarith
  then show ?thesis using assms(3) by (simp add: block_limit_def field_simps)
qed

subsection \<open>The cap over a run\<close>

fun run_ops :: "(instant \<times> ledger_op) list \<Rightarrow> admState \<Rightarrow> admState" where
  "run_ops [] s = s"
| "run_ops ((now, op) # r) s = run_ops r (apply_op now op s)"

text \<open>The runs the cap speaks about: the clock does not go back and stays in the period \<open>q\<close>, the
  provider keeps its spec, the peers' view of it does not change, and every cost is between zero and
  \<open>C\<close> when it settles a boundary request.\<close>

fun cap_op :: "ModelProvider \<Rightarrow> rat \<Rightarrow> ledger_op \<Rightarrow> bool" where
  "cap_op P C (OpAdmit Q ns w) = (mp_Name Q = mp_Name P \<longrightarrow> Q = P)"
| "cap_op P C (OpSettle h c) = (0 \<le> c \<and> c \<le> C)"
| "cap_op P C (OpAdd Q ns w c) = (0 \<le> c)"
| "cap_op P C (OpFoldPeers Q m) = (mp_Name Q \<noteq> mp_Name P)"
| "cap_op P C _ = True"

fun cap_run :: "(string \<Rightarrow> string) \<Rightarrow> ModelProvider \<Rightarrow> rat \<Rightarrow> string \<Rightarrow> instant \<Rightarrow> (instant \<times> ledger_op) list \<Rightarrow> bool" where
  "cap_run scheme P C q t [] = True"
| "cap_run scheme P C q t ((now, op) # r) =
     (t \<le> now \<and> PeriodKey (bud_Period (mp_Budget P)) now = q \<and> op_ok scheme op \<and> cap_op P C op \<and> cap_run scheme P C q now r)"

text \<open>What requests that hold no slot record for the namespace during the run.\<close>

fun unslotted :: "ModelProvider \<Rightarrow> string \<Rightarrow> (instant \<times> ledger_op) list \<Rightarrow> rat" where
  "unslotted P ns [] = 0"
| "unslotted P ns ((now, OpAdd Q ns' w c) # r) =
     (if mp_Name Q = mp_Name P \<and> ns' = ns then c else 0) + unslotted P ns r"
| "unslotted P ns (_ # r) = unslotted P ns r"

definition period_ledger :: "string \<Rightarrow> BudgetLedger \<Rightarrow> string \<Rightarrow> providerLedger" where
  "period_ledger q b name = (case mlookup (bl_providers b) name of None \<Rightarrow> new_ledger q | Some l \<Rightarrow> roll_over q l)"

lemma ledgerFor_period: "ledgerFor b now name sch = period_ledger (PeriodKey sch now) b name"
  by (simp add: ledgerFor_def period_ledger_def Let_def)

lemma period_period_ledger [simp]: "pl_period (period_ledger q b name) = q"
  by (simp add: period_ledger_def roll_over_def new_ledger_def split: option.split)

lemma period_ledger_put [simp]:
  "period_ledger q (put_ledger b name l) n = (if n = name then roll_over q l else period_ledger q b n)"
  by (simp add: period_ledger_def)

lemma roll_over_same [simp]: "pl_period l = q \<Longrightarrow> roll_over q l = l"
  by (simp add: roll_over_def)

lemma period_ledger_cong: "bl_providers b = bl_providers b' \<Longrightarrow> period_ledger q b n = period_ledger q b' n"
  by (simp add: period_ledger_def)

lemma spent_record_cost: "spent (record_cost now ns w c l) ns' = spent l ns' + (if ns' = ns then c else 0)"
  by (simp add: spent_def)

definition cl_ceiling :: "ModelProviderBudget \<Rightarrow> rat" where
  "cl_ceiling budget = u_clUSD (utilizationLocked budget (new_ledger []) [])"

lemma cl_ceiling: "u_clUSD (utilizationLocked budget l ns) = cl_ceiling budget"
  by (simp add: cl_ceiling_def utilizationLocked_def Let_def split: option.split)

definition cap_handle :: "ModelProvider \<Rightarrow> string \<Rightarrow> settleHandle \<Rightarrow> bool" where
  "cap_handle P q h \<longleftrightarrow> sh_capturedPeriod h = q \<and> sh_keys h \<noteq> [] \<and> set (sh_keys h) \<subseteq> {sh_namespace h, clusterSlotKey} \<and>
     (clusterSlotKey \<in> set (sh_keys h) \<longrightarrow> 0 < cl_ceiling (mp_Budget P)) \<and> namespace_name (sh_namespace h)"

definition cap_inv :: "ModelProvider \<Rightarrow> string \<Rightarrow> string \<Rightarrow> rat \<Rightarrow> rat \<Rightarrow> admState \<Rightarrow> bool" where
  "cap_inv P ns q C A s \<longleftrightarrow>
     spent (period_ledger q (as_ledger s) (mp_Name P)) ns \<le> block_limit (mp_Budget P) + C + A \<and>
     (\<forall>h\<in>set (as_inflight s). sh_providerName h = mp_Name P \<longrightarrow>
        PeriodKey (bud_Period (mp_Budget P)) (as_now s) = q \<and> cap_handle P q h \<and>
        (sh_namespace h = ns \<longrightarrow> spent (period_ledger q (as_ledger s) (mp_Name P)) ns < block_limit (mp_Budget P) + A)) \<and>
     (\<forall>h\<in>set (as_inflight s). \<forall>h'\<in>set (as_inflight s). sh_providerName h = mp_Name P \<longrightarrow> sh_providerName h' = mp_Name P \<longrightarrow>
        sh_namespace h = sh_namespace h' \<longrightarrow> h = h')"

lemma cap_invD:
  assumes "cap_inv P ns q C A s"
  shows "spent (period_ledger q (as_ledger s) (mp_Name P)) ns \<le> block_limit (mp_Budget P) + C + A"
    and "h \<in> set (as_inflight s) \<Longrightarrow> sh_providerName h = mp_Name P \<Longrightarrow> cap_handle P q h"
    and "h \<in> set (as_inflight s) \<Longrightarrow> sh_providerName h = mp_Name P \<Longrightarrow> sh_namespace h = ns \<Longrightarrow>
         spent (period_ledger q (as_ledger s) (mp_Name P)) ns < block_limit (mp_Budget P) + A"
    and "h \<in> set (as_inflight s) \<Longrightarrow> h' \<in> set (as_inflight s) \<Longrightarrow> sh_providerName h = mp_Name P \<Longrightarrow>
         sh_providerName h' = mp_Name P \<Longrightarrow> sh_namespace h = sh_namespace h' \<Longrightarrow> h = h'"
  using assms unfolding cap_inv_def by blast+

lemma cap_invI:
  assumes "spent (period_ledger q (as_ledger s) (mp_Name P)) ns \<le> block_limit (mp_Budget P) + C + A"
    and "PeriodKey (bud_Period (mp_Budget P)) (as_now s) = q"
    and "\<And>h. h \<in> set (as_inflight s) \<Longrightarrow> sh_providerName h = mp_Name P \<Longrightarrow> cap_handle P q h"
    and "\<And>h. h \<in> set (as_inflight s) \<Longrightarrow> sh_providerName h = mp_Name P \<Longrightarrow> sh_namespace h = ns \<Longrightarrow>
         spent (period_ledger q (as_ledger s) (mp_Name P)) ns < block_limit (mp_Budget P) + A"
    and "\<And>h h'. h \<in> set (as_inflight s) \<Longrightarrow> h' \<in> set (as_inflight s) \<Longrightarrow> sh_providerName h = mp_Name P \<Longrightarrow>
         sh_providerName h' = mp_Name P \<Longrightarrow> sh_namespace h = sh_namespace h' \<Longrightarrow> h = h'"
  shows "cap_inv P ns q C A s"
  unfolding cap_inv_def using assms by blast

lemma cap_inv_frame:
  assumes "cap_inv P ns q C A s" and "0 \<le> e"
    and "spent (period_ledger q (as_ledger s') (mp_Name P)) ns = spent (period_ledger q (as_ledger s) (mp_Name P)) ns + e"
    and "as_inflight s' = as_inflight s" and "PeriodKey (bud_Period (mp_Budget P)) (as_now s') = q"
  shows "cap_inv P ns q C (A + e) s'"
  using assms unfolding cap_inv_def by (auto simp: algebra_simps)

text \<open>The operations that neither admit nor settle.\<close>

lemma period_ledger_Enforce:
  "period_ledger (PeriodKey sch now) (snd (Enforce b now Q ns)) name = period_ledger (PeriodKey sch now) b name"
  if "mp_Name Q = name \<Longrightarrow> bud_Period (mp_Budget Q) = sch"
  using that by (auto simp: Enforce_def Let_def ledgerFor_period)

lemma period_ledger_Add:
  "spent (period_ledger (PeriodKey sch now) (Add b now Q ns' w c) name) ns =
     spent (period_ledger (PeriodKey sch now) b name) ns + (if mp_Name Q = name \<and> ns' = ns then c else 0)"
  if "mp_Name Q = name \<Longrightarrow> bud_Period (mp_Budget Q) = sch" and "tracked_scheme sch"
  using that by (auto simp: Add_def Let_def ledgerFor_period spent_record_cost)

lemma period_ledger_FoldWorkloadPeers:
  "spent (period_ledger (PeriodKey sch now) (FoldWorkloadPeers b now Q m) name) ns = spent (period_ledger (PeriodKey sch now) b name) ns"
  if "mp_Name Q = name \<Longrightarrow> bud_Period (mp_Budget Q) = sch"
  using that by (auto simp: FoldWorkloadPeers_def ledgerFor_period spent_def)

lemma period_ledger_FoldPeers:
  "mp_Name Q \<noteq> name \<Longrightarrow> period_ledger q (FoldPeers b now Q m) name = period_ledger q b name"
  by (simp add: FoldPeers_def)

lemma spent_MarkPublished:
  "spent (period_ledger q (MarkPublished b n t) name) ns = spent (period_ledger q b name) ns"
proof (cases "mlookup (bl_providers b) n")
  case (Some l)
  have "spent (roll_over q (l\<lparr>pl_dirtySince := None\<rparr>)) ns = spent (roll_over q l) ns" by (simp add: roll_over_def spent_def)
  then show ?thesis using Some
    by (cases "pl_dirtySince l") (simp_all add: MarkPublished_def, simp add: period_ledger_def)
qed (simp add: MarkPublished_def)

lemma period_ledger_settle:
  assumes "sh_providerName h = name \<Longrightarrow> sh_scheme h = sch"
  shows "spent (period_ledger (PeriodKey sch now) (settle b now h c) name) ns =
     spent (period_ledger (PeriodKey sch now) b name) ns + (if sh_providerName h = name \<and> sh_namespace h = ns then c else 0)"
proof -
  have "period_ledger q (settle b now h c) name = period_ledger q (put_ledger b (sh_providerName h)
       (let l = ledgerFor b now (sh_providerName h) (sh_scheme h);
            l = (if pl_period l = sh_capturedPeriod h
                 then l\<lparr>pl_adm := free_slots (sh_token h) (sh_keys h) (pl_adm l)\<rparr> else l)
        in if c \<noteq> 0 then record_cost now (sh_namespace h) (sh_workload h) c l else l)) name" for q
    by (rule period_ledger_cong) (rule settle_ledger)
  then show ?thesis using assms by (auto simp: Let_def ledgerFor_period spent_def)
qed

lemma cap_inv_grant:
  assumes inv: "cap_inv P ns q C A s" and "0 \<le> A"
    and slots: "slots_inv scheme n (slot_view (as_ledger s)) (as_inflight s) (as_now s)" "as_now s \<le> now"
    and P: "hardActive P" "block_on_top (mp_Budget P)" "0 < ns_ceiling (mp_Budget P)"
    and q: "PeriodKey (bud_Period (mp_Budget P)) now = q" "scheme (mp_Name P) = bud_Period (mp_Budget P)" "namespace_name ns'"
    and adm: "Admit (as_ledger s) now P ns' w = (d, Some h, b')"
  shows "cap_inv P ns q C A (s\<lparr>as_ledger := b', as_inflight := h # as_inflight s, as_now := now\<rparr>)"
proof -
  define l where "l = period_ledger q (as_ledger s) (mp_Name P)"
  have l: "ledgerFor (as_ledger s) now (mp_Name P) (bud_Period (mp_Budget P)) = l" by (simp add: l_def ledgerFor_period q)
  obtain inNS inCL widened l' where bd: "boundary (as_ledger s) (mp_Budget P) l (utilizationLocked (mp_Budget P) l ns') = (inNS, inCL, widened)"
    and some: "inNS \<or> inCL" and g: "grant_slots P ns' w inNS inCL widened (decide now (mp_Budget P) (utilizationLocked (mp_Budget P) l ns')) l = (d, h, l')" and b': "b' = put_ledger (as_ledger s) (mp_Name P) l'"
    and act: "bd_Action (decide now (mp_Budget P) (utilizationLocked (mp_Budget P) l ns')) \<noteq> BudgetActionBlock"
    and free: "mlookup (pl_adm l) ns' = None" "mlookup (pl_adm l) clusterSlotKey = None \<or> \<not> 0 < cl_ceiling (mp_Budget P)"
    using Admit_Some [OF adm, unfolded l cl_ceiling] by metis
  note eff = grant_slots_effect [OF g]
  have cl: "inCL \<Longrightarrow> 0 < cl_ceiling (mp_Budget P)" using boundary_cluster [OF bd] by (simp add: cl_ceiling)
  have "set (sh_keys h) \<noteq> {}" "clusterSlotKey \<in> set (sh_keys h) \<Longrightarrow> inCL"
    using some q(3) by (auto simp: eff(12) namespace_name_def clusterSlotKey_def split: if_splits)
  moreover have "set (sh_keys h) \<subseteq> {ns', clusterSlotKey}" by (simp add: eff(12))
  moreover have "sh_capturedPeriod h = q" by (simp add: eff(10) l_def)
  ultimately have h: "cap_handle P q h" using cl q(3) by (simp add: cap_handle_def eff(11))
  have below: "spent l ns' < block_limit (mp_Budget P)" by (rule not_blocked_spent [OF P act])
  have sp: "spent (period_ledger q b' (mp_Name P)) ns = spent l ns" using eff(1,2,4) by (simp add: b' spent_def l_def)
  have other: "sh_namespace h' \<noteq> ns'" if h': "h' \<in> set (as_inflight s)" "sh_providerName h' = mp_Name P" for h'
  proof
    assume ns': "sh_namespace h' = ns'"
    have c: "cap_handle P q h'" by (rule cap_invD(2) [OF inv h'])
    then obtain k where k: "k \<in> set (sh_keys h')" "k = ns' \<or> k = clusterSlotKey \<and> 0 < cl_ceiling (mp_Budget P)"
      unfolding cap_handle_def ns' by (cases "sh_keys h'") auto
    have "mlookup (pl_adm l) k = Some (sh_token h')"
      using held_slot [OF slots(1) h'(1) k(1) slots(2)] c h'(2) q by (simp add: cap_handle_def ledgerFor_period l_def)
    then show False using k(2) free by auto
  qed
  show ?thesis
  proof (rule cap_invI)
    show "h1 = h2" if "h1 \<in> set (as_inflight (s\<lparr>as_ledger := b', as_inflight := h # as_inflight s, as_now := now\<rparr>))"
      "h2 \<in> set (as_inflight (s\<lparr>as_ledger := b', as_inflight := h # as_inflight s, as_now := now\<rparr>))"
      "sh_providerName h1 = mp_Name P" "sh_providerName h2 = mp_Name P" "sh_namespace h1 = sh_namespace h2" for h1 h2
      using that other [of h1] other [of h2] cap_invD(4) [OF inv, of h1 h2] eff(11) by auto
  next
    show "spent (period_ledger q (as_ledger (s\<lparr>as_ledger := b', as_inflight := h # as_inflight s, as_now := now\<rparr>)) (mp_Name P)) ns
        < block_limit (mp_Budget P) + A"
      if "h1 \<in> set (as_inflight (s\<lparr>as_ledger := b', as_inflight := h # as_inflight s, as_now := now\<rparr>))"
        "sh_providerName h1 = mp_Name P" "sh_namespace h1 = ns" for h1
      using that sp below cap_invD(3) [OF inv, of h1, folded l_def] eff(11) \<open>0 \<le> A\<close> by auto
  qed (use cap_invD(1,2) [OF inv, folded l_def] sp h q(1) in auto)
qed

lemma cap_inv_settle:
  assumes inv: "cap_inv P ns q C A s"
    and slots: "slots_inv scheme n (slot_view (as_ledger s)) (as_inflight s) (as_now s)"
    and q: "PeriodKey (bud_Period (mp_Budget P)) now = q" "scheme (mp_Name P) = bud_Period (mp_Budget P)"
    and c: "0 \<le> c" "c \<le> C" and h: "h \<in> set (as_inflight s)"
  shows "cap_inv P ns q C A (s\<lparr>as_ledger := settle (as_ledger s) now h c, as_inflight := remove1 h (as_inflight s), as_now := now\<rparr>)"
proof -
  have d: "distinct (as_inflight s)" using slots by (simp add: slots_inv_def distinct_map)
  have "sh_providerName h = mp_Name P \<Longrightarrow> sh_scheme h = bud_Period (mp_Budget P)"
    using slots h q(2) by (auto simp: slots_inv_def elim!: handle_liveE)
  then have sp: "spent (period_ledger q (settle (as_ledger s) now h c) (mp_Name P)) ns =
     spent (period_ledger q (as_ledger s) (mp_Name P)) ns + (if sh_providerName h = mp_Name P \<and> sh_namespace h = ns then c else 0)"
    using period_ledger_settle [of h "mp_Name P" "bud_Period (mp_Budget P)" now] q(1) by simp
  show ?thesis
  proof (cases "sh_providerName h = mp_Name P \<and> sh_namespace h = ns")
    case True
    then have "spent (period_ledger q (as_ledger s) (mp_Name P)) ns < block_limit (mp_Budget P) + A"
      using cap_invD(3) [OF inv h] by simp
    moreover have "sh_namespace h' \<noteq> ns" if "h' \<in> set (remove1 h (as_inflight s))" "sh_providerName h' = mp_Name P" for h'
      using cap_invD(4) [OF inv h, of h'] that True d by auto
    ultimately show ?thesis using cap_invD [OF inv] sp True c q(1) d by (intro cap_invI) auto
  next
    case False
    then show ?thesis using cap_invD [OF inv] sp q(1) d by (intro cap_invI) auto
  qed
qed

lemma cap_inv_admit:
  assumes inv: "cap_inv P ns q C A s" and "0 \<le> A"
    and slots: "slots_inv scheme n (slot_view (as_ledger s)) (as_inflight s) (as_now s)" "as_now s \<le> now"
    and P: "hardActive P" "block_on_top (mp_Budget P)" "0 < ns_ceiling (mp_Budget P)"
    and q: "PeriodKey (bud_Period (mp_Budget P)) now = q" "scheme (mp_Name P) = bud_Period (mp_Budget P)" "namespace_name ns'"
    and Q: "mp_Name Q = mp_Name P \<Longrightarrow> Q = P"
  shows "cap_inv P ns q C A (apply_op now (OpAdmit Q ns' w) s)"
proof -
  obtain d ho b' where a: "Admit (as_ledger s) now Q ns' w = (d, ho, b')" by (metis prod_cases3)
  show ?thesis
  proof (cases ho)
    case None
    have "b' = as_ledger s \<or> b' = put_ledger (as_ledger s) (mp_Name Q) (ledgerFor (as_ledger s) now (mp_Name Q) (bud_Period (mp_Budget Q)))"
      using Admit_None [of "as_ledger s" now Q ns' w d b'] a None by simp
    then have "period_ledger q b' (mp_Name P) = period_ledger q (as_ledger s) (mp_Name P)"
    proof
      assume "b' = put_ledger (as_ledger s) (mp_Name Q) (ledgerFor (as_ledger s) now (mp_Name Q) (bud_Period (mp_Budget Q)))"
      then show ?thesis using Q q(1) by (cases "mp_Name Q = mp_Name P") (simp_all add: ledgerFor_period)
    qed simp
    then show ?thesis using cap_inv_frame [OF inv order_refl, of "apply_op now (OpAdmit Q ns' w) s"] a None q(1) by simp
  next
    case (Some h)
    have a': "Admit (as_ledger s) now Q ns' w = (d, Some h, b')" using a Some by simp
    show ?thesis
    proof (cases "mp_Name Q = mp_Name P")
      case True
      then have "Admit (as_ledger s) now P ns' w = (d, Some h, b')" using Q a' by simp
      then show ?thesis using cap_inv_grant [OF inv \<open>0 \<le> A\<close> slots P q] Q [OF True] a' by simp
    next
      case False
      from a' obtain inNS inCL widened d0 l l' where g: "grant_slots Q ns' w inNS inCL widened d0 l = (d, h, l')"
        and b': "b' = put_ledger (as_ledger s) (mp_Name Q) l'" by (rule Admit_Some) simp
      have "sh_providerName h \<noteq> mp_Name P" using grant_slots_effect(8) [OF g] False by simp
      then show ?thesis using cap_invD [OF inv] a' b' False q(1) by (intro cap_invI) auto
    qed
  qed
qed

lemma cap_step:
  assumes inv: "cap_inv P ns q C A s" and "0 \<le> A"
    and slots: "slots_inv scheme n (slot_view (as_ledger s)) (as_inflight s) (as_now s)" "as_now s \<le> now"
    and P: "hardActive P" "block_on_top (mp_Budget P)" "0 < ns_ceiling (mp_Budget P)"
    and q: "PeriodKey (bud_Period (mp_Budget P)) now = q" "scheme (mp_Name P) = bud_Period (mp_Budget P)"
      "tracked_scheme (bud_Period (mp_Budget P))"
    and op: "op_ok scheme op" "cap_op P C op"
  shows "cap_inv P ns q C (A + unslotted P ns [(now, op)]) (apply_op now op s) \<and> 0 \<le> unslotted P ns [(now, op)]"
proof -
  note frame = cap_inv_frame [OF inv, of _ "apply_op now op s"]
  show ?thesis
  proof (cases op)
    case (OpAdmit Q ns' w)
    then show ?thesis using cap_inv_admit [OF inv \<open>0 \<le> A\<close> slots P q(1,2)] op by simp
  next
    case (OpSettle h c)
    then show ?thesis using cap_inv_settle [OF inv slots(1) q(1,2), of c h] op frame [of 0] q(1)
      by (cases "h \<in> set (as_inflight s)") simp_all
  next
    case (OpAdd Q ns' w c)
    have "mp_Name Q = mp_Name P \<Longrightarrow> bud_Period (mp_Budget Q) = bud_Period (mp_Budget P)" using op q(2) OpAdd by simp
    then show ?thesis using OpAdd op q period_ledger_Add [of Q "mp_Name P" "bud_Period (mp_Budget P)" now "as_ledger s" ns' w c ns]
        frame [of "if mp_Name Q = mp_Name P \<and> ns' = ns then c else 0"] by simp
  next
    case (OpEnforce Q ns')
    have "mp_Name Q = mp_Name P \<Longrightarrow> bud_Period (mp_Budget Q) = bud_Period (mp_Budget P)" using op q(2) OpEnforce by simp
    then show ?thesis using OpEnforce q period_ledger_Enforce [of Q "mp_Name P" "bud_Period (mp_Budget P)" now "as_ledger s" ns'] frame [of 0]
      by simp
  next
    case (OpFoldPeers Q m)
    then show ?thesis using op q period_ledger_FoldPeers [of Q "mp_Name P" q "as_ledger s" now m] frame [of 0] by simp
  next
    case (OpFoldWorkloadPeers Q m)
    have "mp_Name Q = mp_Name P \<Longrightarrow> bud_Period (mp_Budget Q) = bud_Period (mp_Budget P)" using op q(2) OpFoldWorkloadPeers by simp
    then show ?thesis using OpFoldWorkloadPeers q frame [of 0]
        period_ledger_FoldWorkloadPeers [of Q "mp_Name P" "bud_Period (mp_Budget P)" now "as_ledger s" m ns] by simp
  next
    case (OpMarkPublished n t)
    then show ?thesis using q frame [of 0] by (simp add: spent_MarkPublished)
  next
    case OpDrainKick
    then show ?thesis
      using q frame [of 0] period_ledger_cong [of "(as_ledger s)\<lparr>bl_kick := tl (bl_kick (as_ledger s))\<rparr>" "as_ledger s"] by simp
  next
    case (OpSetReplicas f)
    then show ?thesis using q frame [of 0] period_ledger_cong [of "SetReplicas f (as_ledger s)" "as_ledger s"] by (simp add: SetReplicas_def)
  qed
qed

lemma unslotted_Cons: "unslotted P ns (x # r) = unslotted P ns [x] + unslotted P ns r"
  by (cases "(P, ns, x # r)" rule: unslotted.cases) auto

lemma cap_run_inv:
  assumes "ledger_reach scheme n s" "n + length ops < 2 ^ 64" "cap_run scheme P C q (as_now s) ops"
    and P: "hardActive P" "block_on_top (mp_Budget P)" "0 < ns_ceiling (mp_Budget P)"
    and q: "scheme (mp_Name P) = bud_Period (mp_Budget P)" "tracked_scheme (bud_Period (mp_Budget P))"
    and "cap_inv P ns q C A s" "0 \<le> A"
  shows "cap_inv P ns q C (A + unslotted P ns ops) (run_ops ops s)"
  using assms(1-3,9,10)
proof (induction ops arbitrary: n s A)
  case (Cons x ops)
  obtain now op where x: "x = (now, op)" by fastforce
  have h: "as_now s \<le> now" "PeriodKey (bud_Period (mp_Budget P)) now = q" "op_ok scheme op" "cap_op P C op" "cap_run scheme P C q now ops"
    using Cons.prems(3) by (simp_all add: x)
  have slots: "slots_inv scheme n (slot_view (as_ledger s)) (as_inflight s) (as_now s)"
    using Cons.prems(1,2) by (intro reach_slots_inv) simp_all
  have now: "as_now (apply_op now op s) = now" by (cases op) (auto split: prod.split option.split)
  have step: "cap_inv P ns q C (A + unslotted P ns [x]) (apply_op now op s)" "0 \<le> unslotted P ns [x]"
    using cap_step [OF Cons.prems(4,5) slots h(1) P h(2) q h(3,4)] by (simp_all add: x)
  have "ledger_reach scheme (Suc n) (apply_op now op s)" by (rule ledger_reach.step [OF Cons.prems(1) h(1,3)])
  from Cons.IH [OF this _ _ step(1)] have "cap_inv P ns q C (A + unslotted P ns [x] + unslotted P ns ops) (run_ops ops (apply_op now op s))"
    using Cons.prems(2,5) h(5) now step(2) by simp
  moreover have "A + unslotted P ns (x # ops) = A + unslotted P ns [x] + unslotted P ns ops"
    by (subst unslotted_Cons) simp
  ultimately show ?case by (simp add: x add.assoc)
qed simp


lemma sample_cap: "block_on_top sample_budget" "ns_ceiling sample_budget = 100" "block_limit sample_budget = 100"
  by (simp_all add: block_on_top_def ns_ceiling_def block_limit_def kaalm_eval)


text \<open>
  Property C16. A request is admitted into the boundary region only with a verified view of the budget:
  the peers' figures were folded, and unpublished spend has been pending, no longer than the
  staleness window; the decision it carries does not block.
\<close>

theorem boundary_admission_is_fresh:
  assumes "Admit b now P ns w = (d, Some h, b')"
    and "l = ledgerFor b now (mp_Name P) (bud_Period (mp_Budget P))"
  shows "bd_Action d \<noteq> BudgetActionBlock \<and>
         (\<exists>f. pl_lastFoldOK l = Some f \<and> now - f \<le> bl_stalenessWindow b) \<and>
         (\<forall>t. pl_dirtySince l = Some t \<longrightarrow> now - t \<le> bl_stalenessWindow b)"
proof -
  from assms(1) obtain inNS inCL widened l' where
    g: "grant_slots P ns w inNS inCL widened (decide now (mp_Budget P) (utilizationLocked (mp_Budget P) l ns)) l = (d, h, l')"
    and a: "bd_Action (decide now (mp_Budget P) (utilizationLocked (mp_Budget P) l ns)) \<noteq> BudgetActionBlock"
    and f: "\<not> stale_view b now l"
    unfolding assms(2) by (rule Admit_Some)
  then show ?thesis using grant_slots_effect(13) [OF g] by (auto simp: stale_view_def split: option.splits)
qed

theorem boundary_admission_is_fresh_witness:
  "\<exists>d b'. Admit (as_ledger (fold (apply_op 0) (butlast sample_ops) \<lparr>as_ledger = NewBudgetLedger, as_inflight = [], as_now = 0\<rparr>))
            0 sample_provider ''team'' ''bot'' = (d, Some sample_handle, b') \<and> bd_Action d \<noteq> BudgetActionBlock"
proof -
  let ?b = "as_ledger (fold (apply_op 0) (butlast sample_ops) \<lparr>as_ledger = NewBudgetLedger, as_inflight = [], as_now = 0\<rparr>)"
  have "fst (snd (Admit ?b 0 sample_provider ''team'' ''bot'')) = Some sample_handle"
    by (simp add: sample_ops_def kaalm_eval sample_handle_def Let_def tracked_scheme_def)
  then obtain d b' where a: "Admit ?b 0 sample_provider ''team'' ''bot'' = (d, Some sample_handle, b')"
    by (metis prod.collapse)
  then show ?thesis using boundary_admission_is_fresh [OF a refl] by blast
qed

text \<open>
  Property C17. For a provider without hard enforcement, admission is the plain budget check: the same
  decision, no slot, and the same ledger afterwards.
\<close>

theorem Admit_soft_is_Enforce:
  assumes "\<not> hardActive P"
  shows "Admit b now P ns w = (fst (Enforce b now P ns), None, snd (Enforce b now P ns))"
  using assms by (simp add: Admit_def Enforce_def Let_def)

theorem Admit_soft_is_Enforce_witness:
  "Admit NewBudgetLedger 0 (sample_provider\<lparr>mp_Spec := (mp_Spec sample_provider)\<lparr>mps_Budget := sample_budget\<lparr>bud_Enforcement := ''soft''\<rparr>\<rparr>\<rparr>) ''team'' ''bot''
   = (fst (Enforce NewBudgetLedger 0 (sample_provider\<lparr>mp_Spec := (mp_Spec sample_provider)\<lparr>mps_Budget := sample_budget\<lparr>bud_Enforcement := ''soft''\<rparr>\<rparr>\<rparr>) ''team''),
      None, snd (Enforce NewBudgetLedger 0 (sample_provider\<lparr>mp_Spec := (mp_Spec sample_provider)\<lparr>mps_Budget := sample_budget\<lparr>bud_Enforcement := ''soft''\<rparr>\<rparr>\<rparr>) ''team''))"
  by (rule Admit_soft_is_Enforce) (simp add: hardActive_def BudgetEnforcementHard_def)

text \<open>
  Property C26. A block policy is masked by any other policy with a higher threshold: once utilization
  reaches the higher threshold, admission no longer blocks, in hard mode as well, so the cap needs the
  ladder to end in blocking.
\<close>

theorem block_policy_masked:
  assumes "tracked_scheme (bud_Period (mp_Budget P))"
    and "wst = u_worst (utilizationLocked (mp_Budget P) (ledgerFor b now (mp_Name P) (bud_Period (mp_Budget P))) ns)"
    and "p \<in> set (bud_Policies (mp_Budget P))" and "pol_Action p = BudgetActionBlock" and "reached wst p"
    and "first_highest wst (bud_Policies (mp_Budget P)) q" and "pol_Action q \<noteq> BudgetActionBlock"
  shows "pol_AtPercent p \<le> pol_AtPercent q \<and> bd_Action (fst (Admit b now P ns w)) = pol_Action q"
proof -
  let ?l = "ledgerFor b now (mp_Name P) (bud_Period (mp_Budget P))"
  have d: "bd_Action (decide now (mp_Budget P) (utilizationLocked (mp_Budget P) ?l ns)) = pol_Action q"
    using assms(2,6) by (simp add: decide_action winner_policy_first_highest [symmetric])
  moreover have "bd_Action (fst (grant_slots P ns w a c v d0 l)) = bd_Action d0" for a c v d0 l
    using grant_slots_effect(13) [of P ns w a c v d0 l] by (metis prod.collapse)
  ultimately have "bd_Action (fst (Admit b now P ns w)) = pol_Action q"
    using assms(1,3) by (auto simp: Admit_def Let_def split: prod.split) (metis fst_conv)+
  then show ?thesis using first_highest_reached(3) [OF assms(6,3,5)] by simp
qed

definition masked_provider :: ModelProvider where
  "masked_provider = sample_provider\<lparr>mp_Spec := (mp_Spec sample_provider)\<lparr>mps_Budget := sample_budget
     \<lparr>bud_Policies := [\<lparr>pol_AtPercent = 90, pol_Action = BudgetActionBlock, pol_DegradeTo = None\<rparr>,
                       \<lparr>pol_AtPercent = 100, pol_Action = BudgetActionWarn, pol_DegradeTo = None\<rparr>]\<rparr>\<rparr>\<rparr>"

theorem block_policy_masked_witness:
  "hardActive masked_provider \<and>
   bd_Action (fst (Admit (Add NewBudgetLedger 0 masked_provider ''team'' ''bot'' 250) 0 masked_provider ''team'' ''bot'')) = BudgetActionWarn"
proof -
  let ?b = "Add NewBudgetLedger 0 masked_provider ''team'' ''bot'' 250"
  let ?q = "\<lparr>pol_AtPercent = 100, pol_Action = BudgetActionWarn, pol_DegradeTo = None\<rparr>"
  have b: "bud_Policies (mp_Budget masked_provider) =
      [\<lparr>pol_AtPercent = 90, pol_Action = BudgetActionBlock, pol_DegradeTo = None\<rparr>, ?q]" by (simp add: masked_provider_def)
  have s: "tracked_scheme (bud_Period (mp_Budget masked_provider))"
    by (simp add: masked_provider_def sample_budget_def tracked_scheme_def)
  have w: "250 = u_worst (utilizationLocked (mp_Budget masked_provider)
      (ledgerFor ?b 0 (mp_Name masked_provider) (bud_Period (mp_Budget masked_provider))) ''team'')"
    by (simp add: kaalm_eval tracked_scheme_def masked_provider_def)
  have "first_highest 250 (bud_Policies (mp_Budget masked_provider)) ?q" unfolding b by (simp add: first_highest_Cons)
  from block_policy_masked [OF s w, of "\<lparr>pol_AtPercent = 90, pol_Action = BudgetActionBlock, pol_DegradeTo = None\<rparr>", OF _ _ _ this]
  show ?thesis by (simp add: b budget_action_defs hardActive_def) (simp add: masked_provider_def sample_budget_def BudgetEnforcementHard_def)
qed

end
