(* ===== verification/Budget_Reducer.thy ===== *)
theory Budget_Reducer
  imports Budget_Cap
begin

text \<open>
  The reconciler's side of the spend exchange (\<^verbatim>\<open>internal/controller/modelprovider_budget.go\<close>
  and \<^verbatim>\<open>modelprovider_agentspend.go\<close>): one pass over the keys of a provider's ConfigMap, the
  retired accumulator, the canonical roll-up and the usage entries of the status. The Kubernetes API
  is a parameter: what the read returned and whether the write failed. The map of live gateway Pods
  is the list of its keys.
\<close>

subsection \<open>One pass over the budget ConfigMap\<close>

datatype 'a apiRead = Found 'a | NotFound | ReadFailed string

record budgetFold =
  bf_current :: "rat gomap"
  bf_retired :: "rat gomap"
  bf_previous :: "rat gomap"
  bf_previousPeriod :: string
  bf_changed :: bool
  bf_retiredChanged :: bool
  bf_marginRaised :: bool

definition empty_fold :: budgetFold where
  "empty_fold = \<lparr>bf_current = [], bf_retired = [], bf_previous = [], bf_previousPeriod = [],
     bf_changed = False, bf_retiredChanged = False, bf_marginRaised = False\<rparr>"

definition archive :: "string \<Rightarrow> rat gomap \<Rightarrow> budgetFold \<Rightarrow> budgetFold" where
  "archive period spend f = f\<lparr>bf_previousPeriod := period, bf_previous := ssum (bf_previous f) spend\<rparr>"

text \<open>The body of the loop: the new fold, and whether the key stays in the ConfigMap.\<close>

definition fold_budget_key :: "string list \<Rightarrow> string \<Rightarrow> string \<Rightarrow> doc \<Rightarrow> budgetFold \<Rightarrow> budgetFold \<times> bool" where
  "fold_budget_key liveGateways currentPeriod k raw f =
     (if k = CanonicalKey then (f, True)
      else if k = RetiredKey then
        (case ParseBudgetPartial raw of
           None \<Rightarrow> (f, True)
         | Some (period, spend, margin) \<Rightarrow>
             if period = currentPeriod then (f\<lparr>bf_retired := ssum (bf_retired f) spend\<rparr>, True)
             else ((archive period spend f)\<lparr>bf_changed := True\<rparr>, False))
      else if k \<notin> set liveGateways then
        (case ParseBudgetPartial raw of
           None \<Rightarrow> (f\<lparr>bf_changed := True\<rparr>, False)
         | Some (period, spend, margin) \<Rightarrow>
             if period = currentPeriod
             then (f\<lparr>bf_retired := ssum (bf_retired f) spend, bf_retiredChanged := True, bf_changed := True\<rparr>, False)
             else ((archive period spend f)\<lparr>bf_changed := True\<rparr>, False))
      else
        (case ParseBudgetPartial raw of
           None \<Rightarrow> (f, True)
         | Some (period, spend, margin) \<Rightarrow>
             if period = currentPeriod
             then (f\<lparr>bf_current := ssum (bf_current f) spend, bf_marginRaised := bf_marginRaised f \<or> margin\<rparr>, True)
             else ((archive period spend f)\<lparr>bf_changed := True\<rparr>, False)))"

fun fold_budget_keys :: "string list \<Rightarrow> string \<Rightarrow> doc gomap \<Rightarrow> budgetFold \<Rightarrow> budgetFold \<times> doc gomap" where
  "fold_budget_keys liveGateways currentPeriod [] f = (f, [])"
| "fold_budget_keys liveGateways currentPeriod ((k, raw) # r) f =
     (let (f', keep) = fold_budget_key liveGateways currentPeriod k raw f;
          (f'', data) = fold_budget_keys liveGateways currentPeriod r f'
      in (f'', if keep then (k, raw) # data else data))"

definition foldBudgetKeys :: "doc gomap \<Rightarrow> string list \<Rightarrow> string \<Rightarrow> budgetFold \<times> doc gomap" where
  "foldBudgetKeys data liveGateways currentPeriod = fold_budget_keys liveGateways currentPeriod data empty_fold"

subsection \<open>Usage entries\<close>

fun usage_state :: "rat \<Rightarrow> ModelProviderBudgetPolicy list \<Rightarrow> string \<Rightarrow> string" where
  "usage_state percent [] st = st"
| "usage_state percent (p # ps) st =
     usage_state percent ps
       (if percent < of_int (pol_AtPercent p) then st
        else if pol_Action p = BudgetActionBlock then BudgetStateBlocked
        else if pol_Action p = BudgetActionDegrade then
          (if st \<noteq> BudgetStateBlocked then BudgetStateThrottled else st)
        else st)"

definition usage_entry :: "ModelProvider \<Rightarrow> rat \<Rightarrow> string \<Rightarrow> string \<Rightarrow> rat \<Rightarrow> ModelProviderBudgetUsage" where
  "usage_entry mp ceil period ns v =
     (let entry = \<lparr>use_Namespace = ns, use_Period = period, use_SpentUSD = FormatFloat2 v,
                   use_PercentUsed = 0, use_State = BudgetStateNormal\<rparr>
      in if ceil > 0 then
           (let percent = v / ceil * 100
            in entry\<lparr>use_PercentUsed := trunc percent,
                     use_State := usage_state percent (bud_Policies (mp_Budget mp)) BudgetStateNormal\<rparr>)
         else entry)"

definition budgetUsageEntries :: "ModelProvider \<Rightarrow> rat gomap \<Rightarrow> string \<Rightarrow> ModelProviderBudgetUsage list" where
  "budgetUsageEntries mp spend period =
     (let ceil = (case ParseFloat (bud_PerNamespaceUSD (mp_Budget mp)) of None \<Rightarrow> 0 | Some c \<Rightarrow> c);
          namespaces = sort (map fst spend)
      in map (\<lambda>ns. usage_entry mp ceil period ns (sget spend ns)) namespaces)"

subsection \<open>The reducers\<close>

text \<open>What a pass does: the ConfigMap it writes back, if any, the margin flag it raises on the
  status, and the usage, cluster total and gauges when it reaches the end; an error ends it early.\<close>

record reducerResult =
  rr_update :: "doc gomap option"
  rr_margin :: "bool option"
  rr_status :: "(ModelProviderBudgetUsage list \<times> string \<times> rat gomap) option"
  rr_error :: "string option"

definition no_effect :: reducerResult where
  "no_effect = \<lparr>rr_update = None, rr_margin = None, rr_status = None, rr_error = None\<rparr>"

definition write_retired :: "bool \<Rightarrow> string \<Rightarrow> rat gomap \<Rightarrow> doc gomap \<Rightarrow> doc gomap" where
  "write_retired retiredChanged currentPeriod retired data =
     (if retiredChanged then mput RetiredKey (MarshalJSON (RetiredPartial currentPeriod retired)) data else data)"

definition canonical_doc :: "rat gomap \<Rightarrow> doc" where
  "canonical_doc current = Marshal_flat (format_spend current)"

definition reconcileBudget ::
  "instant \<Rightarrow> ModelProvider \<Rightarrow> string list \<Rightarrow> doc gomap apiRead \<Rightarrow> string option \<Rightarrow> reducerResult" where
  "reconcileBudget now mp liveGateways cm updateErr =
     (let currentPeriod = PeriodKey (bud_Period (mp_Budget mp)) now
      in if currentPeriod = [] then no_effect
         else (case cm of
             NotFound \<Rightarrow> no_effect
           | ReadFailed e \<Rightarrow> no_effect\<lparr>rr_error := Some e\<rparr>
           | Found data0 \<Rightarrow>
               (let (f, data) = foldBudgetKeys data0 liveGateways currentPeriod;
                    current = ssum (bf_current f) (bf_retired f);
                    data = write_retired (bf_retiredChanged f) currentPeriod (bf_retired f) data;
                    changed = bf_changed f \<or> bf_retiredChanged f;
                    rawCanonical = canonical_doc current;
                    (data, changed) = (if mlookup data CanonicalKey \<noteq> Some rawCanonical
                                       then (mput CanonicalKey rawCanonical data, True) else (data, changed));
                    res = no_effect\<lparr>rr_update := (if changed then Some data else None),
                                    rr_margin := Some (bf_marginRaised f)\<rparr>
                in case (if changed then updateErr else None) of
                     Some e \<Rightarrow> res\<lparr>rr_error := Some e\<rparr>
                   | None \<Rightarrow>
                       (let usage = budgetUsageEntries mp current currentPeriod;
                            usage = (if bf_previousPeriod f \<noteq> []
                                     then usage @ budgetUsageEntries mp (bf_previous f) (bf_previousPeriod f) else usage)
                        in res\<lparr>rr_status := Some (usage, FormatFloat2 (stotal current), current)\<rparr>))))"

text \<open>The agent-spend reducer keeps the current period only and writes no status.\<close>

record spendFold =
  sf_current :: "rat gomap"
  sf_retired :: "rat gomap"
  sf_changed :: bool
  sf_retiredChanged :: bool

definition fold_spend_key :: "string list \<Rightarrow> string \<Rightarrow> string \<Rightarrow> doc \<Rightarrow> spendFold \<Rightarrow> spendFold \<times> bool" where
  "fold_spend_key liveGateways currentPeriod k raw f =
     (let cur = (case ParseBudgetPartial raw of
                   None \<Rightarrow> None | Some (period, spend, _) \<Rightarrow> if period = currentPeriod then Some spend else None)
      in if k = CanonicalKey then (f, True)
         else if k = RetiredKey then
           (case cur of
              Some spend \<Rightarrow> (f\<lparr>sf_retired := ssum (sf_retired f) spend\<rparr>, True)
            | None \<Rightarrow> (f\<lparr>sf_changed := True\<rparr>, False))
         else if k \<notin> set liveGateways then
           (case cur of
              Some spend \<Rightarrow> (f\<lparr>sf_retired := ssum (sf_retired f) spend, sf_retiredChanged := True, sf_changed := True\<rparr>, False)
            | None \<Rightarrow> (f\<lparr>sf_changed := True\<rparr>, False))
         else if ParseBudgetPartial raw = None then (f, True)
         else (case cur of
                 Some spend \<Rightarrow> (f\<lparr>sf_current := ssum (sf_current f) spend\<rparr>, True)
               | None \<Rightarrow> (f\<lparr>sf_changed := True\<rparr>, False)))"

fun fold_spend_keys :: "string list \<Rightarrow> string \<Rightarrow> doc gomap \<Rightarrow> spendFold \<Rightarrow> spendFold \<times> doc gomap" where
  "fold_spend_keys liveGateways currentPeriod [] f = (f, [])"
| "fold_spend_keys liveGateways currentPeriod ((k, raw) # r) f =
     (let (f', keep) = fold_spend_key liveGateways currentPeriod k raw f;
          (f'', data) = fold_spend_keys liveGateways currentPeriod r f'
      in (f'', if keep then (k, raw) # data else data))"

definition reconcileAgentSpend ::
  "instant \<Rightarrow> ModelProvider \<Rightarrow> string list \<Rightarrow> doc gomap apiRead \<Rightarrow> string option \<Rightarrow> reducerResult" where
  "reconcileAgentSpend now mp liveGateways cm updateErr =
     (let currentPeriod = PeriodKey (bud_Period (mp_Budget mp)) now
      in if currentPeriod = [] then no_effect
         else (case cm of
             NotFound \<Rightarrow> no_effect
           | ReadFailed e \<Rightarrow> no_effect\<lparr>rr_error := Some e\<rparr>
           | Found data0 \<Rightarrow>
               (let (f, data) = fold_spend_keys liveGateways currentPeriod data0
                                  \<lparr>sf_current = [], sf_retired = [], sf_changed = False, sf_retiredChanged = False\<rparr>;
                    data = write_retired (sf_retiredChanged f) currentPeriod (sf_retired f) data;
                    changed = sf_changed f \<or> sf_retiredChanged f;
                    rawCanonical = canonical_doc (ssum (sf_current f) (sf_retired f));
                    (data, changed) = (if mlookup data CanonicalKey \<noteq> Some rawCanonical
                                       then (mput CanonicalKey rawCanonical data, True) else (data, changed))
                in no_effect\<lparr>rr_update := (if changed then Some data else None),
                             rr_error := (if changed then updateErr else None)\<rparr>)))"

text \<open>The ConfigMap after a pass whose write succeeds.\<close>

definition written :: "reducerResult \<Rightarrow> doc gomap \<Rightarrow> doc gomap" where
  "written r data = (case rr_update r of None \<Rightarrow> data | Some data' \<Rightarrow> data')"

lemmas [kaalm_eval] = empty_fold_def archive_def fold_budget_key_def foldBudgetKeys_def usage_entry_def
  budgetUsageEntries_def no_effect_def write_retired_def canonical_doc_def reconcileBudget_def fold_spend_key_def
  reconcileAgentSpend_def written_def budget_state_defs

subsection \<open>What a pass has to do\<close>

abbreviation dead_key :: "string list \<Rightarrow> string \<Rightarrow> bool" where
  "dead_key live k \<equiv> k \<noteq> CanonicalKey \<and> k \<noteq> RetiredKey \<and> k \<notin> set live"

abbreviation live_key :: "string list \<Rightarrow> string \<Rightarrow> bool" where
  "live_key live k \<equiv> k \<noteq> CanonicalKey \<and> k \<noteq> RetiredKey \<and> k \<in> set live"

definition is_current :: "string \<Rightarrow> doc \<Rightarrow> bool" where
  "is_current cur raw = (case ParseBudgetPartial raw of None \<Rightarrow> False | Some (p, _, _) \<Rightarrow> p = cur)"

definition key_sum :: "(string \<Rightarrow> bool) \<Rightarrow> string \<Rightarrow> doc gomap \<Rightarrow> string \<Rightarrow> rat" where
  "key_sum Q cur data ns = sum_list (map (\<lambda>(k, raw). if Q k then contribution cur raw ns else 0) data)"

lemma key_sum_Nil [simp]: "key_sum Q cur [] ns = 0"
  by (simp add: key_sum_def)

lemma key_sum_Cons [simp]: "key_sum Q cur ((k, raw) # r) ns = (if Q k then contribution cur raw ns else 0) + key_sum Q cur r ns"
  by (simp add: key_sum_def)

lemma folded_spend_key_sum: "folded_spend cur S data ns = key_sum (\<lambda>k. k \<notin> S) cur data ns"
  unfolding folded_spend_def key_sum_def by (intro arg_cong [where f = sum_list] map_cong) auto

lemma key_sum_mput:
  "wfmap data \<Longrightarrow> key_sum Q cur (mput k raw data) ns =
     key_sum (\<lambda>x. Q x \<and> x \<noteq> k) cur data ns + (if Q k then contribution cur raw ns else 0)"
proof (induction data)
  case (Cons e data)
  obtain k' raw' where e: "e = (k', raw')" by fastforce
  have "wfmap data" "\<not> mhas data k'" using Cons.prems by (auto simp: e wfmap_Cons)
  moreover have "key_sum (\<lambda>x. Q x \<and> x \<noteq> k') cur data ns = key_sum Q cur data ns" if "\<not> mhas data k'"
    using that by (induction data) (auto simp: mhas_Cons)
  ultimately show ?case using Cons.IH by (auto simp: e mput_def)
qed (simp add: mput_def)

lemma contribution_not_current: "\<not> is_current cur raw \<Longrightarrow> contribution cur raw ns = 0"
  by (auto simp: contribution_def is_current_def split: option.splits)

lemma parse_fields_names:
  "parse_fields flat (p0, s0, m0) = (p, s, m) \<Longrightarrow> mhas s k \<Longrightarrow> mhas s0 k \<or> spend_name k"
  by (induction flat "(p0, s0, m0)" arbitrary: p0 s0 m0 rule: parse_fields.induct)
     (fastforce simp: spend_name_def split: if_splits option.splits)+

lemma ParseBudgetPartial_names: "ParseBudgetPartial raw = Some (p, s, m) \<Longrightarrow> mhas s k \<Longrightarrow> spend_name k"
  using parse_fields_names [of _ "[]" "[]" False p s m k] by (auto simp: ParseBudgetPartial_def split: option.splits)

definition doc_has :: "string \<Rightarrow> doc \<Rightarrow> string \<Rightarrow> bool" where
  "doc_has cur raw ns = (case ParseBudgetPartial raw of None \<Rightarrow> False | Some (p, s, _) \<Rightarrow> p = cur \<and> mhas s ns)"

definition key_has :: "(string \<Rightarrow> bool) \<Rightarrow> string \<Rightarrow> doc gomap \<Rightarrow> string \<Rightarrow> bool" where
  "key_has Q cur data ns = list_ex (\<lambda>(k, raw). Q k \<and> doc_has cur raw ns) data"

lemma key_has_Nil [simp]: "\<not> key_has Q cur [] ns"
  by (simp add: key_has_def)

lemma key_has_Cons [simp]: "key_has Q cur ((k, raw) # r) ns \<longleftrightarrow> Q k \<and> doc_has cur raw ns \<or> key_has Q cur r ns"
  by (simp add: key_has_def)

lemma doc_has_current: "doc_has cur raw ns \<Longrightarrow> is_current cur raw"
  by (auto simp: doc_has_def is_current_def split: option.splits)

lemma key_has_mput:
  "wfmap data \<Longrightarrow> key_has Q cur (mput k raw data) ns \<longleftrightarrow>
     key_has (\<lambda>x. Q x \<and> x \<noteq> k) cur data ns \<or> Q k \<and> doc_has cur raw ns"
proof (induction data)
  case (Cons e data)
  obtain k' raw' where e: "e = (k', raw')" by fastforce
  have "wfmap data" "\<not> mhas data k'" using Cons.prems by (auto simp: e wfmap_Cons)
  moreover have "key_has (\<lambda>x. Q x \<and> x \<noteq> k') cur data ns = key_has Q cur data ns" if "\<not> mhas data k'"
    using that by (induction data) (auto simp: mhas_Cons)
  ultimately show ?case using Cons.IH by (auto simp: e mput_def)
qed (simp add: mput_def)

lemma key_has_name: "key_has Q cur data ns \<Longrightarrow> spend_name ns"
  by (auto simp: key_has_def doc_has_def list_ex_iff split: option.splits dest: ParseBudgetPartial_names)

lemma key_sum_cong:
  assumes "\<And>k raw. (k, raw) \<in> set data \<Longrightarrow> is_current cur raw \<Longrightarrow> P k = Q k"
  shows "key_sum P cur data ns = key_sum Q cur data ns"
proof -
  have "(if P k then contribution cur raw ns else 0) = (if Q k then contribution cur raw ns else 0)" if "(k, raw) \<in> set data" for k raw
    using assms [OF that] contribution_not_current by (cases "is_current cur raw") auto
  then show ?thesis unfolding key_sum_def by (intro arg_cong [where f = sum_list] map_cong) auto
qed

lemma key_has_cong:
  assumes "\<And>k raw. (k, raw) \<in> set data \<Longrightarrow> is_current cur raw \<Longrightarrow> P k = Q k"
  shows "key_has P cur data ns = key_has Q cur data ns"
proof -
  have "(P k \<and> doc_has cur raw ns) = (Q k \<and> doc_has cur raw ns)" if "(k, raw) \<in> set data" for k raw
    using assms [OF that] doc_has_current by blast
  then show ?thesis unfolding key_has_def by (intro list_ex_cong) auto
qed

lemma key_sum_disj:
  "(\<And>k. \<not> (P k \<and> Q k)) \<Longrightarrow> key_sum P cur data ns + key_sum Q cur data ns = key_sum (\<lambda>k. P k \<or> Q k) cur data ns"
  by (induction data) (auto simp: algebra_simps)

lemma key_sum_kept:
  "key_sum Q cur (filter (\<lambda>(k, raw). keep k raw) data) ns = key_sum Q cur data ns"
  if "\<And>k raw. (k, raw) \<in> set data \<Longrightarrow> is_current cur raw \<Longrightarrow> Q k \<Longrightarrow> keep k raw"
  using that by (induction data) (auto, metis contribution_not_current)

lemma key_has_kept:
  "key_has Q cur (filter (\<lambda>(k, raw). keep k raw) data) ns = key_has Q cur data ns"
  if "\<And>k raw. (k, raw) \<in> set data \<Longrightarrow> is_current cur raw \<Longrightarrow> Q k \<Longrightarrow> keep k raw"
  using that by (induction data) (auto, metis doc_has_current)

text \<open>What the retired accumulator says once written.\<close>

lemma retired_doc:
  assumes "wfmap r" "\<And>k. mhas r k \<Longrightarrow> spend_name k"
  obtains s where "ParseBudgetPartial (MarshalJSON (RetiredPartial cur r)) = Some (cur, s, False)"
    "\<And>k. mlookup s k = map_option round2 (mlookup r k)"
proof -
  have p: "mlookup r ''period'' = None" "mlookup r marginExceededField = None"
    using assms(2) [of "''period''"] assms(2) [of marginExceededField]
    by (fastforce simp: mhas_def spend_name_def marginExceededField_def HasPrefix_def)+
  obtain s where "ParseBudgetPartial (MarshalJSON (RetiredPartial cur r)) = Some (cur, s, False)"
      and s: "\<And>k. mlookup s k = (if spend_name k then map_option round2 (mlookup r k) else None)"
    using ParseBudgetPartial_MarshalJSON [OF assms(1), of cur False] unfolding RetiredPartial_def by (auto simp: p)
  moreover have "mlookup s k = map_option round2 (mlookup r k)" for k
    using s [of k] assms(2) [of k] by (cases "mlookup r k") (auto simp: mhas_def)
  ultimately show ?thesis using that by blast
qed

lemma retired_contribution:
  assumes "wfmap r" "\<And>k. mhas r k \<Longrightarrow> spend_name k"
  shows "contribution cur (MarshalJSON (RetiredPartial cur r)) ns = round2 (sget r ns)"
proof -
  obtain s where "ParseBudgetPartial (MarshalJSON (RetiredPartial cur r)) = Some (cur, s, False)"
    "\<And>k. mlookup s k = map_option round2 (mlookup r k)" using retired_doc [OF assms, where cur = cur] by metis
  then show ?thesis by (cases "mlookup r ns") (simp_all add: contribution_def mget_def)
qed

text \<open>
  The interface between a reducer's pass and what it leaves behind: \<open>pass\<close> gives the live and the
  retired totals, whether a key was retired, whether a key was dropped, and the keys that stay.
\<close>

locale key_pass =
  fixes live :: "string list" and cur :: string and keep :: "string \<Rightarrow> doc \<Rightarrow> bool"
    and pass :: "doc gomap \<Rightarrow> rat gomap \<times> rat gomap \<times> bool \<times> bool \<times> doc gomap"
  assumes keep_canonical: "keep CanonicalKey raw"
    and drop_dead: "dead_key live k \<Longrightarrow> \<not> keep k raw"
    and keep_current: "is_current cur raw \<Longrightarrow> k \<in> set live \<or> k = RetiredKey \<Longrightarrow> keep k raw"
    and pass_kept: "pass data = (c, r, ch, dropped, kept) \<Longrightarrow> kept = filter (\<lambda>(k, raw). keep k raw) data"
    and pass_sum: "pass data = (c, r, ch, dropped, kept) \<Longrightarrow> sget c ns = key_sum (live_key live) cur data ns \<and>
                   sget r ns = key_sum (\<lambda>k. k = RetiredKey \<or> dead_key live k) cur data ns"
    and pass_has: "pass data = (c, r, ch, dropped, kept) \<Longrightarrow> (mhas c ns \<longleftrightarrow> key_has (live_key live) cur data ns) \<and>
                   (mhas r ns \<longleftrightarrow> key_has (\<lambda>k. k = RetiredKey \<or> dead_key live k) cur data ns)"
    and pass_wf: "pass data = (c, r, ch, dropped, kept) \<Longrightarrow> wfmap c \<and> wfmap r"
    and pass_flags: "pass data = (c, r, ch, dropped, kept) \<Longrightarrow>
                   (ch \<longleftrightarrow> (\<exists>k raw. (k, raw) \<in> set data \<and> dead_key live k \<and> is_current cur raw)) \<and>
                   (dropped \<longleftrightarrow> (\<exists>k raw. (k, raw) \<in> set data \<and> \<not> keep k raw))"

definition finish_pass :: "string \<Rightarrow> rat gomap \<times> rat gomap \<times> bool \<times> bool \<times> doc gomap \<Rightarrow> doc gomap \<times> bool" where
  "finish_pass cur = (\<lambda>(c, r, ch, dropped, kept).
     (let data = write_retired ch cur r kept; raw = canonical_doc (ssum c r)
      in if mlookup data CanonicalKey \<noteq> Some raw then (mput CanonicalKey raw data, True) else (data, dropped \<or> ch)))"

lemma Marshal_flat_cong:
  assumes "wfmap m" "wfmap m'" "\<And>k. mlookup m k = mlookup m' k"
  shows "Marshal_flat m = Marshal_flat m'"
proof -
  have "map_of m = map_of m'" using assms(3) by (intro ext)
  then have "set m = set m'" using assms(1,2) map_of_inject_set [of m m'] by (simp add: wfmap_def)
  moreover have "distinct m" "distinct m'" using assms(1,2) by (auto simp: wfmap_def distinct_map)
  ultimately have "mset m = mset m'" by (simp add: set_eq_iff_mset_eq_distinct)
  moreover have "inj_on fst (set m)" using assms(1) by (simp add: wfmap_def distinct_map)
  ultimately have "sort_key fst m = sort_key fst m'" by (intro sort_key_inj_key_eq) simp_all
  then show ?thesis by (simp add: Marshal_flat_def)
qed

lemma lookup_cong: "(\<And>k. sget m k = sget m' k) \<Longrightarrow> (\<And>k. mhas m k = mhas m' k) \<Longrightarrow> mlookup m k = mlookup m' k"
proof -
  assume e: "\<And>k. sget m k = sget m' k" "\<And>k. mhas m k = mhas m' k"
  show "mlookup m k = mlookup m' k"
    using e(1) [of k] e(2) [of k] by (auto simp: mget_def mhas_def split: option.splits)
qed

context key_pass
begin

lemma wf_kept: "wfmap data \<Longrightarrow> pass data = (c, r, ch, dropped, kept) \<Longrightarrow> wfmap kept"
  using pass_kept [of data c r ch dropped kept] by (simp add: wfmap_filter)

lemma retired_names: "pass data = (c, r, ch, dropped, kept) \<Longrightarrow> mhas r ns \<Longrightarrow> spend_name ns"
  using pass_has key_has_name by blast

lemma canonical_total:
  assumes "pass data = (c, r, ch, dropped, kept)"
  shows "sget (ssum c r) ns = folded_spend cur {CanonicalKey} data ns"
proof -
  have "sget (ssum c r) ns = key_sum (live_key live) cur data ns + key_sum (\<lambda>k. k = RetiredKey \<or> dead_key live k) cur data ns"
    using pass_sum [OF assms] pass_wf [OF assms] by (simp add: sget_ssum)
  also have "\<dots> = key_sum (\<lambda>k. live_key live k \<or> k = RetiredKey \<or> dead_key live k) cur data ns"
    by (rule key_sum_disj) blast
  also have "\<dots> = folded_spend cur {CanonicalKey} data ns"
    unfolding folded_spend_key_sum by (rule key_sum_cong) (auto simp: partial_key_defs)
  finally show ?thesis .
qed

lemma conserves:
  assumes wf: "wfmap data" and pass: "pass data = (c, r, ch, dropped, kept)"
    and cents: "whole_cents (sget r ns)" and own: "live_key live own"
  shows "folded_spend cur {own, CanonicalKey} (fst (finish_pass cur (pass data))) ns = folded_spend cur {own, CanonicalKey} data ns"
proof -
  let ?S = "\<lambda>k. k \<notin> {own, CanonicalKey}"
  have wk: "wfmap kept" "wfmap (write_retired ch cur r kept)" using wf_kept [OF wf pass] by (simp_all add: write_retired_def)
  have fin: "key_sum ?S cur (fst (finish_pass cur (pass data))) ns = key_sum ?S cur (write_retired ch cur r kept) ns"
    using wk(2) by (auto simp: pass finish_pass_def Let_def key_sum_mput intro!: key_sum_cong)
  have kept: "key_sum (\<lambda>k. Q k \<and> \<not> dead_key live k) cur kept ns = key_sum (\<lambda>k. Q k \<and> \<not> dead_key live k) cur data ns" for Q
    unfolding pass_kept [OF pass] by (rule key_sum_kept) (use keep_current keep_canonical in blast)
  have dead: "key_sum Q cur kept ns = key_sum (\<lambda>k. Q k \<and> \<not> dead_key live k) cur kept ns" for Q
    by (rule key_sum_cong) (use drop_dead in \<open>auto simp: pass_kept [OF pass]\<close>)
  show ?thesis unfolding folded_spend_key_sum fin
  proof (cases ch)
    case True
    have "contribution cur (MarshalJSON (RetiredPartial cur r)) ns = sget r ns"
      using retired_contribution [of r cur ns] pass_wf [OF pass] retired_names [OF pass] cents by simp
    moreover have "?S RetiredKey" using own by (auto simp: partial_key_defs)
    ultimately have "key_sum ?S cur (write_retired ch cur r kept) ns
        = key_sum (\<lambda>k. ?S k \<and> k \<noteq> RetiredKey) cur kept ns + key_sum (\<lambda>k. k = RetiredKey \<or> dead_key live k) cur data ns"
      using True wk(1) pass_sum [OF pass] by (simp add: write_retired_def key_sum_mput)
    also have "key_sum (\<lambda>k. ?S k \<and> k \<noteq> RetiredKey) cur kept ns = key_sum (\<lambda>k. (?S k \<and> k \<noteq> RetiredKey) \<and> \<not> dead_key live k) cur data ns"
      unfolding dead [of "\<lambda>k. ?S k \<and> k \<noteq> RetiredKey"] by (rule kept)
    also have "\<dots> + key_sum (\<lambda>k. k = RetiredKey \<or> dead_key live k) cur data ns
        = key_sum (\<lambda>k. ((?S k \<and> k \<noteq> RetiredKey) \<and> \<not> dead_key live k) \<or> k = RetiredKey \<or> dead_key live k) cur data ns"
      by (rule key_sum_disj) blast
    also have "\<dots> = key_sum ?S cur data ns" by (rule key_sum_cong) (use own in \<open>auto simp: partial_key_defs\<close>)
    finally show "key_sum ?S cur (write_retired ch cur r kept) ns = key_sum ?S cur data ns" .
  next
    case False
    then have "key_sum (\<lambda>k. ?S k \<and> \<not> dead_key live k) cur data ns = key_sum ?S cur data ns"
      using pass_flags [OF pass] by (intro key_sum_cong) blast
    then show "key_sum ?S cur (write_retired ch cur r kept) ns = key_sum ?S cur data ns"
      using False dead [of ?S] kept [of ?S] by (simp add: write_retired_def)
  qed
qed

lemma settled_keys:
  assumes wf: "wfmap data" and pass: "pass data = (c, r, ch, dropped, kept)"
  shows "(k, raw) \<in> set (write_retired ch cur r kept) \<Longrightarrow> keep k raw"
proof -
  have "is_current cur (MarshalJSON (RetiredPartial cur r))"
    by (rule retired_doc [of r cur]) (use pass_wf [OF pass] retired_names [OF pass] in \<open>auto simp: is_current_def\<close>)
  then have R: "keep RetiredKey (MarshalJSON (RetiredPartial cur r))" using keep_current by blast
  assume m: "(k, raw) \<in> set (write_retired ch cur r kept)"
  have "wfmap (write_retired ch cur r kept)" using wf_kept [OF wf pass] by (simp add: write_retired_def)
  then have "mlookup (write_retired ch cur r kept) k = Some raw" using m by (simp add: wfmap_def)
  then have "raw = MarshalJSON (RetiredPartial cur r) \<and> k = RetiredKey \<or> (k, raw) \<in> set kept"
    by (auto simp: write_retired_def split: if_splits dest: map_of_SomeD)
  then show "keep k raw" using R by (auto simp: pass_kept [OF pass])
qed

lemma kept_sums:
  assumes wf: "wfmap data" and pass: "pass data = (c, r, ch, dropped, kept)"
    and Q: "\<And>k. Q k \<Longrightarrow> \<not> dead_key live k"
  shows "key_sum Q cur kept ns = key_sum Q cur data ns" "key_has Q cur kept ns = key_has Q cur data ns"
proof -
  have k: "keep k raw" if "is_current cur raw" "Q k" for k raw
    using Q [OF that(2)] keep_canonical keep_current [OF that(1)] by blast
  show "key_sum Q cur kept ns = key_sum Q cur data ns"
    unfolding pass_kept [OF pass] by (rule key_sum_kept) (rule k)
  show "key_has Q cur kept ns = key_has Q cur data ns"
    unfolding pass_kept [OF pass] by (rule key_has_kept) (rule k)
qed

lemma kept_not_dead: "pass data = (c, r, ch, dropped, kept) \<Longrightarrow> (k, raw) \<in> set kept \<Longrightarrow> \<not> dead_key live k"
  using pass_kept drop_dead by fastforce

lemma second_pass_retired:
  assumes wf: "wfmap data" and pass: "pass data = (c, r, ch, dropped, kept)" and cents: "\<And>ns. whole_cents (sget r ns)"
  shows "key_sum (\<lambda>k. k = RetiredKey \<or> dead_key live k) cur (write_retired ch cur r kept) ns = sget r ns"
    and "key_has (\<lambda>k. k = RetiredKey \<or> dead_key live k) cur (write_retired ch cur r kept) ns = mhas r ns"
proof -
  let ?Q = "\<lambda>k. k = RetiredKey \<or> dead_key live k"
  note wk = wf_kept [OF wf pass]
  obtain s where s: "ParseBudgetPartial (MarshalJSON (RetiredPartial cur r)) = Some (cur, s, False)"
    "\<And>k. mlookup s k = map_option round2 (mlookup r k)"
    by (rule retired_doc [of r cur]) (use pass_wf [OF pass] retired_names [OF pass] in auto)
  have d: "contribution cur (MarshalJSON (RetiredPartial cur r)) ns = sget r ns" "doc_has cur (MarshalJSON (RetiredPartial cur r)) ns = mhas r ns"
    using retired_contribution [of r cur ns] pass_wf [OF pass] retired_names [OF pass] cents s
    by (auto simp: doc_has_def mhas_def)
  have none: "key_sum (\<lambda>x. ?Q x \<and> x \<noteq> RetiredKey) cur kept ns = key_sum (\<lambda>x. False) cur kept ns"
    "key_has (\<lambda>x. ?Q x \<and> x \<noteq> RetiredKey) cur kept ns = key_has (\<lambda>x. False) cur kept ns"
    by (rule key_sum_cong key_has_cong, use kept_not_dead [OF pass] in blast)+
  have zero: "key_sum (\<lambda>x. False) cur m ns = 0" "\<not> key_has (\<lambda>x. False) cur m ns" for m by (induction m) auto
  have only: "key_sum ?Q cur m ns = key_sum (\<lambda>k. k = RetiredKey) cur m ns" "key_has ?Q cur m ns = key_has (\<lambda>k. k = RetiredKey) cur m ns"
    if "\<And>k raw. (k, raw) \<in> set m \<Longrightarrow> is_current cur raw \<Longrightarrow> \<not> dead_key live k" for m
    by (rule key_sum_cong key_has_cong, use that in blast)+
  have "key_sum ?Q cur (write_retired ch cur r kept) ns = sget r ns \<and> key_has ?Q cur (write_retired ch cur r kept) ns = mhas r ns"
  proof (cases ch)
    case True
    then show ?thesis using wk d none zero by (simp add: write_retired_def key_sum_mput key_has_mput)
  next
    case False
    then have data: "\<not> dead_key live k" if "(k, raw) \<in> set data" "is_current cur raw" for k raw
      using pass_flags [OF pass] that by blast
    have "sget r ns = key_sum ?Q cur data ns" "mhas r ns = key_has ?Q cur data ns"
      using pass_sum [OF pass] pass_has [OF pass] by simp_all
    then have "sget r ns = key_sum (\<lambda>k. k = RetiredKey) cur kept ns" "mhas r ns = key_has (\<lambda>k. k = RetiredKey) cur kept ns"
      using only [OF data] kept_sums [OF wf pass, of "\<lambda>k. k = RetiredKey"] by simp_all
    then show ?thesis using False only [of kept] kept_not_dead [OF pass] by (simp add: write_retired_def)
  qed
  then show "key_sum ?Q cur (write_retired ch cur r kept) ns = sget r ns"
    and "key_has ?Q cur (write_retired ch cur r kept) ns = mhas r ns" by blast+
qed

lemma second_pass_live:
  assumes wf: "wfmap data" and pass: "pass data = (c, r, ch, dropped, kept)"
  shows "key_sum (live_key live) cur (write_retired ch cur r kept) ns = sget c ns"
    and "key_has (live_key live) cur (write_retired ch cur r kept) ns = mhas c ns"
proof -
  have "key_sum (live_key live) cur kept ns = sget c ns" "key_has (live_key live) cur kept ns = mhas c ns"
    using kept_sums [OF wf pass, of "live_key live"] pass_sum [OF pass] pass_has [OF pass] by simp_all
  moreover have "(\<lambda>x. live_key live x \<and> x \<noteq> RetiredKey) = live_key live" by auto
  ultimately show "key_sum (live_key live) cur (write_retired ch cur r kept) ns = sget c ns"
    and "key_has (live_key live) cur (write_retired ch cur r kept) ns = mhas c ns"
    using wf_kept [OF wf pass] by (simp_all add: write_retired_def key_sum_mput key_has_mput)
qed

lemma second_pass_quiet:
  assumes wf: "wfmap data" and pass: "pass data = (c, r, ch, dropped, kept)" and cents: "\<And>ns. whole_cents (sget r ns)"
  defines "d1 \<equiv> fst (finish_pass cur (pass data))"
  shows "finish_pass cur (pass d1) = (d1, False)"
proof -
  let ?D = "write_retired ch cur r kept" and ?raw = "canonical_doc (ssum c r)"
  have wfD: "wfmap ?D" using wf_kept [OF wf pass] by (simp add: write_retired_def)
  have d1: "d1 = ?D \<and> mlookup ?D CanonicalKey = Some ?raw \<or> d1 = mput CanonicalKey ?raw ?D"
    by (auto simp: d1_def pass finish_pass_def Let_def)
  have wf1: "wfmap d1" and canon: "mlookup d1 CanonicalKey = Some ?raw" using d1 wfD by auto
  have keep1: "keep k raw" if "(k, raw) \<in> set d1" for k raw
  proof -
    have "mlookup d1 k = Some raw" using that wf1 by (simp add: wfmap_def)
    then have "k = CanonicalKey \<or> (k, raw) \<in> set ?D" using d1 by (auto split: if_splits dest: map_of_SomeD)
    then show ?thesis using keep_canonical settled_keys [OF wf pass] by blast
  qed
  obtain c1 r1 ch1 dr1 kept1 where p1: "pass d1 = (c1, r1, ch1, dr1, kept1)" by (metis prod_cases5)
  have flags: "\<not> ch1" "\<not> dr1" using pass_flags [OF p1] keep1 drop_dead by blast+
  have kept1: "kept1 = d1" using pass_kept [OF p1] keep1 by (auto intro: filter_True)
  have Q: "key_sum Q cur d1 ns = key_sum Q cur ?D ns" "key_has Q cur d1 ns = key_has Q cur ?D ns" if "\<not> Q CanonicalKey" for Q ns
  proof -
    have e: "(\<lambda>x. Q x \<and> x \<noteq> CanonicalKey) = Q" using that by auto
    show "key_sum Q cur d1 ns = key_sum Q cur ?D ns" "key_has Q cur d1 ns = key_has Q cur ?D ns"
      using d1 wfD that e by (auto simp: key_sum_mput key_has_mput)
  qed
  have R: "CanonicalKey \<noteq> RetiredKey" by (simp add: partial_key_defs)
  have "sget c1 ns = sget c ns \<and> mhas c1 ns = mhas c ns" "sget r1 ns = sget r ns \<and> mhas r1 ns = mhas r ns" for ns
    using pass_sum [OF p1] pass_has [OF p1] Q [of "live_key live"] Q [of "\<lambda>k. k = RetiredKey \<or> dead_key live k"] R
      second_pass_live [OF wf pass] second_pass_retired [OF wf pass cents] by simp_all
  then have "mlookup (ssum c1 r1) k = mlookup (ssum c r) k" for k
    using pass_wf [OF p1] pass_wf [OF pass] by (intro lookup_cong) (simp_all add: sget_ssum)
  then have "canonical_doc (ssum c1 r1) = ?raw" unfolding canonical_doc_def
    using pass_wf [OF p1] pass_wf [OF pass] by (intro Marshal_flat_cong) simp_all
  then show ?thesis using canon flags kept1 by (simp add: p1 finish_pass_def write_retired_def Let_def)
qed

end

subsection \<open>Both reducers are such passes\<close>

text \<open>A loop over the keys whose body updates the two totals and the two flags key by key is a pass.\<close>

locale key_loop =
  fixes live :: "string list" and cur :: string and keep :: "string \<Rightarrow> doc \<Rightarrow> bool"
    and body :: "string \<Rightarrow> doc \<Rightarrow> 's \<Rightarrow> 's \<times> bool" and loop :: "doc gomap \<Rightarrow> 's \<Rightarrow> 's \<times> doc gomap" and init :: 's
    and cur_of ret_of :: "'s \<Rightarrow> rat gomap" and rch_of drop_of :: "'s \<Rightarrow> bool"
  assumes k_canonical: "keep CanonicalKey raw"
    and k_dead: "dead_key live k \<Longrightarrow> \<not> keep k raw"
    and k_current: "is_current cur raw \<Longrightarrow> k \<in> set live \<or> k = RetiredKey \<Longrightarrow> keep k raw"
    and loop_Nil: "loop [] s = (s, [])"
    and loop_Cons: "loop ((k, raw) # r) s =
      (let (s', kp) = body k raw s; (s'', d) = loop r s' in (s'', if kp then (k, raw) # d else d))"
    and init: "cur_of init = []" "ret_of init = []" "\<not> rch_of init" "\<not> drop_of init"
    and body_keep: "body k raw s = (s', kp) \<Longrightarrow> kp = keep k raw"
    and body_wf: "body k raw s = (s', kp) \<Longrightarrow> wfmap (cur_of s) \<and> wfmap (ret_of s) \<Longrightarrow> wfmap (cur_of s') \<and> wfmap (ret_of s')"
    and body_sum: "body k raw s = (s', kp) \<Longrightarrow>
      sget (cur_of s') ns = sget (cur_of s) ns + (if live_key live k then contribution cur raw ns else 0) \<and>
      sget (ret_of s') ns = sget (ret_of s) ns + (if k = RetiredKey \<or> dead_key live k then contribution cur raw ns else 0)"
    and body_has: "body k raw s = (s', kp) \<Longrightarrow>
      (mhas (cur_of s') ns \<longleftrightarrow> mhas (cur_of s) ns \<or> live_key live k \<and> doc_has cur raw ns) \<and>
      (mhas (ret_of s') ns \<longleftrightarrow> mhas (ret_of s) ns \<or> (k = RetiredKey \<or> dead_key live k) \<and> doc_has cur raw ns)"
    and body_flags: "body k raw s = (s', kp) \<Longrightarrow>
      (rch_of s' \<longleftrightarrow> rch_of s \<or> dead_key live k \<and> is_current cur raw) \<and> (drop_of s' \<longleftrightarrow> drop_of s \<or> \<not> keep k raw)"
begin

lemma loop_unfold:
  assumes "loop ((k, raw) # r) s = (s'', d)"
  obtains s' d' where "body k raw s = (s', keep k raw)" "loop r s' = (s'', d')" "d = (if keep k raw then (k, raw) # d' else d')"
proof -
  obtain s' kp where b: "body k raw s = (s', kp)" by fastforce
  obtain s2 d' where l: "loop r s' = (s2, d')" by fastforce
  have "s2 = s''" "d = (if kp then (k, raw) # d' else d')" using assms by (simp_all add: loop_Cons b l)
  then show ?thesis using that b l body_keep [OF b] by blast
qed

lemma loop_kept: "loop data s = (s', kept) \<Longrightarrow> kept = filter (\<lambda>(k, raw). keep k raw) data"
proof (induction data arbitrary: s kept)
  case (Cons e data)
  obtain k raw where e: "e = (k, raw)" by fastforce
  from Cons.prems [unfolded e] show ?case by (rule loop_unfold) (use Cons.IH in \<open>auto simp: e\<close>)
qed (simp add: loop_Nil)

lemma loop_wf: "loop data s = (s', kept) \<Longrightarrow> wfmap (cur_of s) \<and> wfmap (ret_of s) \<Longrightarrow> wfmap (cur_of s') \<and> wfmap (ret_of s')"
proof (induction data arbitrary: s kept)
  case (Cons e data)
  obtain k raw where e: "e = (k, raw)" by fastforce
  from Cons.prems(1) [unfolded e] show ?case by (rule loop_unfold) (use Cons.IH Cons.prems(2) body_wf in blast)
qed (simp add: loop_Nil)

lemma loop_sum:
  "loop data s = (s', kept) \<Longrightarrow> sget (cur_of s') ns = sget (cur_of s) ns + key_sum (live_key live) cur data ns \<and>
     sget (ret_of s') ns = sget (ret_of s) ns + key_sum (\<lambda>k. k = RetiredKey \<or> dead_key live k) cur data ns"
proof (induction data arbitrary: s kept)
  case (Cons e data)
  obtain k raw where e: "e = (k, raw)" by fastforce
  from Cons.prems [unfolded e] show ?case
  proof (rule loop_unfold)
    fix s1 d' assume s1: "body k raw s = (s1, keep k raw)" and l: "loop data s1 = (s', d')"
    show ?thesis using Cons.IH [OF l] body_sum [OF s1, of ns] by (simp add: e)
  qed
qed (simp add: loop_Nil)

lemma loop_has:
  "loop data s = (s', kept) \<Longrightarrow> (mhas (cur_of s') ns \<longleftrightarrow> mhas (cur_of s) ns \<or> key_has (live_key live) cur data ns) \<and>
     (mhas (ret_of s') ns \<longleftrightarrow> mhas (ret_of s) ns \<or> key_has (\<lambda>k. k = RetiredKey \<or> dead_key live k) cur data ns)"
proof (induction data arbitrary: s kept)
  case (Cons e data)
  obtain k raw where e: "e = (k, raw)" by fastforce
  from Cons.prems [unfolded e] show ?case
  proof (rule loop_unfold)
    fix s1 d' assume s1: "body k raw s = (s1, keep k raw)" and l: "loop data s1 = (s', d')"
    show ?thesis using Cons.IH [OF l] body_has [OF s1, of ns] by (simp add: e disj_assoc)
  qed
qed (simp add: loop_Nil)

lemma loop_flags:
  "loop data s = (s', kept) \<Longrightarrow> (rch_of s' \<longleftrightarrow> rch_of s \<or> (\<exists>k raw. (k, raw) \<in> set data \<and> dead_key live k \<and> is_current cur raw)) \<and>
     (drop_of s' \<longleftrightarrow> drop_of s \<or> (\<exists>k raw. (k, raw) \<in> set data \<and> \<not> keep k raw))"
proof (induction data arbitrary: s kept)
  case (Cons e data)
  obtain k raw where e: "e = (k, raw)" by fastforce
  from Cons.prems [unfolded e] show ?case
  proof (rule loop_unfold)
    fix s1 d' assume s1: "body k raw s = (s1, keep k raw)" and l: "loop data s1 = (s', d')"
    have "rch_of s' \<longleftrightarrow> rch_of s1 \<or> (\<exists>k raw. (k, raw) \<in> set data \<and> dead_key live k \<and> is_current cur raw)"
      "drop_of s' \<longleftrightarrow> drop_of s1 \<or> (\<exists>k raw. (k, raw) \<in> set data \<and> \<not> keep k raw)" using Cons.IH [OF l] by blast+
    then show ?thesis using body_flags [OF s1] by (simp add: e) blast
  qed
qed (simp add: loop_Nil)

end

sublocale key_loop \<subseteq> key_pass live cur keep
  "\<lambda>data. case loop data init of (s, kept) \<Rightarrow> (cur_of s, ret_of s, rch_of s, drop_of s, kept)"
proof unfold_locales
  fix data c r ch dropped kept ns
  assume "(case loop data init of (s, kept) \<Rightarrow> (cur_of s, ret_of s, rch_of s, drop_of s, kept)) = (c, r, ch, dropped, kept)"
  then obtain s where s: "loop data init = (s, kept)" "c = cur_of s" "r = ret_of s" "ch = rch_of s" "dropped = drop_of s"
    by (auto split: prod.splits)
  show "kept = filter (\<lambda>(k, raw). keep k raw) data" by (rule loop_kept [OF s(1)])
  show "sget c ns = key_sum (live_key live) cur data ns \<and> sget r ns = key_sum (\<lambda>k. k = RetiredKey \<or> dead_key live k) cur data ns"
    using loop_sum [OF s(1)] by (simp add: s init)
  show "(mhas c ns \<longleftrightarrow> key_has (live_key live) cur data ns) \<and>
        (mhas r ns \<longleftrightarrow> key_has (\<lambda>k. k = RetiredKey \<or> dead_key live k) cur data ns)"
    using loop_has [OF s(1)] by (simp add: s init)
  show "wfmap c \<and> wfmap r" using loop_wf [OF s(1)] by (simp add: s init)
  show "(ch \<longleftrightarrow> (\<exists>k raw. (k, raw) \<in> set data \<and> dead_key live k \<and> is_current cur raw)) \<and>
        (dropped \<longleftrightarrow> (\<exists>k raw. (k, raw) \<in> set data \<and> \<not> keep k raw))"
    using loop_flags [OF s(1)] by (simp add: s init)
qed (use k_canonical k_dead k_current in blast)+

definition budget_keep :: "string list \<Rightarrow> string \<Rightarrow> string \<Rightarrow> doc \<Rightarrow> bool" where
  "budget_keep live cur k raw \<longleftrightarrow> k = CanonicalKey \<or>
     (k = RetiredKey \<or> k \<in> set live) \<and> (ParseBudgetPartial raw = None \<or> is_current cur raw)"

definition spend_keep :: "string list \<Rightarrow> string \<Rightarrow> string \<Rightarrow> doc \<Rightarrow> bool" where
  "spend_keep live cur k raw \<longleftrightarrow> k = CanonicalKey \<or>
     (if k = RetiredKey then is_current cur raw
      else k \<in> set live \<and> (ParseBudgetPartial raw = None \<or> is_current cur raw))"

lemma reserved_keys_differ: "RetiredKey \<noteq> CanonicalKey" "CanonicalKey \<noteq> RetiredKey"
  by (simp_all add: partial_key_defs)

lemmas reducer_defs = archive_def contribution_def doc_has_def is_current_def budget_keep_def spend_keep_def

interpretation budget_reducer: key_loop live cur "budget_keep live cur" "fold_budget_key live cur" "fold_budget_keys live cur"
    empty_fold bf_current bf_retired bf_retiredChanged bf_changed for live cur
proof unfold_locales
  fix k raw f f' kp ns
  assume b: "fold_budget_key live cur k raw f = (f', kp)"
  have w: "ParseBudgetPartial raw = Some (p, s, m) \<Longrightarrow> wfmap s" for p s m by (rule wfmap_ParseBudgetPartial)
  note b' = b [unfolded fold_budget_key_def]
  show "kp = budget_keep live cur k raw"
    using b' reserved_keys_differ by (auto simp: reducer_defs split: if_splits option.splits)
  show "wfmap (bf_current f') \<and> wfmap (bf_retired f')" if "wfmap (bf_current f) \<and> wfmap (bf_retired f)"
    using b' that by (auto simp: reducer_defs split: if_splits option.splits)
  show "sget (bf_current f') ns = sget (bf_current f) ns + (if live_key live k then contribution cur raw ns else 0) \<and>
      sget (bf_retired f') ns = sget (bf_retired f) ns + (if k = RetiredKey \<or> dead_key live k then contribution cur raw ns else 0)"
    using b' reserved_keys_differ w by (auto simp: reducer_defs sget_ssum split: if_splits option.splits)
  show "(mhas (bf_current f') ns \<longleftrightarrow> mhas (bf_current f) ns \<or> live_key live k \<and> doc_has cur raw ns) \<and>
      (mhas (bf_retired f') ns \<longleftrightarrow> mhas (bf_retired f) ns \<or> (k = RetiredKey \<or> dead_key live k) \<and> doc_has cur raw ns)"
    using b' reserved_keys_differ by (auto simp: reducer_defs split: if_splits option.splits)
  show "(bf_retiredChanged f' \<longleftrightarrow> bf_retiredChanged f \<or> dead_key live k \<and> is_current cur raw) \<and>
      (bf_changed f' \<longleftrightarrow> bf_changed f \<or> \<not> budget_keep live cur k raw)"
    using b' reserved_keys_differ by (auto simp: reducer_defs split: if_splits option.splits)
qed (auto simp: budget_keep_def empty_fold_def)

definition empty_spend_fold :: spendFold where
  "empty_spend_fold = \<lparr>sf_current = [], sf_retired = [], sf_changed = False, sf_retiredChanged = False\<rparr>"

interpretation spend_reducer: key_loop live cur "spend_keep live cur" "fold_spend_key live cur" "fold_spend_keys live cur"
    empty_spend_fold sf_current sf_retired sf_retiredChanged sf_changed for live cur
proof unfold_locales
  fix k raw f f' kp ns
  assume b: "fold_spend_key live cur k raw f = (f', kp)"
  have w: "ParseBudgetPartial raw = Some (p, s, m) \<Longrightarrow> wfmap s" for p s m by (rule wfmap_ParseBudgetPartial)
  note b' = b [unfolded fold_spend_key_def Let_def]
  show "kp = spend_keep live cur k raw"
    using b' reserved_keys_differ by (auto simp: reducer_defs split: if_splits option.splits)
  show "wfmap (sf_current f') \<and> wfmap (sf_retired f')" if "wfmap (sf_current f) \<and> wfmap (sf_retired f)"
    using b' that by (auto simp: reducer_defs split: if_splits option.splits)
  show "sget (sf_current f') ns = sget (sf_current f) ns + (if live_key live k then contribution cur raw ns else 0) \<and>
      sget (sf_retired f') ns = sget (sf_retired f) ns + (if k = RetiredKey \<or> dead_key live k then contribution cur raw ns else 0)"
    using b' reserved_keys_differ w by (auto simp: reducer_defs sget_ssum split: if_splits option.splits)
  show "(mhas (sf_current f') ns \<longleftrightarrow> mhas (sf_current f) ns \<or> live_key live k \<and> doc_has cur raw ns) \<and>
      (mhas (sf_retired f') ns \<longleftrightarrow> mhas (sf_retired f) ns \<or> (k = RetiredKey \<or> dead_key live k) \<and> doc_has cur raw ns)"
    using b' reserved_keys_differ by (auto simp: reducer_defs split: if_splits option.splits)
  show "(sf_retiredChanged f' \<longleftrightarrow> sf_retiredChanged f \<or> dead_key live k \<and> is_current cur raw) \<and>
      (sf_changed f' \<longleftrightarrow> sf_changed f \<or> \<not> spend_keep live cur k raw)"
    using b' reserved_keys_differ by (auto simp: reducer_defs split: if_splits option.splits)
qed (auto simp: spend_keep_def empty_spend_fold_def)

abbreviation budget_pass :: "string list \<Rightarrow> string \<Rightarrow> doc gomap \<Rightarrow> rat gomap \<times> rat gomap \<times> bool \<times> bool \<times> doc gomap" where
  "budget_pass live cur data \<equiv>
     (case fold_budget_keys live cur data empty_fold of (f, kept) \<Rightarrow> (bf_current f, bf_retired f, bf_retiredChanged f, bf_changed f, kept))"

abbreviation spend_pass :: "string list \<Rightarrow> string \<Rightarrow> doc gomap \<Rightarrow> rat gomap \<times> rat gomap \<times> bool \<times> bool \<times> doc gomap" where
  "spend_pass live cur data \<equiv>
     (case fold_spend_keys live cur data empty_spend_fold of (f, kept) \<Rightarrow> (sf_current f, sf_retired f, sf_retiredChanged f, sf_changed f, kept))"

lemma reconcileBudget_update:
  assumes "tracked_scheme (bud_Period (mp_Budget mp))" "cur = PeriodKey (bud_Period (mp_Budget mp)) now"
  shows "rr_update (reconcileBudget now mp live (Found data) e) =
     (if snd (finish_pass cur (budget_pass live cur data)) then Some (fst (finish_pass cur (budget_pass live cur data))) else None)"
proof -
  obtain f kept where f: "fold_budget_keys live cur data empty_fold = (f, kept)" by fastforce
  have "cur \<noteq> []" using assms by simp
  then show ?thesis
    by (simp add: reconcileBudget_def assms(2) [symmetric] foldBudgetKeys_def f finish_pass_def no_effect_def Let_def split: option.split)
qed

lemma reconcileAgentSpend_update:
  assumes "tracked_scheme (bud_Period (mp_Budget mp))" "cur = PeriodKey (bud_Period (mp_Budget mp)) now"
  shows "rr_update (reconcileAgentSpend now mp live (Found data) e) =
     (if snd (finish_pass cur (spend_pass live cur data)) then Some (fst (finish_pass cur (spend_pass live cur data))) else None)"
proof -
  obtain f kept where f: "fold_spend_keys live cur data empty_spend_fold = (f, kept)" by fastforce
  have "cur \<noteq> []" using assms by simp
  then show ?thesis
    by (simp add: reconcileAgentSpend_def assms(2) [symmetric] f [unfolded empty_spend_fold_def] f finish_pass_def no_effect_def Let_def)
qed

text \<open>Partials carry two decimals, so the figures of a ConfigMap are whole cents.\<close>

definition cents_only :: "string \<Rightarrow> doc gomap \<Rightarrow> string \<Rightarrow> bool" where
  "cents_only cur data ns = list_all (\<lambda>(k, raw). whole_cents (contribution cur raw ns)) data"

lemma whole_cents_key_sum: "cents_only cur data ns \<Longrightarrow> whole_cents (key_sum Q cur data ns)"
  by (induction data) (auto simp: cents_only_def intro: whole_cents_add)

context key_pass
begin

text \<open>A pass that changes nothing leaves what \<open>finish_pass\<close> computes.\<close>

lemma unchanged: "\<not> snd (finish_pass cur (pass data)) \<Longrightarrow> fst (finish_pass cur (pass data)) = data"
proof -
  obtain c r ch dropped kept where p: "pass data = (c, r, ch, dropped, kept)" by (metis prod_cases5)
  assume "\<not> snd (finish_pass cur (pass data))"
  then have "\<not> dropped" "\<not> ch" "fst (finish_pass cur (pass data)) = kept"
    by (auto simp: p finish_pass_def write_retired_def Let_def split: if_splits)
  moreover have "kept = data" using pass_kept [OF p] pass_flags [OF p] \<open>\<not> dropped\<close> by (auto intro: filter_True)
  ultimately show ?thesis by simp
qed

lemma whole_retired:
  "pass data = (c, r, ch, dropped, kept) \<Longrightarrow>
   cents_only cur data ns \<Longrightarrow> whole_cents (sget r ns)"
  using pass_sum by (simp add: whole_cents_key_sum)

lemma view_kept:
  assumes "wfmap data" "live_key live own" "cents_only cur data ns"
  shows "folded_spend cur {own, CanonicalKey} (fst (finish_pass cur (pass data))) ns = folded_spend cur {own, CanonicalKey} data ns"
proof -
  obtain c r ch dropped kept where p: "pass data = (c, r, ch, dropped, kept)" by (metis prod_cases5)
  show ?thesis by (rule conserves [OF assms(1) p whole_retired [OF p assms(3)] assms(2)])
qed

lemma quiet_after:
  assumes "wfmap data" "\<And>ns. cents_only cur data ns"
  shows "finish_pass cur (pass (fst (finish_pass cur (pass data)))) = (fst (finish_pass cur (pass data)), False)"
proof -
  obtain c r ch dropped kept where p: "pass data = (c, r, ch, dropped, kept)" by (metis prod_cases5)
  show ?thesis by (rule second_pass_quiet [OF assms(1) p whole_retired [OF p assms(2)]])
qed

end

lemma written_finish:
  assumes "rr_update res = (if snd (finish_pass cur p) then Some (fst (finish_pass cur p)) else None)"
    and "\<not> snd (finish_pass cur p) \<Longrightarrow> fst (finish_pass cur p) = data"
  shows "written res data = fst (finish_pass cur p)"
  using assms by (auto simp: written_def)

lemma written_reconcileBudget:
  assumes "tracked_scheme (bud_Period (mp_Budget mp))" "cur = PeriodKey (bud_Period (mp_Budget mp)) now"
  shows "written (reconcileBudget now mp live (Found data) e) data = fst (finish_pass cur (budget_pass live cur data))"
  using reconcileBudget_update [OF assms] budget_reducer.unchanged by (rule written_finish)

lemma written_reconcileAgentSpend:
  assumes "tracked_scheme (bud_Period (mp_Budget mp))" "cur = PeriodKey (bud_Period (mp_Budget mp)) now"
  shows "written (reconcileAgentSpend now mp live (Found data) e) data = fst (finish_pass cur (spend_pass live cur data))"
  using reconcileAgentSpend_update [OF assms] spend_reducer.unchanged by (rule written_finish)

text \<open>
  Property C4. Pruning loses no spend. When the reducers drop the keys of gateway Pods that are gone and
  fold them into the retired accumulator, what any live replica computes from the ConfigMap for the
  current period stays the same, namespace by namespace and workload by workload; the figures are
  whole cents, as published partials always are.
\<close>

theorem reducers_conserve_view:
  assumes "tracked_scheme (bud_Period (mp_Budget mp))" and "cur = PeriodKey (bud_Period (mp_Budget mp)) now"
    and "wfmap data" and "live_key live own" and "cents_only cur data ns"
  shows "sget (FoldPartials (written (reconcileBudget now mp live (Found data) None) data) own cur) ns
           = sget (FoldPartials data own cur) ns \<and>
         sget (FoldPartials (written (reconcileAgentSpend now mp live (Found data) None) data) own cur) ns
           = sget (FoldPartials data own cur) ns"
  using budget_reducer.view_kept [OF assms(3-5)] spend_reducer.view_kept [OF assms(3-5)]
  by (simp add: FoldPartials_def fold_partials_sget written_reconcileBudget [OF assms(1,2)] written_reconcileAgentSpend [OF assms(1,2)])

definition sample_cm :: "doc gomap" where
  "sample_cm = [(''gw-0'', Some (JObj [(''period'', JStr (PeriodKey ''daily'' 0)), (''team'', JStr ''1.25'')])),
                (''gw-old'', Some (JObj [(''period'', JStr (PeriodKey ''daily'' 0)), (''team'', JStr ''2.50'')]))]"

lemma sample_cm_cents: "cents_only (PeriodKey ''daily'' 0) sample_cm ns"
proof -
  have p: "parse_fields [(''period'', q), (''team'', v)] st =
      (case st of (_, sp, m) \<Rightarrow> (q, (case ParseFloat v of None \<Rightarrow> sp | Some f \<Rightarrow> mput ''team'' f sp), m))" for q v st
    by (cases st) (simp add: HasPrefix_def split: option.split)
  have "whole_cents (5 / 4)" "whole_cents (5 / 2)" unfolding whole_cents_iff
    by (rule exI [of _ 125], simp) (rule exI [of _ 250], simp)
  then show ?thesis
    by (auto simp: cents_only_def sample_cm_def contribution_def ParseBudgetPartial_def Unmarshal_flat_def p kaalm_eval)
qed

theorem reducers_conserve_view_witness:
  "sget (FoldPartials (written (reconcileBudget 0 sample_provider [''gw-0''] (Found sample_cm) None) sample_cm) ''gw-0'' (PeriodKey ''daily'' 0)) ''team''
   = sget (FoldPartials sample_cm ''gw-0'' (PeriodKey ''daily'' 0)) ''team''"
  by (rule reducers_conserve_view [THEN conjunct1])
     (simp_all add: sample_hard sample_cm_cents, simp_all add: sample_cm_def wfmap_def partial_key_defs)

text \<open>
  Property C19. The reducers settle: on the ConfigMap a pass leaves behind, with the same live Pods and in
  the same period, a further pass writes nothing, so a write does not trigger the next one forever.
\<close>

theorem reducers_settle:
  assumes "tracked_scheme (bud_Period (mp_Budget mp))" and "cur = PeriodKey (bud_Period (mp_Budget mp)) now"
    and "PeriodKey (bud_Period (mp_Budget mp)) later = cur"
    and "wfmap data" and "\<And>ns. cents_only cur data ns"
  shows "rr_update (reconcileBudget later mp live (Found (written (reconcileBudget now mp live (Found data) None) data)) e) = None \<and>
         rr_update (reconcileAgentSpend later mp live (Found (written (reconcileAgentSpend now mp live (Found data) None) data)) e) = None"
  using budget_reducer.quiet_after [OF assms(4,5)] spend_reducer.quiet_after [OF assms(4,5)]
  by (simp add: written_reconcileBudget [OF assms(1,2)] written_reconcileAgentSpend [OF assms(1,2)]
      reconcileBudget_update [OF assms(1) assms(3) [symmetric]] reconcileAgentSpend_update [OF assms(1) assms(3) [symmetric]])

theorem reducers_settle_witness:
  "rr_update (reconcileBudget 9 sample_provider [''gw-0''] (Found (written (reconcileBudget 0 sample_provider [''gw-0''] (Found sample_cm) None) sample_cm)) None) = None"
  by (rule reducers_settle [of sample_provider "PeriodKey ''daily'' 0", THEN conjunct1])
     (simp_all add: sample_hard sample_cm_cents, simp_all add: sample_cm_def wfmap_def PeriodKey_def day_number_def duration_defs)

subsection \<open>The status\<close>

lemma usage_state_blocked:
  "usage_state pct ps st = BudgetStateBlocked \<longleftrightarrow>
     st = BudgetStateBlocked \<or> (\<exists>p\<in>set ps. pol_Action p = BudgetActionBlock \<and> reached pct p)"
  by (induction pct ps st rule: usage_state.induct) (auto simp: budget_action_defs budget_state_defs not_less)

lemma worst_without_cluster:
  "bud_ClusterUSD budget = None \<Longrightarrow> 0 < ns_ceiling budget \<Longrightarrow>
   u_worst (utilizationLocked budget l ns) = spent l ns / ns_ceiling budget * 100"
  by (auto simp: utilizationLocked_def ns_ceiling_def Let_def split: option.splits)



text \<open>The archived usage of an earlier period lives for one pass only.\<close>

lemma no_archive:
  "fold_budget_keys live cur data f = (f', kept) \<Longrightarrow> (\<And>k raw. (k, raw) \<in> set data \<Longrightarrow> budget_keep live cur k raw) \<Longrightarrow>
   bf_previousPeriod f' = bf_previousPeriod f"
proof (induction data arbitrary: f kept)
  case (Cons e data)
  obtain k raw where e: "e = (k, raw)" by fastforce
  obtain f1 kp where b: "fold_budget_key live cur k raw f = (f1, kp)" by fastforce
  obtain f2 d where l: "fold_budget_keys live cur data f1 = (f2, d)" by fastforce
  have "budget_keep live cur k raw" using Cons.prems(2) by (simp add: e)
  then have "bf_previousPeriod f1 = bf_previousPeriod f"
    using b by (auto simp: fold_budget_key_def reducer_defs split: if_splits option.splits)
  then show ?case using Cons.IH [of f1 d] Cons.prems l by (auto simp: e b)
qed simp

lemma usage_period: "u \<in> set (budgetUsageEntries mp spend period) \<Longrightarrow> use_Period u = period"
  by (auto simp: budgetUsageEntries_def usage_entry_def Let_def)

text \<open>
  Archived usage does not survive: the pass that meets stale-period keys reports them in the
  status and deletes them, and the next pass in the same period reports current-period entries only,
  although the status is documented to keep the archived totals alongside.
\<close>

theorem archived_usage_lost:
  assumes "tracked_scheme (bud_Period (mp_Budget mp))" and "cur = PeriodKey (bud_Period (mp_Budget mp)) now"
    and "PeriodKey (bud_Period (mp_Budget mp)) later = cur"
    and "wfmap data" and "\<And>ns. cents_only cur data ns"
  shows "\<exists>usage total gauges. rr_status (reconcileBudget later mp live
            (Found (written (reconcileBudget now mp live (Found data) None) data)) None) = Some (usage, total, gauges) \<and>
           (\<forall>u\<in>set usage. use_Period u = cur)"
proof -
  define d1 where "d1 = written (reconcileBudget now mp live (Found data) None) data"
  have d1: "d1 = fst (finish_pass cur (budget_pass live cur data))" unfolding d1_def by (rule written_reconcileBudget [OF assms(1,2)])
  obtain f kept where f: "fold_budget_keys live cur d1 empty_fold = (f, kept)" by fastforce
  have "finish_pass cur (budget_pass live cur d1) = (d1, False)"
    unfolding d1 by (rule budget_reducer.quiet_after [OF assms(4,5)])
  then have "\<not> bf_changed f" by (auto simp: f finish_pass_def Let_def split: if_splits)
  then have "budget_keep live cur k raw" if "(k, raw) \<in> set d1" for k raw
    using budget_reducer.pass_flags [of live cur d1 "bf_current f" "bf_retired f" "bf_retiredChanged f" "bf_changed f" kept] f that by auto
  then have prev: "bf_previousPeriod f = []" using no_archive [OF f] by (simp add: empty_fold_def)
  have cur: "cur \<noteq> []" using assms(1,2) by simp
  then show ?thesis unfolding d1_def [symmetric]
    by (simp add: reconcileBudget_def assms(3) foldBudgetKeys_def f prev usage_period Let_def split: prod.split option.split)
qed

theorem archived_usage_lost_witness:
  "\<exists>usage total gauges. rr_status (reconcileBudget 9 sample_provider [''gw-0'']
      (Found (written (reconcileBudget 0 sample_provider [''gw-0''] (Found sample_cm) None) sample_cm)) None) = Some (usage, total, gauges) \<and>
     (\<forall>u\<in>set usage. use_Period u = PeriodKey ''daily'' 0)"
  by (rule archived_usage_lost)
     (simp_all add: sample_hard sample_cm_cents, simp_all add: sample_cm_def wfmap_def PeriodKey_def day_number_def duration_defs)

end
