(* ===== verification/Rate_Limiter.thy ===== *)
theory Rate_Limiter
  imports Go_Time Api_Types
begin

text \<open>
  The request rate limiter (\<^verbatim>\<open>internal/gateway/ratelimit.go\<close>): token buckets per
  (namespace, model) and per (namespace, ToolProvider), each replica taking its share of the
  configured ceiling. A call of the injected replica counter is the field \<open>rlm_Replicas\<close>; the clock
  is read once per call.
\<close>

subsection \<open>The code\<close>

record tokenBucket =
  tb_tokens :: rat
  tb_lastRefill :: instant
  tb_perMinute :: rat

record RateLimiter =
  rlm_Replicas :: int
  rlm_buckets :: "tokenBucket gomap"

definition NewRateLimiter :: "int option \<Rightarrow> RateLimiter" where
  "NewRateLimiter replicas = \<lparr>rlm_Replicas = (case replicas of None \<Rightarrow> 1 | Some n \<Rightarrow> n), rlm_buckets = []\<rparr>"

definition per_replica :: "RateLimiter \<Rightarrow> int \<Rightarrow> rat" where
  "per_replica r limit = of_int limit / of_int (if rlm_Replicas r < 1 then 1 else rlm_Replicas r)"

definition refill :: "instant \<Rightarrow> rat \<Rightarrow> tokenBucket \<Rightarrow> tokenBucket" where
  "refill now perReplica b =
     (let elapsed = duration_minutes (now - tb_lastRefill b);
          b = (if elapsed > 0 then b\<lparr>tb_tokens := tb_tokens b + elapsed * perReplica, tb_lastRefill := now\<rparr> else b);
          b = b\<lparr>tb_perMinute := perReplica\<rparr>
      in if tb_tokens b > perReplica then b\<lparr>tb_tokens := perReplica\<rparr> else b)"

definition allow_key :: "RateLimiter \<Rightarrow> instant \<Rightarrow> int \<Rightarrow> string \<Rightarrow> bool \<times> RateLimiter" where
  "allow_key r now limit key =
     (if limit \<le> 0 then (True, r)
      else
        (let perReplica = per_replica r limit;
             b = (case mlookup (rlm_buckets r) key of
                    None \<Rightarrow> \<lparr>tb_tokens = perReplica, tb_lastRefill = now, tb_perMinute = perReplica\<rparr>
                  | Some b \<Rightarrow> b);
             b = refill now perReplica b
         in if tb_tokens b \<ge> 1
            then (True, r\<lparr>rlm_buckets := mput key (b\<lparr>tb_tokens := tb_tokens b - 1\<rparr>) (rlm_buckets r)\<rparr>)
            else (False, r\<lparr>rlm_buckets := mput key b (rlm_buckets r)\<rparr>)))"

definition Allow :: "RateLimiter \<Rightarrow> instant \<Rightarrow> ModelProvider \<Rightarrow> string \<Rightarrow> string \<Rightarrow> bool \<times> RateLimiter" where
  "Allow r now provider namespace model =
     allow_key r now (rl_RequestsPerMinute (mps_RateLimits (mp_Spec provider))) (namespace @ ''/'' @ model)"

definition AllowTool :: "RateLimiter \<Rightarrow> instant \<Rightarrow> ToolProvider \<Rightarrow> string \<Rightarrow> bool \<times> RateLimiter" where
  "AllowTool r now tp namespace =
     allow_key r now (tp_RequestsPerMinute tp) (''mcp:'' @ namespace @ ''/'' @ tp_Name tp)"

lemmas [kaalm_eval] = NewRateLimiter_def per_replica_def refill_def allow_key_def Allow_def AllowTool_def

subsection \<open>One bucket\<close>

lemma duration_minutes_pos [simp]: "0 < duration_minutes d \<longleftrightarrow> 0 < d"
  by (simp add: duration_minutes_def)

lemma duration_minutes_add: "duration_minutes (a + b) = duration_minutes a + duration_minutes b"
  by (simp add: duration_minutes_def add_divide_distrib)

lemma duration_minutes_mono: "a \<le> b \<Longrightarrow> duration_minutes a \<le> duration_minutes b"
  by (simp add: duration_minutes_def divide_right_mono)

definition bucket_ok :: "rat \<Rightarrow> instant \<Rightarrow> tokenBucket \<Rightarrow> bool" where
  "bucket_ok p now b \<longleftrightarrow> 0 \<le> tb_tokens b \<and> tb_tokens b \<le> p \<and> tb_lastRefill b \<le> now"

lemma refill_bounds:
  assumes "bucket_ok q t b" "t \<le> now" "0 < p"
  shows "0 \<le> tb_tokens (refill now p b)" "tb_lastRefill (refill now p b) = max now (tb_lastRefill b)"
    "tb_tokens (refill now p b) \<le> tb_tokens b + duration_minutes (now - tb_lastRefill b) * p"
proof -
  define e where "e = duration_minutes (now - tb_lastRefill b) * p"
  have "0 \<le> duration_minutes (now - tb_lastRefill b)" using assms by (auto simp: bucket_ok_def duration_minutes_def)
  then have "0 \<le> e" using assms(3) by (simp add: e_def)
  then show "0 \<le> tb_tokens (refill now p b)" "tb_lastRefill (refill now p b) = max now (tb_lastRefill b)"
    "tb_tokens (refill now p b) \<le> tb_tokens b + duration_minutes (now - tb_lastRefill b) * p"
    using assms unfolding e_def [symmetric] by (auto simp: refill_def Let_def bucket_ok_def e_def [symmetric])
qed

lemma refill_le: "tb_tokens (refill now p b) \<le> p"
  by (auto simp: refill_def Let_def)

definition limiter_ok :: "instant \<Rightarrow> RateLimiter \<Rightarrow> bool" where
  "limiter_ok now r \<longleftrightarrow> (\<forall>key b. mlookup (rlm_buckets r) key = Some b \<longrightarrow> bucket_ok (tb_perMinute b) now b)"

lemma bucket_ok_mono: "bucket_ok p t b \<Longrightarrow> t \<le> now \<Longrightarrow> bucket_ok p now b"
  by (auto simp: bucket_ok_def)

lemma perMinute_refill [simp]: "tb_perMinute (refill now p b) = p"
  by (simp add: refill_def Let_def)

lemma per_replica_pos: "0 < limit \<Longrightarrow> 0 < per_replica r limit"
  by (simp add: per_replica_def)

lemma allow_key_bucket:
  assumes "limiter_ok t r" "t \<le> now" "0 < limit" "allow_key r now limit key = (ok, r')"
  obtains b b0 where "mlookup (rlm_buckets r') = (mlookup (rlm_buckets r))(key := Some b)" "rlm_Replicas r' = rlm_Replicas r"
    "bucket_ok (per_replica r limit) now b" "tb_perMinute b = per_replica r limit" "tb_lastRefill b = now"
    "b0 = (case mlookup (rlm_buckets r) key of None \<Rightarrow> \<lparr>tb_tokens = per_replica r limit, tb_lastRefill = now, tb_perMinute = per_replica r limit\<rparr> | Some b \<Rightarrow> b)"
    "tb_tokens b = tb_tokens (refill now (per_replica r limit) b0) - (if ok then 1 else 0)"
    "ok \<longleftrightarrow> 1 \<le> tb_tokens (refill now (per_replica r limit) b0)"
proof -
  let ?p = "per_replica r limit"
  define b0 where "b0 = (case mlookup (rlm_buckets r) key of None \<Rightarrow> \<lparr>tb_tokens = ?p, tb_lastRefill = now, tb_perMinute = ?p\<rparr> | Some b \<Rightarrow> b)"
  have b0: "bucket_ok (tb_perMinute b0) now b0"
    using assms(1,2) per_replica_pos [OF assms(3), of r] by (auto simp: b0_def limiter_ok_def bucket_ok_def split: option.splits intro: order_trans)
  note rb = refill_bounds [OF b0 order_refl per_replica_pos [OF assms(3), of r]]
  define b where "b = (refill now ?p b0)\<lparr>tb_tokens := tb_tokens (refill now ?p b0) - (if ok then 1 else 0)\<rparr>"
  have r': "ok \<longleftrightarrow> 1 \<le> tb_tokens (refill now ?p b0)" "mlookup (rlm_buckets r') = (mlookup (rlm_buckets r))(key := Some b)"
    "rlm_Replicas r' = rlm_Replicas r"
    using assms(3,4) by (auto simp: allow_key_def Let_def b_def b0_def [symmetric] fun_eq_iff split: if_splits)
  have "tb_lastRefill b0 \<le> now" using b0 by (simp add: bucket_ok_def)
  then have "bucket_ok ?p now b" "tb_perMinute b = ?p" "tb_lastRefill b = now"
    using rb r'(1) refill_le [of now ?p b0] by (auto simp: b_def bucket_ok_def)
  moreover have "tb_tokens b = tb_tokens (refill now ?p b0) - (if ok then 1 else 0)" by (simp add: b_def)
  ultimately show ?thesis using that [OF r'(2,3) _ _ _ b0_def] r'(1) by blast
qed


lemma allow_key_ok:
  assumes "limiter_ok t r" "t \<le> now"
  shows "limiter_ok now (snd (allow_key r now limit key))"
proof (cases "0 < limit")
  case True
  obtain ok r' where a: "allow_key r now limit key = (ok, r')" by force
  obtain b where b: "mlookup (rlm_buckets r') = (mlookup (rlm_buckets r))(key := Some b)"
    "bucket_ok (per_replica r limit) now b" "tb_perMinute b = per_replica r limit"
    by (rule allow_key_bucket [OF assms True a]) blast
  show ?thesis using assms b by (auto simp: a limiter_ok_def intro: bucket_ok_mono)
next
  case False
  then show ?thesis using assms by (auto simp: allow_key_def limiter_ok_def intro: bucket_ok_mono)
qed

subsection \<open>Sequences of calls\<close>

text \<open>One replica serving requests against one bucket at successive times: how many were let
  through, and the limiter afterwards.\<close>

fun allow_all :: "RateLimiter \<Rightarrow> int \<Rightarrow> string \<Rightarrow> instant list \<Rightarrow> nat \<times> RateLimiter" where
  "allow_all r limit key [] = (0, r)"
| "allow_all r limit key (t # ts) =
     (case allow_key r t limit key of (ok, r1) \<Rightarrow>
      case allow_all r1 limit key ts of (n, r2) \<Rightarrow> ((if ok then 1 else 0) + n, r2))"

definition times_from :: "instant \<Rightarrow> instant list \<Rightarrow> bool" where
  "times_from t0 ts \<longleftrightarrow> sorted (t0 # ts)"

lemma times_from_simps [simp]:
  "times_from t0 []"
  "times_from t0 (t # ts) \<longleftrightarrow> t0 \<le> t \<and> times_from t ts"
  by (auto simp: times_from_def)

lemma allow_all_budget:
  assumes "limiter_ok t0 r" "0 < limit" "times_from t0 ts"
    "mlookup (rlm_buckets r) key = Some b" "tb_lastRefill b = t0"
  shows "of_nat (fst (allow_all r limit key ts)) \<le> tb_tokens b + duration_minutes (last (t0 # ts) - t0) * per_replica r limit"
  using assms
proof (induction ts arbitrary: r t0 b)
  case Nil
  then show ?case by (auto simp: limiter_ok_def bucket_ok_def duration_minutes_def)
next
  case (Cons t ts)
  let ?p = "per_replica r limit"
  obtain ok r1 where a: "allow_key r t limit key = (ok, r1)" by force
  have t: "t0 \<le> t" "times_from t ts" using Cons.prems by auto
  obtain b1 b0 where b1: "mlookup (rlm_buckets r1) = (mlookup (rlm_buckets r))(key := Some b1)" "rlm_Replicas r1 = rlm_Replicas r"
    "tb_lastRefill b1 = t" "tb_tokens b1 = tb_tokens (refill t ?p b0) - (if ok then 1 else 0)"
    and "b0 = (case mlookup (rlm_buckets r) key of None \<Rightarrow> \<lparr>tb_tokens = ?p, tb_lastRefill = t, tb_perMinute = ?p\<rparr> | Some b \<Rightarrow> b)"
    by (rule allow_key_bucket [OF Cons.prems(1) t(1) Cons.prems(2) a])
  then have b0: "b0 = b" using Cons.prems(4) by simp
  have bok: "bucket_ok (tb_perMinute b) t0 b" using Cons.prems by (simp add: limiter_ok_def)
  have rf: "tb_tokens (refill t ?p b) \<le> tb_tokens b + duration_minutes (t - t0) * ?p"
    using refill_bounds(3) [OF bok t(1) per_replica_pos [OF Cons.prems(2), of r]] Cons.prems(5) by simp
  have p: "per_replica r1 limit = ?p" using b1(2) by (simp add: per_replica_def)
  have "limiter_ok t r1" using allow_key_ok [OF Cons.prems(1) t(1), of limit key] by (simp add: a)
  then have ih: "of_nat (fst (allow_all r1 limit key ts)) \<le> tb_tokens b1 + duration_minutes (last (t # ts) - t) * ?p"
    using Cons.IH [of t r1 b1] Cons.prems(2) t(2) b1 p by simp
  have "duration_minutes (last (t # ts) - t0) = duration_minutes (last (t # ts) - t) + duration_minutes (t - t0)"
    using duration_minutes_add [of "last (t # ts) - t" "t - t0"] by simp
  then have "duration_minutes (last (t # ts) - t0) * ?p = duration_minutes (last (t # ts) - t) * ?p + duration_minutes (t - t0) * ?p"
    by (simp add: distrib_right)
  moreover have "of_nat (fst (allow_all r limit key (t # ts))) = (if ok then 1 else 0) + (of_nat (fst (allow_all r1 limit key ts)) :: rat)"
    by (simp add: a split: prod.splits)
  ultimately show ?case using ih rf b1(4) b0 by simp
qed

lemma allow_all_fresh:
  assumes "limiter_ok t0 r" "0 < limit" "times_from t0 ts" "mlookup (rlm_buckets r) key = None"
  shows "of_nat (fst (allow_all r limit key ts)) \<le> per_replica r limit * (1 + duration_minutes (last (t0 # ts) - t0))"
proof (cases ts)
  case Nil
  then show ?thesis using per_replica_pos [OF assms(2), of r] by (simp add: duration_minutes_def)
next
  case (Cons t us)
  let ?p = "per_replica r limit"
  obtain ok r1 where a: "allow_key r t limit key = (ok, r1)" by force
  have t: "t0 \<le> t" "times_from t us" using assms(3) Cons by auto
  obtain b b0 where b: "mlookup (rlm_buckets r1) = (mlookup (rlm_buckets r))(key := Some b)" "rlm_Replicas r1 = rlm_Replicas r"
    "tb_lastRefill b = t" "tb_tokens b = tb_tokens (refill t ?p b0) - (if ok then 1 else 0)"
    and "b0 = (case mlookup (rlm_buckets r) key of None \<Rightarrow> \<lparr>tb_tokens = ?p, tb_lastRefill = t, tb_perMinute = ?p\<rparr> | Some b \<Rightarrow> b)"
    by (rule allow_key_bucket [OF assms(1) t(1) assms(2) a])
  then have "tb_tokens b = ?p - (if ok then 1 else 0)" using assms(4) by (simp add: refill_def Let_def duration_minutes_def)
  moreover have "limiter_ok t r1" using allow_key_ok [OF assms(1) t(1), of limit key] by (simp add: a)
  moreover have "per_replica r1 limit = ?p" using b(2) by (simp add: per_replica_def)
  ultimately have 1: "(if ok then 1 else 0) + of_nat (fst (allow_all r1 limit key us)) \<le> ?p + duration_minutes (last (t # us) - t) * ?p"
    using allow_all_budget [of t r1 limit us key b] assms(2) t(2) b by simp
  have "duration_minutes (last (t # us) - t) \<le> duration_minutes (last (t # us) - t0)"
    using t(1) by (intro duration_minutes_mono) simp
  then have "duration_minutes (last (t # us) - t) * ?p \<le> duration_minutes (last (t # us) - t0) * ?p"
    using per_replica_pos [OF assms(2), of r] by (simp add: mult_right_mono)
  moreover have "of_nat (fst (allow_all r limit key (t # us))) = (if ok then 1 else 0) + (of_nat (fst (allow_all r1 limit key us)) :: rat)"
    by (simp add: a split: prod.splits)
  moreover have "last (t0 # t # us) = last (t # us)" by simp
  ultimately show ?thesis using 1 unfolding Cons by (simp only: distrib_left mult.commute mult_1_right)
qed

lemma of_nat_sum_map: "(of_nat (sum_list (map f xs)) :: rat) = sum_list (map (\<lambda>x. of_nat (f x)) xs)"
  by (induction xs) auto

subsection \<open>Properties\<close>

text \<open>Property C14. The rate limit bounds the fleet: if each of the \<open>n\<close> gateway replicas starts
  with an empty limiter that knows the replica count, then however the requests for one (namespace,
  model) are spread over the replicas and over a time span, the fleet lets through at most the
  configured requests per minute times one plus the length of the span in minutes (one full bucket
  of burst, then the refill rate).\<close>
theorem fleet_rate_bound:
  assumes "0 < limit" "0 < length spread" "\<forall>ts\<in>set spread. times_from t0 ts \<and> last (t0 # ts) \<le> t1"
  shows "of_nat (sum_list (map (\<lambda>ts. fst (allow_all (NewRateLimiter (Some (int (length spread)))) limit key ts)) spread))
    \<le> of_int limit * (1 + duration_minutes (t1 - t0))"
proof -
  let ?r = "NewRateLimiter (Some (int (length spread)))"
  let ?p = "per_replica ?r limit"
  have ok: "limiter_ok t0 ?r" by (simp add: limiter_ok_def NewRateLimiter_def)
  have each: "of_nat (fst (allow_all ?r limit key ts)) \<le> ?p * (1 + duration_minutes (t1 - t0))" if "ts \<in> set spread" for ts
  proof -
    have "of_nat (fst (allow_all ?r limit key ts)) \<le> ?p * (1 + duration_minutes (last (t0 # ts) - t0))"
      using assms that by (intro allow_all_fresh [OF ok]) (auto simp: NewRateLimiter_def)
    also have "\<dots> \<le> ?p * (1 + duration_minutes (t1 - t0))"
      using assms that per_replica_pos [OF assms(1), of ?r] by (intro mult_left_mono add_left_mono duration_minutes_mono) auto
    finally show ?thesis .
  qed
  have "of_nat (sum_list (map (\<lambda>ts. fst (allow_all ?r limit key ts)) spread)) = sum_list (map (\<lambda>ts. of_nat (fst (allow_all ?r limit key ts)) :: rat) spread)"
    by (rule of_nat_sum_map)
  also have "\<dots> \<le> sum_list (map (\<lambda>ts. ?p * (1 + duration_minutes (t1 - t0))) spread)"
    using each by (intro sum_list_mono)
  also have "\<dots> = of_nat (length spread) * ?p * (1 + duration_minutes (t1 - t0))"
    by (simp add: sum_list_triv)
  also have "of_nat (length spread) * ?p = of_int limit"
    using assms(2) by (auto simp: per_replica_def NewRateLimiter_def)
  finally show ?thesis .
qed

theorem fleet_rate_bound_witness:
  "of_nat (sum_list (map (\<lambda>ts. fst (allow_all (NewRateLimiter (Some 2)) 4 ''ns/m'' ts)) [[0, 5, 6], [1]]))
    \<le> of_int 4 * (1 + duration_minutes (6 - 0))
   \<and> fst (allow_all (NewRateLimiter (Some 2)) 4 ''ns/m'' [0, 5, 6]) = 2"
  using fleet_rate_bound [of 4 "[[0, 5, 6], [1]]" 0 6 "''ns/m''"] by (simp add: kaalm_eval Let_def duration_minutes_def)

text \<open>Property C25. A limit below the replica count starves the route: when the configured requests
  per minute are positive but fewer than the replicas, a replica's bucket never holds one whole
  token, so a fresh limiter denies every request at every time.\<close>
theorem small_limit_starves:
  assumes "0 < limit" "limit < n"
  shows "fst (allow_all (NewRateLimiter (Some n)) limit key ts) = 0"
proof -
  have "fst (allow_all r limit key ts) = 0" if "rlm_Replicas r = n" for r
    using that
  proof (induction ts arbitrary: r)
    case (Cons t ts)
    obtain ok r1 where a: "allow_key r t limit key = (ok, r1)" by force
    have "per_replica r limit < 1" using Cons.prems assms by (simp add: per_replica_def)
    then have "\<not> 1 \<le> tb_tokens (refill t (per_replica r limit) b)" for b
      using refill_le [of t "per_replica r limit" b] by simp
    then have "\<not> ok \<and> rlm_Replicas r1 = n" using a Cons.prems assms(1) by (auto simp: allow_key_def Let_def)
    then show ?case using Cons.IH [of r1] a by (simp split: prod.splits)
  qed simp
  then show ?thesis by (simp add: NewRateLimiter_def)
qed

theorem small_limit_starves_witness:
  "fst (allow_all (NewRateLimiter (Some 3)) 2 ''ns/m'' [0, minute_ns, 60 * minute_ns]) = 0"
  using small_limit_starves [of 2 3 "''ns/m''" "[0, minute_ns, 60 * minute_ns]"] by simp

end
