(* ===== verification/Json_Decode.thy ===== *)
theory Json_Decode
  imports Json_Doc
begin

text \<open>
  \<^verbatim>\<open>encoding/json\<close> beyond flat string maps. \<open>ParseJSON\<close> reads a byte string: strict JSON
  syntax with white space allowed around the value, escapes decoded to UTF-8. \<open>decode_struct\<close> and
  its companions are the decoding of a value into a Go struct: field names match without regard to
  ASCII case, unknown fields are skipped, a repeated field is decoded again into the same variable,
  null leaves a variable as it is, and a value of the wrong kind is an error. The callers of
  \<^verbatim>\<open>json.Unmarshal\<close> drop what was decoded when there is an error, so an error is \<open>None\<close>.

  Outside the model: numbers are values, so \<^verbatim>\<open>1.0\<close> decodes into an integer variable although Go
  refuses it; bytes that are not UTF-8 pass unchanged; the nesting limit of 10000 and Unicode case
  folding of field names.
\<close>

subsection \<open>Parsing\<close>

definition backslash :: char where "backslash = CHR 0x5C"
definition dquote :: char where "dquote = CHR 0x22"

definition hex_val :: "char \<Rightarrow> nat option" where
  "hex_val c =
     (let n = of_char c :: nat
      in if 48 \<le> n \<and> n \<le> 57 then Some (n - 48)
         else if 97 \<le> n \<and> n \<le> 102 then Some (n - 87)
         else if 65 \<le> n \<and> n \<le> 70 then Some (n - 55) else None)"

fun hex4 :: "string \<Rightarrow> (nat \<times> string) option" where
  "hex4 (a # b # c # d # r) =
     (case (hex_val a, hex_val b, hex_val c, hex_val d) of
        (Some a, Some b, Some c, Some d) \<Rightarrow> Some (((a * 16 + b) * 16 + c) * 16 + d, r)
      | _ \<Rightarrow> None)"
| "hex4 _ = None"

definition utf8 :: "nat \<Rightarrow> string" where
  "utf8 n =
     (if n < 128 then [char_of n]
      else if n < 2048 then [char_of (192 + n div 64), char_of (128 + n mod 64)]
      else if n < 65536 then [char_of (224 + n div 4096), char_of (128 + n div 64 mod 64), char_of (128 + n mod 64)]
      else [char_of (240 + n div 262144), char_of (128 + n div 4096 mod 64), char_of (128 + n div 64 mod 64), char_of (128 + n mod 64)])"

definition surrogate :: "nat \<Rightarrow> bool" where
  "surrogate n = (55296 \<le> n \<and> n < 57344)"

text \<open>The code unit after \<^verbatim>\<open>\u\<close>: a high surrogate takes a following low one, an unpaired
  surrogate becomes U+FFFD.\<close>

definition unicode_escape :: "nat \<Rightarrow> string \<Rightarrow> string \<times> string" where
  "unicode_escape n r =
     (if \<not> surrogate n then (utf8 n, r)
      else case r of
             b # u # r' \<Rightarrow>
               (if b = backslash \<and> u = CHR ''u'' then
                  case hex4 r' of
                    Some (m, r'') \<Rightarrow>
                      (if n < 56320 \<and> 56320 \<le> m \<and> m < 57344
                       then (utf8 (65536 + (n - 55296) * 1024 + (m - 56320)), r'') else (utf8 65533, r))
                  | None \<Rightarrow> (utf8 65533, r)
                else (utf8 65533, r))
           | _ \<Rightarrow> (utf8 65533, r))"

definition escape_char :: "char \<Rightarrow> char option" where
  "escape_char c =
     (if c = dquote \<or> c = backslash \<or> c = CHR ''/'' then Some c
      else if c = CHR ''b'' then Some (CHR 0x08) else if c = CHR ''f'' then Some (CHR 0x0C)
      else if c = CHR ''n'' then Some (CHR 0x0A) else if c = CHR ''r'' then Some (CHR 0x0D)
      else if c = CHR ''t'' then Some (CHR 0x09) else None)"

fun parse_str :: "nat \<Rightarrow> string \<Rightarrow> (string \<times> string) option" where
  "parse_str 0 s = None"
| "parse_str (Suc n) s =
     (case s of
        [] \<Rightarrow> None
      | c # cs \<Rightarrow>
          (if c = dquote then Some ([], cs)
           else if c = backslash then
             (case cs of
                [] \<Rightarrow> None
              | e # r \<Rightarrow>
                  (if e = CHR ''u'' then
                     (case hex4 r of
                        None \<Rightarrow> None
                      | Some (u, r') \<Rightarrow>
                          (case unicode_escape u r' of (bs, r'') \<Rightarrow>
                             map_option (\<lambda>(t, q). (bs @ t, q)) (parse_str n r'')))
                   else
                     (case escape_char e of
                        None \<Rightarrow> None
                      | Some x \<Rightarrow> map_option (\<lambda>(t, q). (x # t, q)) (parse_str n r))))
           else if (of_char c :: nat) < 32 then None
           else map_option (\<lambda>(t, q). (c # t, q)) (parse_str n cs)))"

definition json_space :: "char \<Rightarrow> bool" where
  "json_space c = (c = CHR '' '' \<or> c = CHR 0x09 \<or> c = CHR 0x0A \<or> c = CHR 0x0D)"

definition skip_ws :: "string \<Rightarrow> string" where
  "skip_ws s = dropWhile json_space s"

definition number_char :: "char \<Rightarrow> bool" where
  "number_char c = (digit_val c \<noteq> None \<or> c \<in> {CHR ''-'', CHR ''+'', CHR ''.'', CHR ''e'', CHR ''E''})"

definition number_syntax :: "string \<Rightarrow> bool" where
  "number_syntax s =
     (let s1 = (case s of c # r \<Rightarrow> (if c = CHR ''-'' then r else s) | [] \<Rightarrow> []);
          (ip, s2) = read_digits s1;
          frac_ok = (case s2 of c # r \<Rightarrow> c = CHR ''.'' \<longrightarrow> fst (read_digits r) \<noteq> [] | [] \<Rightarrow> True)
      in ip \<noteq> [] \<and> (hd ip \<noteq> 0 \<or> length ip = 1) \<and> frac_ok)"

definition parse_number :: "string \<Rightarrow> (json \<times> string) option" where
  "parse_number s =
     (let lit = takeWhile number_char s
      in if number_syntax lit
         then (case ParseFloat lit of None \<Rightarrow> None | Some v \<Rightarrow> Some (JNum v, dropWhile number_char s))
         else None)"

fun parse_value :: "nat \<Rightarrow> string \<Rightarrow> (json \<times> string) option"
and parse_elems :: "nat \<Rightarrow> string \<Rightarrow> (json list \<times> string) option"
and parse_members :: "nat \<Rightarrow> string \<Rightarrow> ((string \<times> json) list \<times> string) option" where
  "parse_value 0 s = None"
| "parse_value (Suc n) s =
     (let s = skip_ws s
      in if HasPrefix s ''null'' then Some (JNull, drop 4 s)
         else if HasPrefix s ''true'' then Some (JBool True, drop 4 s)
         else if HasPrefix s ''false'' then Some (JBool False, drop 5 s)
         else case s of
                [] \<Rightarrow> None
              | c # r \<Rightarrow>
                  (if c = dquote then map_option (\<lambda>(t, q). (JStr t, q)) (parse_str (Suc (length r)) r)
                   else if c = CHR ''['' then
                     (case skip_ws r of
                        [] \<Rightarrow> None
                      | d # q \<Rightarrow> (if d = CHR '']'' then Some (JArr [], q)
                                    else map_option (\<lambda>(vs, q). (JArr vs, q)) (parse_elems n r)))
                   else if c = CHR ''{'' then
                     (case skip_ws r of
                        [] \<Rightarrow> None
                      | d # q \<Rightarrow> (if d = CHR ''}'' then Some (JObj [], q)
                                    else map_option (\<lambda>(es, q). (JObj es, q)) (parse_members n r)))
                   else parse_number s))"
| "parse_elems 0 s = None"
| "parse_elems (Suc n) s =
     (case parse_value n s of
        None \<Rightarrow> None
      | Some (v, r) \<Rightarrow>
          (case skip_ws r of
             [] \<Rightarrow> None
           | c # q \<Rightarrow>
               (if c = CHR '']'' then Some ([v], q)
                else if c = CHR '','' then map_option (\<lambda>(vs, q). (v # vs, q)) (parse_elems n q)
                else None)))"
| "parse_members 0 s = None"
| "parse_members (Suc n) s =
     (case skip_ws s of
        [] \<Rightarrow> None
      | c # r \<Rightarrow>
          (if c \<noteq> dquote then None
           else case parse_str (Suc (length r)) r of
                  None \<Rightarrow> None
                | Some (k, r) \<Rightarrow>
                    (case skip_ws r of
                       [] \<Rightarrow> None
                     | d # r \<Rightarrow>
                         (if d \<noteq> CHR '':'' then None
                          else case parse_value n r of
                                 None \<Rightarrow> None
                               | Some (v, r) \<Rightarrow>
                                   (case skip_ws r of
                                      [] \<Rightarrow> None
                                    | e # q \<Rightarrow>
                                        (if e = CHR ''}'' then Some ([(k, v)], q)
                                         else if e = CHR '','' then map_option (\<lambda>(es, q). ((k, v) # es, q)) (parse_members n q)
                                         else None))))))"

text \<open>Every recursive call consumes a character or is made on the same text by a different
  function, so a fuel of twice the length is enough.\<close>

definition ParseJSON :: "string \<Rightarrow> doc" where
  "ParseJSON s =
     (case parse_value (2 * length s + 2) s of
        Some (v, r) \<Rightarrow> (if skip_ws r = [] then Some v else None)
      | None \<Rightarrow> None)"

lemmas [kaalm_eval] = backslash_def dquote_def hex_val_def utf8_def surrogate_def unicode_escape_def escape_char_def
  json_space_def skip_ws_def number_char_def number_syntax_def parse_number_def ParseJSON_def

lemma ParseJSON_example:
  "ParseJSON ''{\"a\": [1, -2.5], \"b\":null} '' = Some (JObj [(''a'', JArr [JNum 1, JNum (-5/2)]), (''b'', JNull)])"
  by (simp add: kaalm_eval Let_def eval_nat_numeral)

subsection \<open>Decoding into variables\<close>

text \<open>A decoder reads a value into a state; for a field it changes the field. \<open>upd\<close> is the
  record's update function of the field.\<close>

type_synonym 's dec = "json \<Rightarrow> 's \<Rightarrow> 's option"

definition lower_char :: "char \<Rightarrow> char" where
  "lower_char c = (let n = of_char c :: nat in if 65 \<le> n \<and> n \<le> 90 then char_of (n + 32) else c)"

definition ToLower :: "string \<Rightarrow> string" where
  "ToLower s = map lower_char s"

definition EqualFold :: "string \<Rightarrow> string \<Rightarrow> bool" where
  "EqualFold a b = (ToLower a = ToLower b)"

fun field_dec :: "(string \<times> 's dec) list \<Rightarrow> string \<Rightarrow> 's dec option" where
  "field_dec [] k = None"
| "field_dec ((n, d) # fs) k = (if EqualFold n k then Some d else field_dec fs k)"

fun decode_entries :: "(string \<times> 's dec) list \<Rightarrow> (string \<times> json) list \<Rightarrow> 's \<Rightarrow> 's option" where
  "decode_entries fs [] s = Some s"
| "decode_entries fs ((k, v) # es) s =
     (case field_dec fs k of
        None \<Rightarrow> decode_entries fs es s
      | Some d \<Rightarrow> (case d v s of None \<Rightarrow> None | Some s' \<Rightarrow> decode_entries fs es s'))"

definition decode_struct :: "(string \<times> 's dec) list \<Rightarrow> 's dec" where
  "decode_struct fs v s =
     (case v of JNull \<Rightarrow> Some s | JObj es \<Rightarrow> decode_entries fs es s | _ \<Rightarrow> None)"

definition int64_value :: "json \<Rightarrow> int option" where
  "int64_value v =
     (case v of
        JNum q \<Rightarrow> (if of_int \<lfloor>q\<rfloor> = q \<and> - (2 ^ 63) \<le> \<lfloor>q\<rfloor> \<and> \<lfloor>q\<rfloor> < 2 ^ 63 then Some \<lfloor>q\<rfloor> else None)
      | _ \<Rightarrow> None)"

definition decode_int64 :: "((int \<Rightarrow> int) \<Rightarrow> 's \<Rightarrow> 's) \<Rightarrow> 's dec" where
  "decode_int64 upd v s =
     (case v of JNull \<Rightarrow> Some s | _ \<Rightarrow> map_option (\<lambda>n. upd (\<lambda>_. n) s) (int64_value v))"

definition decode_string :: "((string \<Rightarrow> string) \<Rightarrow> 's \<Rightarrow> 's) \<Rightarrow> 's dec" where
  "decode_string upd v s = (case v of JNull \<Rightarrow> Some s | JStr t \<Rightarrow> Some (upd (\<lambda>_. t) s) | _ \<Rightarrow> None)"

text \<open>A \<^verbatim>\<open>json.RawMessage\<close> takes any value, null included; \<open>None\<close> is the empty message.\<close>

definition decode_raw :: "((doc \<Rightarrow> doc) \<Rightarrow> 's \<Rightarrow> 's) \<Rightarrow> 's dec" where
  "decode_raw upd v s = Some (upd (\<lambda>_. Some v) s)"

text \<open>A pointer: null makes it nil, anything else decodes into the target, a fresh zero value
  when the pointer was nil.\<close>

definition decode_ptr :: "'t \<Rightarrow> 't dec \<Rightarrow> ('s \<Rightarrow> 't option) \<Rightarrow> (('t option \<Rightarrow> 't option) \<Rightarrow> 's \<Rightarrow> 's) \<Rightarrow> 's dec" where
  "decode_ptr z d get upd v s =
     (case v of
        JNull \<Rightarrow> Some (upd (\<lambda>_. None) s)
      | _ \<Rightarrow> map_option (\<lambda>t. upd (\<lambda>_. Some t) s) (d v (case get s of None \<Rightarrow> z | Some t \<Rightarrow> t)))"

text \<open>A slice: null makes it nil (the empty list); an array's elements are decoded into zero
  values. (Go reuses the elements of a longer slice when a field is repeated; the model starts
  afresh.)\<close>

fun decode_elems :: "'t \<Rightarrow> 't dec \<Rightarrow> json list \<Rightarrow> 't list option" where
  "decode_elems z d [] = Some []"
| "decode_elems z d (v # vs) =
     (case d v z of None \<Rightarrow> None | Some t \<Rightarrow> map_option ((#) t) (decode_elems z d vs))"

definition decode_slice :: "'t \<Rightarrow> 't dec \<Rightarrow> (('t list \<Rightarrow> 't list) \<Rightarrow> 's \<Rightarrow> 's) \<Rightarrow> 's dec" where
  "decode_slice z d upd v s =
     (case v of
        JNull \<Rightarrow> Some (upd (\<lambda>_. []) s)
      | JArr vs \<Rightarrow> map_option (\<lambda>ts. upd (\<lambda>_. ts) s) (decode_elems z d vs)
      | _ \<Rightarrow> None)"

text \<open>\<^verbatim>\<open>map[string]int64\<close>: null values are zero, later duplicates win.\<close>

fun int64_entries :: "(string \<times> json) list \<Rightarrow> int gomap \<Rightarrow> int gomap option" where
  "int64_entries [] acc = Some acc"
| "int64_entries ((k, v) # es) acc =
     (case (if v = JNull then Some 0 else int64_value v) of
        None \<Rightarrow> None
      | Some n \<Rightarrow> int64_entries es (mput k n acc))"

definition Unmarshal_int64_map :: "doc \<Rightarrow> int gomap option" where
  "Unmarshal_int64_map raw =
     (case raw of
        None \<Rightarrow> None
      | Some v \<Rightarrow> (case v of JNull \<Rightarrow> Some [] | JObj es \<Rightarrow> int64_entries es [] | _ \<Rightarrow> None))"

definition Unmarshal :: "'s dec \<Rightarrow> 's \<Rightarrow> doc \<Rightarrow> 's option" where
  "Unmarshal d z raw = (case raw of None \<Rightarrow> None | Some v \<Rightarrow> d v z)"

text \<open>Decoding into \<^verbatim>\<open>any\<close>: objects become maps at every level, later duplicates winning.\<close>

fun any_value :: "json \<Rightarrow> json"
and any_values :: "json list \<Rightarrow> json list"
and any_entries :: "(string \<times> json) list \<Rightarrow> json gomap \<Rightarrow> json gomap" where
  "any_value (JArr vs) = JArr (any_values vs)"
| "any_value (JObj es) = JObj (any_entries es [])"
| "any_value v = v"
| "any_values [] = []"
| "any_values (v # vs) = any_value v # any_values vs"
| "any_entries [] acc = acc"
| "any_entries ((k, v) # es) acc = any_entries es (mput k (any_value v) acc)"

definition decode_any :: "((json \<Rightarrow> json) \<Rightarrow> 's \<Rightarrow> 's) \<Rightarrow> 's dec" where
  "decode_any upd v s = Some (upd (\<lambda>_. any_value v) s)"

definition Unmarshal_any_map :: "doc \<Rightarrow> json gomap option" where
  "Unmarshal_any_map raw =
     (case raw of
        None \<Rightarrow> None
      | Some v \<Rightarrow> (case v of JNull \<Rightarrow> Some [] | JObj es \<Rightarrow> Some (any_entries es []) | _ \<Rightarrow> None))"

lemmas decode_defs [kaalm_eval] = lower_char_def ToLower_def EqualFold_def decode_struct_def int64_value_def
  decode_int64_def decode_string_def decode_raw_def decode_ptr_def decode_slice_def
  Unmarshal_int64_map_def Unmarshal_def decode_any_def Unmarshal_any_map_def

lemma int64_value_range: "int64_value v = Some n \<Longrightarrow> - (2 ^ 63) \<le> n \<and> n < 2 ^ 63"
  by (auto simp: int64_value_def split: json.splits if_splits)

lemma wfmap_int64_entries: "int64_entries es acc = Some m \<Longrightarrow> wfmap acc \<Longrightarrow> wfmap m"
  by (induction es acc rule: int64_entries.induct) (auto split: option.splits if_splits)

end
