(* ===== verification/Http_Header.thy ===== *)
theory Http_Header
  imports Json_Decode
begin

text \<open>
  \<^verbatim>\<open>net/http\<close> headers and the pieces of \<^verbatim>\<open>strings\<close> and \<^verbatim>\<open>net/url\<close> the gateway uses on
  request paths. A header is a map from canonical names to value lists; \<open>CanonicalHeaderKey\<close> upper-cases the first letter
  and every letter after a hyphen and lower-cases the others, and leaves a name with a byte outside
  the token alphabet as it is.
\<close>

type_synonym Header = "string list gomap"

definition upper_char :: "char \<Rightarrow> char" where
  "upper_char c = (let n = of_char c :: nat in if 97 \<le> n \<and> n \<le> 122 then char_of (n - 32) else c)"

definition is_alnum :: "char \<Rightarrow> bool" where
  "is_alnum c =
     (let n = of_char c :: nat
      in (48 \<le> n \<and> n \<le> 57) \<or> (65 \<le> n \<and> n \<le> 90) \<or> (97 \<le> n \<and> n \<le> 122))"

definition token_char :: "char \<Rightarrow> bool" where
  "token_char c = (is_alnum c \<or> c \<in> set ''!#$%&*+-.^_|~'' \<or> c = CHR 0x27 \<or> c = CHR 0x60)"

fun canon_chars :: "bool \<Rightarrow> string \<Rightarrow> string" where
  "canon_chars up [] = []"
| "canon_chars up (c # cs) =
     (if up then upper_char c else lower_char c) # canon_chars (c = CHR ''-'') cs"

definition CanonicalHeaderKey :: "string \<Rightarrow> string" where
  "CanonicalHeaderKey s = (if \<forall>c\<in>set s. token_char c then canon_chars True s else s)"

definition hdr_Values :: "Header \<Rightarrow> string \<Rightarrow> string list" where
  "hdr_Values h k = mget [] h (CanonicalHeaderKey k)"

definition hdr_Get :: "Header \<Rightarrow> string \<Rightarrow> string" where
  "hdr_Get h k = (case hdr_Values h k of [] \<Rightarrow> [] | v # _ \<Rightarrow> v)"

definition hdr_Set :: "string \<Rightarrow> string \<Rightarrow> Header \<Rightarrow> Header" where
  "hdr_Set k v h = mput (CanonicalHeaderKey k) [v] h"

definition hdr_Add :: "string \<Rightarrow> string \<Rightarrow> Header \<Rightarrow> Header" where
  "hdr_Add k v h = mput (CanonicalHeaderKey k) (hdr_Values h k @ [v]) h"

definition hdr_Del :: "string \<Rightarrow> Header \<Rightarrow> Header" where
  "hdr_Del k h = mdel (CanonicalHeaderKey k) h"

text \<open>\<^verbatim>\<open>strings.Cut\<close>, \<^verbatim>\<open>strings.Index\<close>, \<^verbatim>\<open>strings.LastIndex\<close> and \<^verbatim>\<open>strings.Contains\<close>.\<close>

fun Index :: "string \<Rightarrow> string \<Rightarrow> nat option" where
  "Index [] p = (if p = [] then Some 0 else None)"
| "Index (c # cs) p = (if HasPrefix (c # cs) p then Some 0 else map_option Suc (Index cs p))"

fun LastIndex :: "string \<Rightarrow> string \<Rightarrow> nat option" where
  "LastIndex [] p = (if p = [] then Some 0 else None)"
| "LastIndex (c # cs) p =
     (case LastIndex cs p of
        Some i \<Rightarrow> Some (Suc i)
      | None \<Rightarrow> (if HasPrefix (c # cs) p then Some 0 else None))"

definition Contains :: "string \<Rightarrow> string \<Rightarrow> bool" where
  "Contains s p = (Index s p \<noteq> None)"

definition Cut :: "string \<Rightarrow> string \<Rightarrow> string \<times> string \<times> bool" where
  "Cut s sep =
     (case Index s sep of
        Some i \<Rightarrow> (take i s, drop (i + length sep) s, True)
      | None \<Rightarrow> (s, [], False))"

definition hex_upper :: "nat \<Rightarrow> char" where
  "hex_upper n = char_of (if n < 10 then 48 + n else 55 + n)"

text \<open>\<^verbatim>\<open>url.PathEscape\<close>: the characters a path segment may hold stay, the others are written
  as a percent sign and two hexadecimal digits.\<close>

definition path_safe :: "char \<Rightarrow> bool" where
  "path_safe c = (is_alnum c \<or> c \<in> set ''-_.~$&+=:@'')"

definition PathEscape :: "string \<Rightarrow> string" where
  "PathEscape s =
     concat (map (\<lambda>c. if path_safe c then [c]
                      else [CHR ''%'', hex_upper (of_char c div 16), hex_upper (of_char c mod 16)]) s)"

lemmas [kaalm_eval] = upper_char_def is_alnum_def token_char_def CanonicalHeaderKey_def hdr_Values_def hdr_Get_def
  hdr_Set_def hdr_Add_def hdr_Del_def Contains_def Cut_def hex_upper_def path_safe_def PathEscape_def

lemma Index_Some: "Index s p = Some i \<Longrightarrow> \<exists>r. s = take i s @ p @ r \<and> i + length p \<le> length s"
proof (induction s arbitrary: i)
  case (Cons c cs)
  show ?case
  proof (cases "HasPrefix (c # cs) p")
    case True
    then obtain r where r: "c # cs = p @ r" by (auto simp: HasPrefix_iff)
    have "i = 0" using True Cons.prems by simp
    then show ?thesis unfolding r by (intro exI [of _ r]) simp
  next
    case False
    then obtain j where j: "Index cs p = Some j" "i = Suc j" using Cons.prems by auto
    then show ?thesis using Cons.IH [of j] by auto
  qed
qed (auto split: if_splits)

lemma Index_prefix: "HasPrefix s p \<Longrightarrow> Index s p = Some 0"
  by (cases s) (auto simp: HasPrefix_def)

lemma Index_append_ex: "Index (a @ p @ r) p \<noteq> None"
  by (induction a) (simp_all add: Index_prefix)

lemma Contains_iff: "Contains s p \<longleftrightarrow> (\<exists>a r. s = a @ p @ r)"
proof
  assume "Contains s p"
  then show "\<exists>a r. s = a @ p @ r" unfolding Contains_def using Index_Some by blast
next
  assume "\<exists>a r. s = a @ p @ r"
  then show "Contains s p" using Index_append_ex by (auto simp: Contains_def)
qed

lemma hdr_Values_Set [simp]:
  "hdr_Values (hdr_Set k v h) k' = (if CanonicalHeaderKey k' = CanonicalHeaderKey k then [v] else hdr_Values h k')"
  by (simp add: hdr_Values_def hdr_Set_def)

lemma hdr_Values_Del [simp]:
  "hdr_Values (hdr_Del k h) k' = (if CanonicalHeaderKey k' = CanonicalHeaderKey k then [] else hdr_Values h k')"
  by (simp add: hdr_Values_def hdr_Del_def)

end
