(* ===== verification/Adapters.thy ===== *)
theory Adapters
  imports Http_Header Api_Types
begin

text \<open>
  The provider adapters (\<^verbatim>\<open>internal/gateway/adapters.go\<close> and \<^verbatim>\<open>vertex.go\<close>): which adapter serves a
  path or a provider type, the credential header, the reading of token usage from buffered and
  streamed responses, the streaming fixups and the rewriting of the upstream path. The three adapter structs
  are the constructors of \<open>providerAdapter\<close>, their methods one definition each with the interface
  method choosing among them. A nil \<^verbatim>\<open>ServerTools\<close> map is the empty one: the code never builds a
  non-nil map without entries.
\<close>

subsection \<open>The code\<close>

record Usage =
  InputTokens :: int
  OutputTokens :: int
  ServerTools :: "int gomap"

definition no_usage :: Usage where
  "no_usage = \<lparr>InputTokens = 0, OutputTokens = 0, ServerTools = []\<rparr>"

definition isZero :: "Usage \<Rightarrow> bool" where
  "isZero u = (InputTokens u = 0 \<and> OutputTokens u = 0 \<and> length (ServerTools u) = 0)"

datatype providerAdapter = anthropicAdapter | openaiAdapter | vertexAdapter

definition adapterForPath :: "string \<Rightarrow> providerAdapter option" where
  "adapterForPath urlPath =
     (let path = fst (Cut urlPath ''?'')
      in if path = ''/v1/messages'' then Some anthropicAdapter
         else if path = ''/v1/chat/completions'' \<or> path = ''/v1/completions'' then Some openaiAdapter
         else None)"

definition adapterForProviderType :: "string \<Rightarrow> providerAdapter option" where
  "adapterForProviderType providerType =
     (if providerType = ''anthropic'' then Some anthropicAdapter
      else if providerType = ''openai'' \<or> providerType = ''openai-compatible'' then Some openaiAdapter
      else if providerType = ''google-vertex'' then Some vertexAdapter
      else None)"

fun formatName :: "providerAdapter \<Rightarrow> string" where
  "formatName anthropicAdapter = ''anthropic''"
| "formatName openaiAdapter = ''openai''"
| "formatName vertexAdapter = ''google-vertex''"

fun injectCredential :: "providerAdapter \<Rightarrow> string \<Rightarrow> Header \<Rightarrow> Header" where
  "injectCredential anthropicAdapter credential h = hdr_Set ''x-api-key'' credential h"
| "injectCredential openaiAdapter credential h = hdr_Set ''Authorization'' (''Bearer '' @ credential) h"
| "injectCredential vertexAdapter credential h = hdr_Set ''Authorization'' (''Bearer '' @ credential) h"

paragraph \<open>Anthropic\<close>

fun tool_counts :: "int gomap \<Rightarrow> int gomap \<Rightarrow> int gomap" where
  "tool_counts [] tools = tools"
| "tool_counts ((key, n) # counts) tools =
     (if n \<le> 0 then tool_counts counts tools
      else tool_counts counts (mput (TrimSuffix key ''_requests'') n tools))"

definition serverToolCounts :: "doc \<Rightarrow> int gomap" where
  "serverToolCounts raw =
     (case Unmarshal_int64_map raw of
        None \<Rightarrow> []
      | Some counts \<Rightarrow> tool_counts counts [])"

record anthropicUsage =
  au_InputTokens :: int
  au_OutputTokens :: int
  au_ServerToolUse :: doc

definition anthropic_usage_dec :: "anthropicUsage dec" where
  "anthropic_usage_dec =
     decode_struct [(''input_tokens'', decode_int64 au_InputTokens_update),
                    (''output_tokens'', decode_int64 au_OutputTokens_update),
                    (''server_tool_use'', decode_raw au_ServerToolUse_update)]"

definition anthropic_extractUsage :: "doc \<Rightarrow> Usage option" where
  "anthropic_extractUsage body =
     (case Unmarshal (decode_struct [(''usage'', anthropic_usage_dec)])
             \<lparr>au_InputTokens = 0, au_OutputTokens = 0, au_ServerToolUse = None\<rparr> body of
        None \<Rightarrow> None
      | Some resp \<Rightarrow>
          (let u = \<lparr>InputTokens = au_InputTokens resp, OutputTokens = au_OutputTokens resp,
                    ServerTools = serverToolCounts (au_ServerToolUse resp)\<rparr>
           in if isZero u then None else Some u))"

record anthropicEvent =
  ae_Type :: string
  ae_InputTokens :: int
  ae_OutputTokens :: int
  ae_ServerToolUse :: doc

definition anthropic_event_dec :: "anthropicEvent dec" where
  "anthropic_event_dec =
     decode_struct
       [(''type'', decode_string ae_Type_update),
        (''message'', decode_struct [(''usage'', decode_struct [(''input_tokens'', decode_int64 ae_InputTokens_update)])]),
        (''usage'', decode_struct [(''output_tokens'', decode_int64 ae_OutputTokens_update),
                                   (''server_tool_use'', decode_raw ae_ServerToolUse_update)])]"

definition anthropic_accumulateStreamUsage :: "string \<Rightarrow> Usage \<Rightarrow> Usage" where
  "anthropic_accumulateStreamUsage data u =
     (case Unmarshal anthropic_event_dec
             \<lparr>ae_Type = [], ae_InputTokens = 0, ae_OutputTokens = 0, ae_ServerToolUse = None\<rparr> (ParseJSON data) of
        None \<Rightarrow> u
      | Some evt \<Rightarrow>
          (if ae_Type evt = ''message_start'' then u\<lparr>InputTokens := ae_InputTokens evt\<rparr>
           else if ae_Type evt = ''message_delta'' then
             (let u = (if ae_OutputTokens evt > 0 then u\<lparr>OutputTokens := ae_OutputTokens evt\<rparr> else u);
                  tools = serverToolCounts (ae_ServerToolUse evt)
              in if tools \<noteq> [] then u\<lparr>ServerTools := tools\<rparr> else u)
           else u))"

paragraph \<open>OpenAI\<close>

record openaiUsage =
  ou_PromptTokens :: int
  ou_CompletionTokens :: int

definition openai_usage_dec :: "openaiUsage dec" where
  "openai_usage_dec =
     decode_struct [(''prompt_tokens'', decode_int64 ou_PromptTokens_update),
                    (''completion_tokens'', decode_int64 ou_CompletionTokens_update)]"

definition openai_extractUsage :: "doc \<Rightarrow> Usage option" where
  "openai_extractUsage body =
     (case Unmarshal (decode_struct [(''usage'', openai_usage_dec)]) \<lparr>ou_PromptTokens = 0, ou_CompletionTokens = 0\<rparr> body of
        None \<Rightarrow> None
      | Some resp \<Rightarrow>
          (if ou_PromptTokens resp = 0 \<and> ou_CompletionTokens resp = 0 then None
           else Some \<lparr>InputTokens = ou_PromptTokens resp, OutputTokens = ou_CompletionTokens resp, ServerTools = []\<rparr>))"

record openaiChunk =
  oc_Usage :: "openaiUsage option"

definition openai_accumulateStreamUsage :: "string \<Rightarrow> Usage \<Rightarrow> Usage" where
  "openai_accumulateStreamUsage data u =
     (if TrimSpace data = ''[DONE]'' then u
      else case Unmarshal
                  (decode_struct [(''usage'', decode_ptr \<lparr>ou_PromptTokens = 0, ou_CompletionTokens = 0\<rparr>
                                                openai_usage_dec oc_Usage oc_Usage_update)])
                  \<lparr>oc_Usage = None\<rparr> (ParseJSON data) of
             None \<Rightarrow> u
           | Some chunk \<Rightarrow>
               (case oc_Usage chunk of
                  None \<Rightarrow> u
                | Some us \<Rightarrow> u\<lparr>InputTokens := ou_PromptTokens us, OutputTokens := ou_CompletionTokens us\<rparr>))"

definition openai_fixupRequestBody :: "json gomap \<Rightarrow> json gomap" where
  "openai_fixupRequestBody body =
     (if mlookup body ''stream'' \<noteq> Some (JBool True) then body
      else if \<not> mhas body ''stream_options''
      then mput ''stream_options'' (JObj [(''include_usage'', JBool True)]) body
      else body)"

paragraph \<open>Vertex\<close>

record vertexCandidate =
  vc_WebSearchQueries :: "string list"

record vertexResponse =
  vr_PromptTokenCount :: int
  vr_CandidatesTokenCount :: int
  vr_Candidates :: "vertexCandidate list"

definition vertex_candidate_dec :: "vertexCandidate dec" where
  "vertex_candidate_dec =
     decode_struct [(''groundingMetadata'',
       decode_struct [(''webSearchQueries'', decode_slice [] (decode_string (\<lambda>f. f)) vc_WebSearchQueries_update)])]"

definition vertexServerTools :: "vertexCandidate list \<Rightarrow> int gomap" where
  "vertexServerTools candidates =
     (let queries = sum_list (map (\<lambda>c. int (length (vc_WebSearchQueries c))) candidates)
      in if queries = 0 then [] else [(''google_search'', queries)])"

definition vertex_extractUsage :: "doc \<Rightarrow> Usage option" where
  "vertex_extractUsage body =
     (case Unmarshal
             (decode_struct
                [(''usageMetadata'',
                  decode_struct [(''promptTokenCount'', decode_int64 vr_PromptTokenCount_update),
                                 (''candidatesTokenCount'', decode_int64 vr_CandidatesTokenCount_update)]),
                 (''candidates'', decode_slice \<lparr>vc_WebSearchQueries = []\<rparr> vertex_candidate_dec vr_Candidates_update)])
             \<lparr>vr_PromptTokenCount = 0, vr_CandidatesTokenCount = 0, vr_Candidates = []\<rparr> body of
        None \<Rightarrow> None
      | Some resp \<Rightarrow>
          (let u = \<lparr>InputTokens = vr_PromptTokenCount resp, OutputTokens = vr_CandidatesTokenCount resp,
                    ServerTools = vertexServerTools (vr_Candidates resp)\<rparr>
           in if isZero u then None else Some u))"

record vertexMetadata =
  vm_PromptTokenCount :: int
  vm_CandidatesTokenCount :: int

record vertexChunk =
  vk_UsageMetadata :: "vertexMetadata option"
  vk_Candidates :: "vertexCandidate list"

definition vertex_accumulateStreamUsage :: "string \<Rightarrow> Usage \<Rightarrow> Usage" where
  "vertex_accumulateStreamUsage data u =
     (case Unmarshal
             (decode_struct
                [(''usageMetadata'',
                  decode_ptr \<lparr>vm_PromptTokenCount = 0, vm_CandidatesTokenCount = 0\<rparr>
                    (decode_struct [(''promptTokenCount'', decode_int64 vm_PromptTokenCount_update),
                                    (''candidatesTokenCount'', decode_int64 vm_CandidatesTokenCount_update)])
                    vk_UsageMetadata vk_UsageMetadata_update),
                 (''candidates'', decode_slice \<lparr>vc_WebSearchQueries = []\<rparr> vertex_candidate_dec vk_Candidates_update)])
             \<lparr>vk_UsageMetadata = None, vk_Candidates = []\<rparr> (ParseJSON data) of
        None \<Rightarrow> u
      | Some chunk \<Rightarrow>
          (let tools = vertexServerTools (vk_Candidates chunk);
               u = (if tools \<noteq> [] then u\<lparr>ServerTools := tools\<rparr> else u)
           in case vk_UsageMetadata chunk of
                None \<Rightarrow> u
              | Some md \<Rightarrow> u\<lparr>InputTokens := vm_PromptTokenCount md, OutputTokens := vm_CandidatesTokenCount md\<rparr>))"

definition rewrite_model_segment :: "string \<Rightarrow> string \<Rightarrow> string" where
  "rewrite_model_segment path modelID =
     (case LastIndex path ''/models/'' of
        None \<Rightarrow> path
      | Some slash \<Rightarrow>
          (let rest = drop (slash + length ''/models/'') path
           in case Index rest '':'' of
                None \<Rightarrow> path
              | Some colon \<Rightarrow> take (slash + length ''/models/'') path @ PathEscape modelID @ drop colon rest))"

definition vertex_upstreamPath :: "string \<Rightarrow> string \<Rightarrow> string" where
  "vertex_upstreamPath inboundPath modelID =
     (case Cut inboundPath ''?'' of (path, query, hasQuery) \<Rightarrow>
        (let path = rewrite_model_segment path modelID
         in if HasSuffix path '':streamGenerateContent'' \<and> \<not> hasQuery then path @ ''?alt=sse''
            else if HasSuffix path '':streamGenerateContent'' \<and> \<not> Contains query ''alt=''
            then path @ ''?'' @ query @ ''&alt=sse''
            else if hasQuery then path @ ''?'' @ query
            else path))"

paragraph \<open>The interface methods\<close>

fun extractUsage :: "providerAdapter \<Rightarrow> doc \<Rightarrow> Usage option" where
  "extractUsage anthropicAdapter body = anthropic_extractUsage body"
| "extractUsage openaiAdapter body = openai_extractUsage body"
| "extractUsage vertexAdapter body = vertex_extractUsage body"

fun accumulateStreamUsage :: "providerAdapter \<Rightarrow> string \<Rightarrow> Usage \<Rightarrow> Usage" where
  "accumulateStreamUsage anthropicAdapter data u = anthropic_accumulateStreamUsage data u"
| "accumulateStreamUsage openaiAdapter data u = openai_accumulateStreamUsage data u"
| "accumulateStreamUsage vertexAdapter data u = vertex_accumulateStreamUsage data u"

fun fixupRequestBody :: "providerAdapter \<Rightarrow> json gomap \<Rightarrow> json gomap" where
  "fixupRequestBody anthropicAdapter body = body"
| "fixupRequestBody openaiAdapter body = openai_fixupRequestBody body"
| "fixupRequestBody vertexAdapter body = body"

fun upstreamPath :: "providerAdapter \<Rightarrow> string \<Rightarrow> string \<Rightarrow> string" where
  "upstreamPath anthropicAdapter inboundPath modelID = inboundPath"
| "upstreamPath openaiAdapter inboundPath modelID = inboundPath"
| "upstreamPath vertexAdapter inboundPath modelID = vertex_upstreamPath inboundPath modelID"

lemmas adapter_defs [kaalm_eval] = no_usage_def isZero_def adapterForPath_def adapterForProviderType_def serverToolCounts_def
  anthropic_usage_dec_def anthropic_extractUsage_def anthropic_event_dec_def anthropic_accumulateStreamUsage_def
  openai_usage_dec_def openai_extractUsage_def openai_accumulateStreamUsage_def openai_fixupRequestBody_def
  vertex_candidate_dec_def vertexServerTools_def vertex_extractUsage_def vertex_accumulateStreamUsage_def
  rewrite_model_segment_def vertex_upstreamPath_def

subsection \<open>Usage is within range\<close>

definition int64 :: "int \<Rightarrow> bool" where
  "int64 n = (- (2 ^ 63) \<le> n \<and> n < 2 ^ 63)"

definition counts_ok :: "int gomap \<Rightarrow> bool" where
  "counts_ok m = (wfmap m \<and> (\<forall>k n. mlookup m k = Some n \<longrightarrow> 0 < n))"

definition usage_ok :: "Usage \<Rightarrow> bool" where
  "usage_ok u = (int64 (InputTokens u) \<and> int64 (OutputTokens u) \<and> counts_ok (ServerTools u))"

lemma int64_0 [simp]: "int64 0"
  by (simp add: int64_def)

lemma counts_ok_Nil [simp]: "counts_ok []"
  by (simp add: counts_ok_def)

lemma no_usage_ok [simp]: "usage_ok no_usage"
  by (simp add: usage_ok_def no_usage_def)

lemma counts_ok_mput [simp]: "counts_ok m \<Longrightarrow> 0 < n \<Longrightarrow> counts_ok (mput k n m)"
  by (simp add: counts_ok_def)

lemma tool_counts_ok: "counts_ok tools \<Longrightarrow> counts_ok (tool_counts counts tools)"
  by (induction counts tools rule: tool_counts.induct) simp_all

lemma serverToolCounts_ok [simp]: "counts_ok (serverToolCounts raw)"
  by (auto simp: serverToolCounts_def tool_counts_ok split: option.splits)

lemma vertexServerTools_ok [simp]: "counts_ok (vertexServerTools cs)"
proof -
  have "0 \<le> sum_list (map (\<lambda>c. int (length (vc_WebSearchQueries c))) cs)" by (induction cs) auto
  then show ?thesis by (auto simp: vertexServerTools_def Let_def counts_ok_def wfmap_def)
qed

text \<open>Decoding keeps a state predicate when every field's decoder does.\<close>

definition dec_keeps :: "('s \<Rightarrow> bool) \<Rightarrow> 's dec \<Rightarrow> bool" where
  "dec_keeps P d = (\<forall>v s s'. P s \<longrightarrow> d v s = Some s' \<longrightarrow> P s')"

lemma dec_keepsD: "dec_keeps P d \<Longrightarrow> P s \<Longrightarrow> d v s = Some s' \<Longrightarrow> P s'"
  by (auto simp: dec_keeps_def)

lemma decode_entries_keeps:
  assumes "\<forall>f\<in>set fs. dec_keeps P (snd f)"
  shows "P s \<Longrightarrow> decode_entries fs es s = Some s' \<Longrightarrow> P s'"
proof (induction es arbitrary: s)
  case (Cons e es)
  obtain k v where e: "e = (k, v)" by force
  have f: "dec_keeps P d" if "field_dec fs k = Some d" for d
    using assms that by (induction fs) (auto split: if_splits)
  show ?case
  proof (cases "field_dec fs k")
    case None
    then show ?thesis using Cons e by simp
  next
    case (Some d)
    then show ?thesis using Cons e f [OF Some] by (auto split: option.splits dest: dec_keepsD)
  qed
qed simp

lemma dec_keeps_struct: "\<forall>f\<in>set fs. dec_keeps P (snd f) \<Longrightarrow> dec_keeps P (decode_struct fs)"
  using decode_entries_keeps [of fs P] by (auto simp: dec_keeps_def [of P "decode_struct fs"] decode_struct_def split: json.splits)

lemma dec_keeps_int64:
  "(\<And>n s. P s \<Longrightarrow> int64 n \<Longrightarrow> P (upd (\<lambda>_. n) s)) \<Longrightarrow> dec_keeps P (decode_int64 upd)"
  by (auto simp: dec_keeps_def decode_int64_def int64_def split: json.splits dest!: int64_value_range)

lemma Unmarshal_keeps: "Unmarshal d z raw = Some s \<Longrightarrow> dec_keeps P d \<Longrightarrow> P z \<Longrightarrow> P s"
  by (auto simp: Unmarshal_def dec_keeps_def split: option.splits)

lemma dec_keeps_raw: "(\<And>r s. P s \<Longrightarrow> P (upd (\<lambda>_. r) s)) \<Longrightarrow> dec_keeps P (decode_raw upd)"
  by (auto simp: dec_keeps_def decode_raw_def)

lemma dec_keeps_string: "(\<And>t s. P s \<Longrightarrow> P (upd (\<lambda>_. t) s)) \<Longrightarrow> dec_keeps P (decode_string upd)"
  by (auto simp: dec_keeps_def decode_string_def split: json.splits)

lemma dec_keeps_slice: "(\<And>ts s. P s \<Longrightarrow> P (upd (\<lambda>_. ts) s)) \<Longrightarrow> dec_keeps P (decode_slice z d upd)"
  by (auto simp: dec_keeps_def decode_slice_def split: json.splits)

lemma dec_keeps_ptr:
  assumes "dec_keeps Q d" "Q z" "\<And>s. P s \<Longrightarrow> P (upd (\<lambda>_. None) s)" "\<And>s t. P s \<Longrightarrow> get s = Some t \<Longrightarrow> Q t"
    "\<And>s t. P s \<Longrightarrow> Q t \<Longrightarrow> P (upd (\<lambda>_. Some t) s)"
  shows "dec_keeps P (decode_ptr z d get upd)"
  unfolding dec_keeps_def
proof (intro allI impI)
  fix v s s' assume s: "P s" and d: "decode_ptr z d get upd v s = Some s'"
  have q: "Q (case get s of None \<Rightarrow> z | Some t \<Rightarrow> t)" using assms(2) assms(4) [OF s] by (auto split: option.splits)
  show "P s'"
  proof (cases "v = JNull")
    case True
    then show ?thesis using d s assms(3) by (auto simp: decode_ptr_def)
  next
    case False
    then obtain t where "d v (case get s of None \<Rightarrow> z | Some t \<Rightarrow> t) = Some t" "s' = upd (\<lambda>_. Some t) s"
      using d by (cases v) (auto simp: decode_ptr_def)
    then show ?thesis using dec_keepsD [OF assms(1) q] assms(5) [OF s] by blast
  qed
qed

lemmas dec_keeps_rules = dec_keeps_struct dec_keeps_int64 dec_keeps_raw dec_keeps_string dec_keeps_slice

lemma anthropic_extract_ok: "anthropic_extractUsage body = Some u \<Longrightarrow> usage_ok u \<and> \<not> isZero u"
proof -
  let ?P = "\<lambda>r. int64 (au_InputTokens r) \<and> int64 (au_OutputTokens r)"
  have "dec_keeps ?P (decode_struct [(''usage'', anthropic_usage_dec)])"
    unfolding anthropic_usage_dec_def by (auto intro!: dec_keeps_rules)
  from Unmarshal_keeps [OF _ this] show "anthropic_extractUsage body = Some u \<Longrightarrow> ?thesis"
    by (fastforce simp: anthropic_extractUsage_def usage_ok_def Let_def split: option.splits if_splits)
qed

lemma openai_extract_ok: "openai_extractUsage body = Some u \<Longrightarrow> usage_ok u \<and> \<not> isZero u"
proof -
  let ?P = "\<lambda>r. int64 (ou_PromptTokens r) \<and> int64 (ou_CompletionTokens r)"
  have "dec_keeps ?P (decode_struct [(''usage'', openai_usage_dec)])"
    unfolding openai_usage_dec_def by (auto intro!: dec_keeps_rules)
  from Unmarshal_keeps [OF _ this] show "openai_extractUsage body = Some u \<Longrightarrow> ?thesis"
    by (fastforce simp: openai_extractUsage_def usage_ok_def isZero_def split: option.splits if_splits)
qed

lemma vertex_extract_ok: "vertex_extractUsage body = Some u \<Longrightarrow> usage_ok u \<and> \<not> isZero u"
proof -
  let ?P = "\<lambda>r. int64 (vr_PromptTokenCount r) \<and> int64 (vr_CandidatesTokenCount r)"
  have "dec_keeps ?P (decode_struct
    [(''usageMetadata'', decode_struct [(''promptTokenCount'', decode_int64 vr_PromptTokenCount_update),
                                 (''candidatesTokenCount'', decode_int64 vr_CandidatesTokenCount_update)]),
     (''candidates'', decode_slice \<lparr>vc_WebSearchQueries = []\<rparr> vertex_candidate_dec vr_Candidates_update)])"
    by (auto intro!: dec_keeps_rules)
  from Unmarshal_keeps [OF _ this] show "vertex_extractUsage body = Some u \<Longrightarrow> ?thesis"
    by (fastforce simp: vertex_extractUsage_def usage_ok_def Let_def split: option.splits if_splits)
qed

lemma anthropic_stream_ok: "usage_ok u \<Longrightarrow> usage_ok (anthropic_accumulateStreamUsage data u)"
proof -
  let ?P = "\<lambda>r. int64 (ae_InputTokens r) \<and> int64 (ae_OutputTokens r)"
  have "dec_keeps ?P anthropic_event_dec"
    unfolding anthropic_event_dec_def by (auto intro!: dec_keeps_rules)
  from Unmarshal_keeps [OF _ this] show "usage_ok u \<Longrightarrow> ?thesis"
    by (fastforce simp: anthropic_accumulateStreamUsage_def usage_ok_def Let_def split: option.splits)
qed

lemma dec_keeps_ptr_field:
  assumes "dec_keeps Q d" "Q z" "\<And>s f. get (upd f s) = f (get s)"
  shows "dec_keeps (\<lambda>s. pred_option Q (get s)) (decode_ptr z d get upd)"
  using assms(1,2) by (rule dec_keeps_ptr) (simp_all add: assms(3))

lemma openai_stream_ok:
  assumes "usage_ok u" shows "usage_ok (openai_accumulateStreamUsage data u)"
proof -
  let ?Q = "\<lambda>r. int64 (ou_PromptTokens r) \<and> int64 (ou_CompletionTokens r)"
  let ?d = "decode_struct [(''usage'', decode_ptr \<lparr>ou_PromptTokens = 0, ou_CompletionTokens = 0\<rparr>
                                                openai_usage_dec oc_Usage oc_Usage_update)]"
  have "dec_keeps ?Q openai_usage_dec" unfolding openai_usage_dec_def by (auto intro!: dec_keeps_rules)
  then have "dec_keeps (\<lambda>r. pred_option ?Q (oc_Usage r)) ?d"
    by (intro dec_keeps_struct) (simp add: dec_keeps_ptr_field)
  note ok = Unmarshal_keeps [OF _ this]
  show ?thesis
  proof (cases "Unmarshal ?d \<lparr>oc_Usage = None\<rparr> (ParseJSON data)")
    case (Some chunk)
    then have "pred_option ?Q (oc_Usage chunk)" by (rule ok) simp
    then show ?thesis using assms Some
      by (cases "oc_Usage chunk") (simp_all add: openai_accumulateStreamUsage_def usage_ok_def)
  qed (simp add: openai_accumulateStreamUsage_def assms)
qed

lemma vertex_stream_ok:
  assumes "usage_ok u" shows "usage_ok (vertex_accumulateStreamUsage data u)"
proof -
  let ?Q = "\<lambda>r. int64 (vm_PromptTokenCount r) \<and> int64 (vm_CandidatesTokenCount r)"
  let ?m = "decode_struct [(''promptTokenCount'', decode_int64 vm_PromptTokenCount_update),
                                    (''candidatesTokenCount'', decode_int64 vm_CandidatesTokenCount_update)]"
  let ?d = "decode_struct
     [(''usageMetadata'', decode_ptr \<lparr>vm_PromptTokenCount = 0, vm_CandidatesTokenCount = 0\<rparr> ?m vk_UsageMetadata vk_UsageMetadata_update),
      (''candidates'', decode_slice \<lparr>vc_WebSearchQueries = []\<rparr> vertex_candidate_dec vk_Candidates_update)]"
  let ?ptr = "decode_ptr \<lparr>vm_PromptTokenCount = 0, vm_CandidatesTokenCount = 0\<rparr> ?m vk_UsageMetadata vk_UsageMetadata_update"
  have "dec_keeps ?Q ?m" by (auto intro!: dec_keeps_rules)
  then have "dec_keeps (\<lambda>r. pred_option ?Q (vk_UsageMetadata r)) ?ptr"
    by (rule dec_keeps_ptr_field) simp_all
  then have "dec_keeps (\<lambda>r. pred_option ?Q (vk_UsageMetadata r)) ?d"
    by (intro dec_keeps_struct) (auto intro!: dec_keeps_slice)
  note ok = Unmarshal_keeps [OF _ this]
  show ?thesis
  proof (cases "Unmarshal ?d \<lparr>vk_UsageMetadata = None, vk_Candidates = []\<rparr> (ParseJSON data)")
    case (Some chunk)
    then have "pred_option ?Q (vk_UsageMetadata chunk)" by (rule ok) simp
    then show ?thesis using assms Some
      by (cases "vk_UsageMetadata chunk") (simp_all add: vertex_accumulateStreamUsage_def usage_ok_def Let_def)
  qed (simp add: vertex_accumulateStreamUsage_def assms)
qed

lemma extractUsage_ok: "extractUsage a body = Some u \<Longrightarrow> usage_ok u \<and> \<not> isZero u"
  by (cases a) (auto dest: anthropic_extract_ok openai_extract_ok vertex_extract_ok)

lemma accumulateStreamUsage_ok: "usage_ok u \<Longrightarrow> usage_ok (accumulateStreamUsage a data u)"
  by (cases a) (auto simp: anthropic_stream_ok openai_stream_ok vertex_stream_ok)

lemma stream_usage_ok: "usage_ok u \<Longrightarrow> usage_ok (fold (accumulateStreamUsage a) payloads u)"
  by (induction payloads arbitrary: u) (auto simp: accumulateStreamUsage_ok)

subsection \<open>Properties\<close>

text \<open>Property C24. Usage read from a response is well formed: token counts of a buffered or of a
  streamed response are 64-bit integers, every reported provider-side tool has a positive count
  under one key, and a buffered response counts as carrying usage only if something in it is not
  zero.\<close>
theorem usage_well_formed:
  "(extractUsage a body = Some u \<longrightarrow> usage_ok u \<and> \<not> isZero u)
   \<and> usage_ok (fold (accumulateStreamUsage a) payloads no_usage)"
  using extractUsage_ok [of a body u] stream_usage_ok [of no_usage a payloads] by simp

definition sample_response :: doc where
  "sample_response = Some (JObj [(''usage'', JObj [(''input_tokens'', JNum 12), (''output_tokens'', JNum 3),
     (''server_tool_use'', JObj [(''web_search_requests'', JNum 1), (''web_fetch_requests'', JNum 0)])])])"

definition sample_usage :: Usage where
  "sample_usage = \<lparr>InputTokens = 12, OutputTokens = 3, ServerTools = [(''web_search'', 1)]\<rparr>"

lemma sample_extract: "extractUsage anthropicAdapter sample_response = Some sample_usage"
  by (simp add: kaalm_eval sample_response_def sample_usage_def Let_def)

theorem usage_well_formed_witness: "usage_ok sample_usage \<and> \<not> isZero sample_usage"
  using usage_well_formed [of anthropicAdapter sample_response sample_usage "[]"] sample_extract by simp

text \<open>Streamed usage is a snapshot, not a running sum: an event that is delivered
  twice in a row leaves the usage as one delivery does, for every adapter and every payload, so a
  repeated chunk is never billed twice.\<close>
theorem stream_usage_idempotent:
  "accumulateStreamUsage a data (accumulateStreamUsage a data u) = accumulateStreamUsage a data u"
proof (cases a)
  case anthropicAdapter
  show ?thesis unfolding anthropicAdapter
    by (cases "Unmarshal anthropic_event_dec \<lparr>ae_Type = [], ae_InputTokens = 0, ae_OutputTokens = 0, ae_ServerToolUse = None\<rparr> (ParseJSON data)")
       (auto simp: anthropic_accumulateStreamUsage_def Let_def)
next
  case openaiAdapter
  show ?thesis unfolding openaiAdapter accumulateStreamUsage.simps openai_accumulateStreamUsage_def
    by (auto split: option.splits)
next
  case vertexAdapter
  show ?thesis unfolding vertexAdapter accumulateStreamUsage.simps vertex_accumulateStreamUsage_def
    by (auto simp: Let_def split: option.splits)
qed

end
