(* ===== verification/Json_Print.thy ===== *)
theory Json_Print
  imports Http_Header
begin

text \<open>
  \<^verbatim>\<open>json.Marshal\<close> to text, and \<^verbatim>\<open>fmt\<close>'s verb \<^verbatim>\<open>%v\<close> on decoded values. Object keys come out in
  ascending byte order, and the characters \<^verbatim>\<open>json\<close> escapes (quote, backslash, control characters and
  the three HTML ones) are escaped as Go does. Numbers are written in plain decimal notation: the
  exponent form Go uses below 1e-6 and from 1e21 on is outside the model, and so is the escaping of
  U+2028 and U+2029. The last lemma says that reading a printed value gives the value back.
\<close>

subsection \<open>Printing\<close>

definition hex_lower :: "nat \<Rightarrow> char" where
  "hex_lower n = char_of (if n < 10 then 48 + n else 87 + n)"

definition hex_escape :: "char \<Rightarrow> string" where
  "hex_escape c = [backslash, CHR ''u'', CHR ''0'', CHR ''0'', hex_lower (of_char c div 16), hex_lower (of_char c mod 16)]"

definition escape_out :: "char \<Rightarrow> string" where
  "escape_out c =
     (if c = dquote \<or> c = backslash then [backslash, c]
      else if c = CHR 0x08 then [backslash, CHR ''b''] else if c = CHR 0x0C then [backslash, CHR ''f'']
      else if c = CHR 0x0A then [backslash, CHR ''n''] else if c = CHR 0x0D then [backslash, CHR ''r'']
      else if c = CHR 0x09 then [backslash, CHR ''t'']
      else if (of_char c :: nat) < 32 \<or> c = CHR ''<'' \<or> c = CHR ''>'' \<or> c = CHR 0x26 then hex_escape c
      else [c])"

definition print_str :: "string \<Rightarrow> string" where
  "print_str s = dquote # concat (map escape_out s) @ [dquote]"

text \<open>The decimal places of a number, found by trying; every float64 has at most 1074.\<close>

fun places_from :: "nat \<Rightarrow> nat \<Rightarrow> rat \<Rightarrow> nat" where
  "places_from 0 k q = k"
| "places_from (Suc n) k q = (if of_int \<lfloor>q * 10 ^ k\<rfloor> = q * 10 ^ k then k else places_from n (Suc k) q)"

definition print_num :: "rat \<Rightarrow> string" where
  "print_num q =
     (if of_int \<lfloor>q\<rfloor> = q then show_int \<lfloor>q\<rfloor>
      else let k = places_from 1074 1 q; n = nat \<bar>\<lfloor>q * 10 ^ k\<rfloor>\<bar>
           in (if q < 0 then ''-'' else []) @ show_nat (n div 10 ^ k) @ ''.'' @ show_pad k (n mod 10 ^ k))"

fun join :: "string \<Rightarrow> string list \<Rightarrow> string" where
  "join sep [] = []"
| "join sep [s] = s"
| "join sep (s # t # ts) = s @ sep @ join sep (t # ts)"

fun print_json :: "json \<Rightarrow> string"
and print_list :: "json list \<Rightarrow> string list"
and print_members :: "(string \<times> json) list \<Rightarrow> (string \<times> string) list" where
  "print_json JNull = ''null''"
| "print_json (JBool b) = (if b then ''true'' else ''false'')"
| "print_json (JNum q) = print_num q"
| "print_json (JStr s) = print_str s"
| "print_json (JArr vs) = ''['' @ join '','' (print_list vs) @ '']''"
| "print_json (JObj es) =
     ''{'' @ join '','' (map (\<lambda>(k, t). print_str k @ '':'' @ t) (sort_key fst (print_members es))) @ ''}''"
| "print_list [] = []"
| "print_list (v # vs) = print_json v # print_list vs"
| "print_members [] = []"
| "print_members ((k, v) # es) = (k, print_json v) # print_members es"

text \<open>\<^verbatim>\<open>%v\<close> on a value decoded into \<^verbatim>\<open>any\<close>.\<close>

fun show_any :: "json \<Rightarrow> string"
and show_anys :: "json list \<Rightarrow> string list"
and show_members :: "(string \<times> json) list \<Rightarrow> (string \<times> string) list" where
  "show_any JNull = ''<nil>''"
| "show_any (JBool b) = (if b then ''true'' else ''false'')"
| "show_any (JNum q) = print_num q"
| "show_any (JStr s) = s"
| "show_any (JArr vs) = ''['' @ join '' '' (show_anys vs) @ '']''"
| "show_any (JObj es) =
     ''map['' @ join '' '' (map (\<lambda>(k, t). k @ '':'' @ t) (sort_key fst (show_members es))) @ '']''"
| "show_anys [] = []"
| "show_anys (v # vs) = show_any v # show_anys vs"
| "show_members [] = []"
| "show_members ((k, v) # es) = (k, show_any v) # show_members es"

text \<open>\<^verbatim>\<open>%q\<close>, without the escapes it would add inside the quotes.\<close>

definition show_quoted :: "string \<Rightarrow> string" where
  "show_quoted s = dquote # s @ [dquote]"

lemmas [kaalm_eval] = hex_lower_def hex_escape_def escape_out_def print_str_def print_num_def show_quoted_def

subsection \<open>Reading what was printed\<close>

text \<open>Values whose numbers are integers and whose objects list their keys in ascending order.\<close>

fun canonical :: "json \<Rightarrow> bool"
and canonical_list :: "json list \<Rightarrow> bool"
and canonical_members :: "(string \<times> json) list \<Rightarrow> bool" where
  "canonical (JNum q) = (of_int \<lfloor>q\<rfloor> = q)"
| "canonical (JArr vs) = canonical_list vs"
| "canonical (JObj es) = (sorted (map fst es) \<and> distinct (map fst es) \<and> canonical_members es)"
| "canonical v = True"
| "canonical_list [] = True"
| "canonical_list (v # vs) = (canonical v \<and> canonical_list vs)"
| "canonical_members [] = True"
| "canonical_members ((k, v) # es) = (canonical v \<and> canonical_members es)"

lemma hex_val_lower: "n < 16 \<Longrightarrow> hex_val (hex_lower n) = Some n"
  by (simp add: hex_val_def hex_lower_def Let_def)

lemma hex_val_zero: "hex_val (CHR ''0'') = Some 0"
  by (simp add: hex_val_def)

lemma parse_str_escape_out:
  "parse_str (Suc n) (escape_out c @ s) = map_option (\<lambda>(t, q). (c # t, q)) (parse_str n s)"
proof -
  have lt: "(of_char c :: nat) < 256" by simp
  have hex: "parse_str (Suc n) (hex_escape c @ s) = map_option (\<lambda>(t, q). (c # t, q)) (parse_str n s)" if "(of_char c :: nat) < 128"
  proof -
    have h: "hex4 (CHR ''0'' # CHR ''0'' # hex_lower (of_char c div 16) # hex_lower (of_char c mod 16) # s) = Some (of_char c, s)"
      using that by (simp add: hex_val_lower hex_val_zero less_mult_imp_div_less)
    have u: "unicode_escape (of_char c) s = ([c], s)"
      using that by (simp add: unicode_escape_def surrogate_def utf8_def)
    have "backslash \<noteq> dquote" by (simp add: backslash_def dquote_def)
    then show ?thesis by (simp add: hex_escape_def h u del: hex4.simps)
  qed
  show ?thesis
  proof (cases "c \<in> {dquote, backslash, CHR 0x08, CHR 0x0C, CHR 0x0A, CHR 0x0D, CHR 0x09}")
    case True
    then show ?thesis by (elim insertE) (simp_all add: escape_out_def escape_char_def backslash_def dquote_def)
  next
    case short: False
    show ?thesis
    proof (cases "(of_char c :: nat) < 32 \<or> c = CHR ''<'' \<or> c = CHR ''>'' \<or> c = CHR 0x26")
      case True
      then have "escape_out c = hex_escape c" unfolding escape_out_def using short by (simp only: insert_iff empty_iff de_Morgan_disj simp_thms if_True if_False)
      moreover have "(of_char c :: nat) < 128" using True by auto
      ultimately show ?thesis using hex by simp
    next
      case False
      then have "escape_out c = [c]" unfolding escape_out_def using short by (simp only: insert_iff empty_iff de_Morgan_disj simp_thms if_True if_False)
      then show ?thesis using short False by simp
    qed
  qed
qed

lemma parse_str_print:
  "length s < n \<Longrightarrow> parse_str n (concat (map escape_out s) @ dquote # r) = Some (s, r)"
proof (induction s arbitrary: n)
  case Nil
  then obtain m where "n = Suc m" by (cases n) auto
  then show ?case by simp
next
  case (Cons c s)
  then obtain m where "n = Suc m" "length s < m" by (cases n) auto
  then show ?case using Cons.IH [of m] by (simp add: parse_str_escape_out del: parse_str.simps)
qed

lemma length_escape_out: "1 \<le> length (escape_out c)"
  by (simp add: escape_out_def hex_escape_def)

lemma length_escaped: "length s \<le> length (concat (map escape_out s))"
proof (induction s)
  case (Cons c s)
  then show ?case using length_escape_out [of c] by simp
qed simp

lemma parse_str_print_str:
  "parse_str (Suc (length (concat (map escape_out s) @ dquote # r))) (concat (map escape_out s) @ dquote # r) = Some (s, r)"
  by (rule parse_str_print) (use length_escaped [of s] in simp)

lemma skip_ws_no_space: "s \<noteq> [] \<Longrightarrow> \<not> json_space (hd s) \<Longrightarrow> skip_ws s = s"
  by (cases s) (simp_all add: skip_ws_def)

paragraph \<open>Numbers\<close>

lemma digit_char_number: "d < 10 \<Longrightarrow> number_char (digit_char d)"
  by (simp add: number_char_def)

lemma show_nat_chars: "c \<in> set (show_nat n) \<Longrightarrow> number_char c"
  using nat_digits_lt [of n] by (auto simp: show_nat_def digit_char_number)

lemma show_int_chars: "c \<in> set (show_int i) \<Longrightarrow> number_char c"
proof -
  have "number_char (CHR ''-'')" by (simp add: number_char_def)
  then show "c \<in> set (show_int i) \<Longrightarrow> number_char c" by (auto simp: show_int_def show_nat_chars split: if_splits)
qed

definition stops :: "string \<Rightarrow> bool" where
  "stops r = (r = [] \<or> \<not> number_char (hd r))"

lemma span_number: "stops r \<Longrightarrow> \<forall>c\<in>set s. number_char c \<Longrightarrow> takeWhile number_char (s @ r) = s \<and> dropWhile number_char (s @ r) = r"
  by (cases r) (auto simp: stops_def)

lemma ParseFloat_show_nat: "ParseFloat (show_nat n) = Some (of_nat n)"
proof -
  have "read_digits (show_nat n @ []) = (nat_digits n, [])" by (rule read_digits_show_nat) simp
  then show ?thesis using read_sign_show [of n "[]"]
    by (simp add: ParseFloat_def read_fraction_def read_exponent_def)
qed

lemma ParseFloat_show_int: "ParseFloat (show_int i) = Some (of_int i)"
proof (cases "i < 0")
  case True
  have "read_digits (show_nat (nat (- i)) @ []) = (nat_digits (nat (- i)), [])" by (rule read_digits_show_nat) simp
  then show ?thesis using True
    by (simp add: show_int_def ParseFloat_def read_sign_minus read_fraction_def read_exponent_def)
next
  case False
  then show ?thesis by (simp add: show_int_def ParseFloat_show_nat)
qed

lemma nat_digits_hd: "hd (nat_digits n) \<noteq> 0 \<or> length (nat_digits n) = 1"
proof (induction n rule: nat_digits.induct)
  case (1 n)
  show ?case
  proof (cases "n < 10")
    case True
    then show ?thesis by (subst nat_digits.simps, subst nat_digits.simps) simp
  next
    case False
    then have "hd (nat_digits (n div 10)) \<noteq> 0 \<or> nat_digits (n div 10) = [0]"
      using 1 [OF False] by (cases "nat_digits (n div 10)") auto
    moreover have "nat_digits (n div 10) \<noteq> [0]"
    proof
      assume "nat_digits (n div 10) = [0]"
      then have "n div 10 = 0" using digits_value_nat [of "n div 10"] by simp
      then show False using False by simp
    qed
    ultimately have "hd (nat_digits (n div 10)) \<noteq> 0" by simp
    moreover have "nat_digits n = nat_digits (n div 10) @ [n mod 10]" using False by (subst nat_digits.simps) simp
    ultimately show ?thesis by simp
  qed
qed

lemma show_nat_Cons: obtains c s where "show_nat n = c # s" "c \<noteq> CHR ''-''"
proof (cases "show_nat n")
  case Nil
  then show ?thesis by (simp add: show_nat_def)
next
  case (Cons c s)
  then have "c \<noteq> CHR ''-''" using read_sign_show [of n "[]"] by (auto simp: read_sign_def)
  then show ?thesis using that Cons by blast
qed

lemma number_syntax_digits: "s = show_nat n \<or> s = CHR ''-'' # show_nat n \<Longrightarrow> number_syntax s"
proof -
  have rd: "read_digits (show_nat n) = (nat_digits n, [])"
    using read_digits_show_nat [of "[]" n] by simp
  have minus: "(case show_nat n of [] \<Rightarrow> [] | c # r \<Rightarrow> if c = CHR ''-'' then r else show_nat n) = show_nat n"
    by (rule show_nat_Cons [of n]) simp
  assume "s = show_nat n \<or> s = CHR ''-'' # show_nat n"
  then show ?thesis
  proof
    assume s: "s = show_nat n"
    show ?thesis using nat_digits_hd [of n] unfolding s number_syntax_def minus by (simp add: rd)
  next
    assume s: "s = CHR ''-'' # show_nat n"
    show ?thesis using nat_digits_hd [of n] unfolding s number_syntax_def by (simp add: rd)
  qed
qed

lemma number_syntax_show_int: "number_syntax (show_int i)"
  by (rule number_syntax_digits [of _ "nat \<bar>i\<bar>"]) (simp add: show_int_def)

lemma parse_number_int: "stops r \<Longrightarrow> parse_number (show_int i @ r) = Some (JNum (of_int i), r)"
  using span_number [of r "show_int i"] show_int_chars
  by (simp add: parse_number_def number_syntax_show_int ParseFloat_show_int)

paragraph \<open>Values\<close>

lemma print_str_unfold: "print_str s @ r = dquote # concat (map escape_out s) @ dquote # r"
  by (simp add: print_str_def)

lemma HasPrefix_Cons: "HasPrefix (c # s) (d # p) \<longleftrightarrow> c = d \<and> HasPrefix s p"
  by (simp add: HasPrefix_def)

lemma parse_value_head:
  assumes "c \<notin> {CHR ''n'', CHR ''t'', CHR ''f''}" "\<not> json_space c"
  shows "parse_value (Suc n) (c # r) =
    (if c = dquote then map_option (\<lambda>(t, q). (JStr t, q)) (parse_str (Suc (length r)) r)
     else if c = CHR ''['' then
       (case skip_ws r of [] \<Rightarrow> None
        | d # q \<Rightarrow> (if d = CHR '']'' then Some (JArr [], q) else map_option (\<lambda>(vs, q). (JArr vs, q)) (parse_elems n r)))
     else if c = CHR ''{'' then
       (case skip_ws r of [] \<Rightarrow> None
        | d # q \<Rightarrow> (if d = CHR ''}'' then Some (JObj [], q) else map_option (\<lambda>(es, q). (JObj es, q)) (parse_members n r)))
     else parse_number (c # r))"
  using assms by (simp add: skip_ws_no_space HasPrefix_Cons)

lemma print_members_keys: "map fst (print_members es) = map fst es"
  by (induction es) auto

lemma sort_print_members:
  "sorted (map fst es) \<Longrightarrow> sort_key fst (print_members es) = print_members es"
  by (rule sort_key_id_if_sorted) (simp add: print_members_keys)

definition value_start :: "char \<Rightarrow> bool" where
  "value_start c = (c \<notin> {CHR '']'', CHR ''}''} \<and> \<not> json_space c)"

lemma print_num_int: "of_int \<lfloor>q\<rfloor> = q \<Longrightarrow> print_num q = show_int \<lfloor>q\<rfloor>"
  by (simp add: print_num_def)

lemma show_int_ne: "show_int i \<noteq> []"
  by (simp add: show_int_def show_nat_def)

lemma print_json_ne: "canonical v \<Longrightarrow> print_json v \<noteq> []"
  by (cases v) (auto simp: print_num_int show_int_ne print_str_def)

lemma number_char_start: "number_char c \<Longrightarrow> value_start c \<and> c \<notin> {CHR ''n'', CHR ''t'', CHR ''f'', dquote, CHR ''['', CHR ''{''}"
  by (auto simp: value_start_def number_char_def json_space_def digit_val_def dquote_def Let_def split: if_splits)

lemma show_int_start: "value_start (hd (show_int i)) \<and> hd (show_int i) \<notin> {CHR ''n'', CHR ''t'', CHR ''f'', dquote, CHR ''['', CHR ''{''}"
  using number_char_start [OF show_int_chars [of "hd (show_int i)" i]] show_int_ne [of i] by simp

lemma print_json_start: "canonical v \<Longrightarrow> value_start (hd (print_json v))"
  by (cases v) (auto simp: print_num_int show_int_start print_str_def, auto simp: value_start_def json_space_def dquote_def)

fun members_text :: "(string \<times> json) list \<Rightarrow> string" where
  "members_text es = join '','' (map (\<lambda>(k, t). print_str k @ '':'' @ t) (print_members es))"

declare members_text.simps [simp del]

lemma members_text_Cons:
  "members_text ((k, v) # es) = print_str k @ '':'' @ print_json v @ (if es = [] then [] else '','' @ members_text es)"
  by (cases es) (auto simp: members_text.simps)

lemma join_Cons: "join sep (t # ts) = t @ (if ts = [] then [] else sep @ join sep ts)"
  by (cases ts) auto

lemma print_list_Nil [simp]: "print_list vs = [] \<longleftrightarrow> vs = []"
  by (cases vs) auto

lemma stops_delims: "stops (CHR '','' # r)" "stops (CHR '']'' # r)" "stops (CHR ''}'' # r)" "stops []"
  by (auto simp: stops_def number_char_def digit_val_def)

lemma parse_value_lit:
  "parse_value (Suc n) (''null'' @ r) = Some (JNull, r)"
  "parse_value (Suc n) (''true'' @ r) = Some (JBool True, r)"
  "parse_value (Suc n) (''false'' @ r) = Some (JBool False, r)"
  by (simp_all add: skip_ws_no_space json_space_def HasPrefix_Cons HasPrefix_def)

lemma parse_value_int:
  assumes "stops r" shows "parse_value (Suc n) (show_int i @ r) = Some (JNum (of_int i), r)"
proof -
  obtain c s where c: "show_int i = c # s" using show_int_ne by (cases "show_int i") auto
  have "value_start c \<and> c \<notin> {CHR ''n'', CHR ''t'', CHR ''f'', dquote, CHR ''['', CHR ''{''}"
    using show_int_start [of i] by (simp add: c)
  then have "parse_value (Suc n) (c # s @ r) = parse_number (c # s @ r)"
    by (subst parse_value_head) (auto simp: value_start_def)
  then show ?thesis using parse_number_int [OF assms, of i] by (simp only: c append_Cons)
qed

lemma parse_value_str: "parse_value (Suc n) (print_str s @ r) = Some (JStr s, r)"
proof -
  have "\<not> json_space dquote" "dquote \<notin> {CHR ''n'', CHR ''t'', CHR ''f''}" by (auto simp: json_space_def dquote_def)
  then show ?thesis unfolding print_str_unfold using parse_str_print_str [of s r]
    by (simp add: parse_value_head del: parse_value.simps parse_str.simps)
qed

lemma parse_value_arr:
  assumes "parse_elems n s = Some (vs, r)" "skip_ws s = s" "s \<noteq> []" "hd s \<noteq> CHR '']''"
  shows "parse_value (Suc n) (CHR ''['' # s) = Some (JArr vs, r)"
  using assms by (subst parse_value_head) (auto simp: json_space_def dquote_def split: list.split)

lemma parse_value_obj:
  assumes "parse_members n s = Some (es, r)" "skip_ws s = s" "s \<noteq> []" "hd s \<noteq> CHR ''}''"
  shows "parse_value (Suc n) (CHR ''{'' # s) = Some (JObj es, r)"
  using assms by (subst parse_value_head) (auto simp: json_space_def dquote_def split: list.split)

lemma parse_value_empty:
  "parse_value (Suc n) (''[]'' @ r) = Some (JArr [], r)" "parse_value (Suc n) (''{}'' @ r) = Some (JObj [], r)"
  by (simp_all add: skip_ws_no_space json_space_def HasPrefix_Cons dquote_def)

lemma parse_elems_last:
  "parse_value n (s @ '']'' @ r) = Some (v, '']'' @ r) \<Longrightarrow> parse_elems (Suc n) (s @ '']'' @ r) = Some ([v], r)"
  by (simp add: skip_ws_no_space json_space_def)

lemma parse_elems_more:
  "parse_value n (s @ '','' @ t) = Some (v, '','' @ t) \<Longrightarrow> parse_elems n t = Some (vs, r) \<Longrightarrow>
   parse_elems (Suc n) (s @ '','' @ t) = Some (v # vs, r)"
  by (simp add: skip_ws_no_space json_space_def)

lemma parse_member:
  assumes "parse_value n t = Some (v, e # r)" "\<not> json_space e"
  shows "parse_members (Suc n) (print_str k @ '':'' @ t) =
    (if e = CHR ''}'' then Some ([(k, v)], r)
     else if e = CHR '','' then map_option (\<lambda>(es, q). ((k, v) # es, q)) (parse_members n r) else None)"
proof -
  have d: "skip_ws (dquote # q) = dquote # q" "skip_ws (CHR '':'' # q) = CHR '':'' # q" "skip_ws (e # q) = e # q" for q
    using assms(2) by (auto simp: skip_ws_no_space json_space_def dquote_def)
  show ?thesis unfolding print_str_unfold parse_members.simps d append_Cons append_Nil
    using parse_str_print_str [of k "CHR '':'' # t"] assms(1) d
    by (simp del: parse_str.simps parse_value.simps)
qed

lemma value_text_start:
  assumes "canonical v"
  shows "skip_ws (print_json v @ r) = print_json v @ r" "print_json v @ r \<noteq> []" "hd (print_json v @ r) \<noteq> CHR '']''"
  using print_json_ne [OF assms] print_json_start [OF assms] by (auto simp: value_start_def intro: skip_ws_no_space)

lemma list_text_start:
  assumes "canonical_list vs" "vs \<noteq> []"
  shows "skip_ws (join '','' (print_list vs) @ r) = join '','' (print_list vs) @ r" "join '','' (print_list vs) @ r \<noteq> []"
    "hd (join '','' (print_list vs) @ r) \<noteq> CHR '']''"
proof -
  obtain v ws where vs: "vs = v # ws" using assms(2) by (cases vs) auto
  have "\<exists>q. join '','' (print_list vs) @ r = print_json v @ q" by (simp add: vs join_Cons)
  then obtain q where "join '','' (print_list vs) @ r = print_json v @ q" by (elim exE)
  then show "skip_ws (join '','' (print_list vs) @ r) = join '','' (print_list vs) @ r" "join '','' (print_list vs) @ r \<noteq> []"
    "hd (join '','' (print_list vs) @ r) \<noteq> CHR '']''"
    using value_text_start [of v q] assms(1) by (simp_all only: vs canonical_list.simps simp_thms)
qed

lemma members_text_start:
  assumes "es \<noteq> []"
  shows "skip_ws (members_text es @ r) = members_text es @ r" "members_text es @ r \<noteq> []" "hd (members_text es @ r) \<noteq> CHR ''}''"
proof -
  obtain k v es' where es: "es = (k, v) # es'" using assms by (cases es) auto
  have "\<exists>q. members_text es @ r = dquote # q" by (simp add: es members_text_Cons print_str_def)
  then obtain q where "members_text es @ r = dquote # q" by (elim exE)
  then show "skip_ws (members_text es @ r) = members_text es @ r" "members_text es @ r \<noteq> []" "hd (members_text es @ r) \<noteq> CHR ''}''"
    by (simp_all add: skip_ws_no_space json_space_def dquote_def)
qed

lemma length_list_text: "length (join '','' (print_list (v # vs))) = length (print_json v) + (if vs = [] then 0 else Suc (length (join '','' (print_list vs))))"
  by (simp add: join_Cons)

lemma length_members_text:
  "length (members_text ((k, v) # es)) = length (print_str k) + Suc (length (print_json v)) + (if es = [] then 0 else Suc (length (members_text es)))"
  by (simp add: members_text_Cons)

lemma print_obj_text: "canonical (JObj es) \<Longrightarrow> print_json (JObj es) = ''{'' @ members_text es @ ''}''"
  by (simp add: sort_print_members members_text.simps)

lemma parse_print:
  "canonical v \<Longrightarrow> stops r \<Longrightarrow> length (print_json v) \<le> n \<Longrightarrow> parse_value n (print_json v @ r) = Some (v, r)"
  "canonical_list vs \<Longrightarrow> vs \<noteq> [] \<Longrightarrow> length (join '','' (print_list vs)) < n \<Longrightarrow>
     parse_elems n (join '','' (print_list vs) @ '']'' @ r) = Some (vs, r)"
  "canonical_members es \<Longrightarrow> es \<noteq> [] \<Longrightarrow> length (members_text es) < n \<Longrightarrow>
     parse_members n (members_text es @ ''}'' @ r) = Some (es, r)"
proof (induction v and vs and es arbitrary: n r and n r and n r rule: print_json_print_list_print_members.induct)
  case 1
  then show ?case by (cases n) (simp_all only: print_json.simps parse_value_lit, simp)
next
  case (2 b)
  then show ?case by (cases n; cases b) (simp_all only: print_json.simps parse_value_lit if_True if_False, simp_all)
next
  case (3 q)
  have "0 < length (show_int \<lfloor>q\<rfloor>)" using show_int_ne by simp
  moreover have "length (show_int \<lfloor>q\<rfloor>) \<le> n" using 3 by (simp add: print_num_int)
  ultimately have "n \<noteq> 0" by linarith
  then obtain m where "n = Suc m" by (cases n) auto
  then show ?case using 3 by (simp add: print_num_int parse_value_int del: parse_value.simps)
next
  case (4 s)
  then have "n \<noteq> 0" by (auto simp: print_str_def)
  then obtain m where "n = Suc m" by (cases n) auto
  then show ?case by (simp add: parse_value_str del: parse_value.simps)
next
  case (5 vs)
  then obtain m where m: "n = Suc m" by (cases n) auto
  show ?case
  proof (cases "vs = []")
    case True
    then show ?thesis using parse_value_empty(1) [of m r] by (simp add: m del: parse_value.simps)
  next
    case False
    have "parse_elems m (join '','' (print_list vs) @ '']'' @ r) = Some (vs, r)"
      using 5 False m by simp
    from parse_value_arr [OF this list_text_start [OF _ False]] show ?thesis using 5(2)
      by (simp add: m del: parse_value.simps)
  qed
next
  case (6 es)
  note t = print_obj_text [OF 6(2)]
  then obtain m where m: "n = Suc m" using 6(4) by (cases n) auto
  show ?case
  proof (cases "es = []")
    case True
    then show ?thesis using parse_value_empty(2) [of m r] by (simp add: m del: parse_value.simps)
  next
    case False
    have "parse_members m (members_text es @ ''}'' @ r) = Some (es, r)"
      using 6 False m t by simp
    from parse_value_obj [OF this members_text_start [OF False]] show ?thesis
      unfolding t m by simp
  qed
next
  case 7
  then show ?case by simp
next
  case (8 v vs)
  then obtain m where m: "n = Suc m" by (cases n) auto
  have v: "parse_value m (print_json v @ q) = Some (v, q)" if "stops q" for q
    using 8(1) [of q m] 8(3,5) that m unfolding length_list_text by simp
  show ?case
  proof (cases "vs = []")
    case True
    then show ?thesis using parse_elems_last [OF v] stops_delims(2) [of r] by (simp add: m del: parse_elems.simps)
  next
    case False
    have "parse_elems m (join '','' (print_list vs) @ '']'' @ r) = Some (vs, r)"
      using 8(2) [of m r] 8(3,5) False m unfolding length_list_text by simp
    from parse_elems_more [OF v this] show ?thesis using False stops_delims(1) by (simp add: m join_Cons del: parse_elems.simps)
  qed
next
  case 9
  then show ?case by simp
next
  case (10 k v es)
  then obtain m where m: "n = Suc m" by (cases n) auto
  have v: "parse_value m (print_json v @ q) = Some (v, q)" if "stops q" for q
    using 10(1) [of q m] 10(3,5) that m unfolding length_members_text by simp
  show ?case
  proof (cases "es = []")
    case True
    then show ?thesis using parse_member [OF v [of "CHR ''}'' # r"]] stops_delims(3) [of r]
      by (simp add: m members_text_Cons json_space_def del: parse_members.simps)
  next
    case False
    have "parse_members m (members_text es @ ''}'' @ r) = Some (es, r)"
      using 10(2) [of m r] 10(3,5) False m unfolding length_members_text by simp
    then show ?thesis using False parse_member [OF v [of "CHR '','' # members_text es @ ''}'' @ r"]] stops_delims(1)
      by (simp add: m members_text_Cons json_space_def del: parse_members.simps)
  qed
qed

text \<open>Marshalling and reading back is the identity.\<close>

lemma ParseJSON_print: "canonical v \<Longrightarrow> ParseJSON (print_json v) = Some v"
  using parse_print(1) [of v "[]" "2 * length (print_json v) + 2"] stops_delims(4)
  by (simp add: ParseJSON_def skip_ws_def del: parse_value.simps)

paragraph \<open>Values with keys in any order\<close>

fun sort_json :: "json \<Rightarrow> json"
and sort_list :: "json list \<Rightarrow> json list"
and sort_members :: "(string \<times> json) list \<Rightarrow> (string \<times> json) list" where
  "sort_json (JArr vs) = JArr (sort_list vs)"
| "sort_json (JObj es) = JObj (sort_key fst (sort_members es))"
| "sort_json v = v"
| "sort_list [] = []"
| "sort_list (v # vs) = sort_json v # sort_list vs"
| "sort_members [] = []"
| "sort_members ((k, v) # es) = (k, sort_json v) # sort_members es"

fun printable :: "json \<Rightarrow> bool"
and printable_list :: "json list \<Rightarrow> bool"
and printable_members :: "(string \<times> json) list \<Rightarrow> bool" where
  "printable (JNum q) = (of_int \<lfloor>q\<rfloor> = q)"
| "printable (JArr vs) = printable_list vs"
| "printable (JObj es) = (distinct (map fst es) \<and> printable_members es)"
| "printable v = True"
| "printable_list [] = True"
| "printable_list (v # vs) = (printable v \<and> printable_list vs)"
| "printable_members [] = True"
| "printable_members ((k, v) # es) = (printable v \<and> printable_members es)"

lemma print_members_map: "print_members es = map (\<lambda>(k, v). (k, print_json v)) es"
  by (induction es) auto

lemma canonical_members_iff: "canonical_members es \<longleftrightarrow> (\<forall>e\<in>set es. canonical (snd e))"
  by (induction es) auto

lemma sort_members_keys: "map fst (sort_members es) = map fst es"
  by (induction es) auto

lemma insort_key_map: "(\<And>x. fst (f x) = fst x) \<Longrightarrow> insort_key fst (f x) (map f xs) = map f (insort_key fst x xs)"
  by (induction xs) auto

lemma sort_key_map: "(\<And>x. fst (f x) = fst x) \<Longrightarrow> sort_key fst (map f xs) = map f (sort_key fst xs)"
  by (induction xs) (simp_all add: insort_key_map)

lemma print_sort:
  "print_json (sort_json v) = print_json v"
  "print_list (sort_list vs) = print_list vs"
  "print_members (sort_members es) = print_members es"
proof (induction v and vs and es rule: print_json_print_list_print_members.induct)
  case (6 es)
  let ?f = "\<lambda>(k, v). (k, print_json v)"
  have "sort_key fst (print_members (sort_key fst (sort_members es))) = map ?f (sort_key fst (sort_key fst (sort_members es)))"
    unfolding print_members_map by (rule sort_key_map) auto
  also have "\<dots> = map ?f (sort_key fst (sort_members es))" by (simp add: sort_key_id_if_sorted)
  also have "\<dots> = sort_key fst (print_members (sort_members es))"
    unfolding print_members_map by (rule sort_key_map [symmetric]) auto
  finally show ?case using 6 by simp
qed simp_all

lemma canonical_sort:
  "printable v \<Longrightarrow> canonical (sort_json v)"
  "printable_list vs \<Longrightarrow> canonical_list (sort_list vs)"
  "printable_members es \<Longrightarrow> canonical_members (sort_members es)"
proof (induction v and vs and es rule: print_json_print_list_print_members.induct)
  case (6 es)
  have "wfmap (sort_members es)" using 6 by (simp add: wfmap_def sort_members_keys)
  then have "distinct (map fst (sort_key fst (sort_members es)))" using wfmap_sort_key [of "sort_members es"] by (simp add: wfmap_def)
  then show ?case using 6 by (simp add: canonical_members_iff)
qed simp_all

lemma ParseJSON_print_sorted: "printable v \<Longrightarrow> ParseJSON (print_json v) = Some (sort_json v)"
  using ParseJSON_print [OF canonical_sort(1)] by (simp add: print_sort)

end
