(* ===== verification/Llm_Translate.thy ===== *)
theory Llm_Translate
  imports Json_Print
begin

text \<open>
  The request translator between the Anthropic messages format and the OpenAI chat completions
  format (\<^verbatim>\<open>internal/llmtranslate/translate.go\<close>). A parsed body is a map of decoded values; an error is
  the left summand with the text of the Go error. \<open>jmap\<close>, \<open>jarr\<close> and \<open>jstr\<close> are the type assertions whose
  success flag the code ignores (a failed one gives the zero value), \<open>jget\<close> the read of a map of
  \<^verbatim>\<open>any\<close>. A slice the code declares without a value and only appends to is nil until then, and a
  nil slice encodes as null: \<open>jslice\<close>.
\<close>

subsection \<open>Access to decoded values\<close>

definition jmap :: "json \<Rightarrow> json gomap" where
  "jmap v = (case v of JObj es \<Rightarrow> es | _ \<Rightarrow> [])"

definition jarr :: "json \<Rightarrow> json list" where
  "jarr v = (case v of JArr vs \<Rightarrow> vs | _ \<Rightarrow> [])"

definition jstr :: "json \<Rightarrow> string" where
  "jstr v = (case v of JStr s \<Rightarrow> s | _ \<Rightarrow> [])"

definition jget :: "json gomap \<Rightarrow> string \<Rightarrow> json" where
  "jget m k = mget JNull m k"

definition jslice :: "json list \<Rightarrow> json" where
  "jslice vs = (if vs = [] then JNull else JArr vs)"

definition FormatAnthropic :: string where "FormatAnthropic = ''anthropic''"
definition FormatOpenAI :: string where "FormatOpenAI = ''openai''"

definition untranslatable :: "string \<Rightarrow> string + 'a" where
  "untranslatable feature = Inl (''request uses '' @ feature)"

subsection \<open>Helpers\<close>

fun text_parts :: "json list \<Rightarrow> string list" where
  "text_parts [] = []"
| "text_parts (raw # rest) =
     (case jget (jmap raw) ''text'' of JStr t \<Rightarrow> t # text_parts rest | _ \<Rightarrow> text_parts rest)"

definition newline :: string where "newline = [CHR 0x0A]"

definition contentText :: "json \<Rightarrow> string" where
  "contentText content =
     (case content of
        JStr c \<Rightarrow> c
      | JArr c \<Rightarrow> join newline (text_parts c)
      | _ \<Rightarrow> [])"

definition joinTextParts :: "json list \<Rightarrow> string" where
  "joinTextParts parts = join newline (text_parts parts)"

definition allText :: "json list \<Rightarrow> bool" where
  "allText parts = list_all (\<lambda>raw. jget (jmap raw) ''type'' = JStr ''text'') parts"

definition copyIf :: "json gomap \<Rightarrow> string \<Rightarrow> string \<Rightarrow> json gomap \<Rightarrow> json gomap" where
  "copyIf input from to out =
     (case mlookup input from of
        None \<Rightarrow> out
      | Some v \<Rightarrow> (if v \<noteq> JNull then mput to v out else out))"

definition numberOf :: "json \<Rightarrow> int option" where
  "numberOf v = (case v of JNum n \<Rightarrow> Some (trunc n) | _ \<Rightarrow> None)"

subsection \<open>Anthropic messages to OpenAI chat completions\<close>

fun system_parts :: "json list \<Rightarrow> string + string list" where
  "system_parts [] = Inr []"
| "system_parts (raw # rest) =
     (let b = jmap raw
      in if jget b ''type'' \<noteq> JStr ''text'' then untranslatable ''a non-text system block, which openai cannot express''
         else case system_parts rest of
                Inl e \<Rightarrow> Inl e
              | Inr ts \<Rightarrow> Inr (case jget b ''text'' of JStr t \<Rightarrow> t # ts | _ \<Rightarrow> ts))"

definition anthropicSystemText :: "json \<Rightarrow> string + string" where
  "anthropicSystemText system =
     (case system of
        JStr v \<Rightarrow> Inr v
      | JArr v \<Rightarrow> (case system_parts v of Inl e \<Rightarrow> Inl e | Inr parts \<Rightarrow> Inr (join (newline @ newline) parts))
      | _ \<Rightarrow> Inr [])"

definition anthropicImageURL :: "json gomap \<Rightarrow> string + string" where
  "anthropicImageURL b =
     (let src = jmap (jget b ''source'')
      in if jget src ''type'' = JStr ''base64''
         then Inr (''data:'' @ show_any (jget src ''media_type'') @ '';base64,'' @ show_any (jget src ''data''))
         else if jget src ''type'' = JStr ''url'' then Inr (jstr (jget src ''url''))
         else untranslatable ''an image source openai cannot express'')"

definition anthropicToolResultText :: "json gomap \<Rightarrow> string" where
  "anthropicToolResultText b =
     (case jget b ''content'' of
        JStr c \<Rightarrow> c
      | JArr c \<Rightarrow> join newline (text_parts c)
      | _ \<Rightarrow> [])"

definition tool_call :: "json gomap \<Rightarrow> json" where
  "tool_call b =
     JObj [(''id'', jget b ''id''), (''type'', JStr ''function''),
           (''function'', JObj [(''name'', jget b ''name''), (''arguments'', JStr (print_json (jget b ''input'')))])]"

definition tool_message :: "json gomap \<Rightarrow> json" where
  "tool_message b =
     (let text = anthropicToolResultText b;
          text = (if jget b ''is_error'' = JBool True then ''[error] '' @ text else text)
      in JObj [(''role'', JStr ''tool''), (''tool_call_id'', jget b ''tool_use_id''), (''content'', JStr text)])"

text \<open>The loop over the content blocks: tool messages, parts and tool calls, each in order.\<close>

fun message_blocks :: "json list \<Rightarrow> json list \<times> json list \<times> json list \<Rightarrow> string + (json list \<times> json list \<times> json list)" where
  "message_blocks [] acc = Inr acc"
| "message_blocks (raw # rest) (toolMessages, parts, toolCalls) =
     (let b = jmap raw; typ = jget b ''type''
      in if typ = JStr ''text''
         then message_blocks rest (toolMessages, parts @ [JObj [(''type'', JStr ''text''), (''text'', jget b ''text'')]], toolCalls)
         else if typ = JStr ''image'' then
           (case anthropicImageURL b of
              Inl e \<Rightarrow> Inl e
            | Inr url \<Rightarrow>
                message_blocks rest
                  (toolMessages, parts @ [JObj [(''type'', JStr ''image_url''), (''image_url'', JObj [(''url'', JStr url)])]], toolCalls))
         else if typ = JStr ''tool_use'' then message_blocks rest (toolMessages, parts, toolCalls @ [tool_call b])
         else if typ = JStr ''tool_result'' then message_blocks rest (toolMessages @ [tool_message b], parts, toolCalls)
         else if typ = JStr ''thinking'' \<or> typ = JStr ''redacted_thinking'' then message_blocks rest (toolMessages, parts, toolCalls)
         else if typ = JStr ''document'' then untranslatable ''a document block, which openai cannot express''
         else untranslatable (''a '' @ show_any typ @ '' content block, which openai cannot express''))"

definition anthropicMessageToOpenAI :: "string \<Rightarrow> json \<Rightarrow> string + json list" where
  "anthropicMessageToOpenAI role content =
     (case content of
        JStr s \<Rightarrow> Inr [JObj [(''role'', JStr role), (''content'', JStr s)]]
      | _ \<Rightarrow>
          (case message_blocks (jarr content) ([], [], []) of
             Inl e \<Rightarrow> Inl e
           | Inr (toolMessages, parts, toolCalls) \<Rightarrow>
               (if role = ''assistant'' then
                  (let text = joinTextParts parts
                   in Inr (toolMessages @
                        [JObj ([(''role'', JStr ''assistant''),
                                (''content'', if text \<noteq> [] then JStr text else JNull)] @
                               (if toolCalls \<noteq> [] then [(''tool_calls'', JArr toolCalls)] else []))]))
                else if parts \<noteq> [] then
                  (if allText parts
                   then Inr (toolMessages @ [JObj [(''role'', JStr role), (''content'', JStr (joinTextParts parts))]])
                   else Inr (toolMessages @ [JObj [(''role'', JStr role), (''content'', JArr parts)]]))
                else Inr toolMessages)))"

fun a2o_messages :: "json list \<Rightarrow> string + json list" where
  "a2o_messages [] = Inr []"
| "a2o_messages (raw # rest) =
     (let m = jmap raw
      in case anthropicMessageToOpenAI (jstr (jget m ''role'')) (jget m ''content'') of
           Inl e \<Rightarrow> Inl e
         | Inr converted \<Rightarrow>
             (case a2o_messages rest of Inl e \<Rightarrow> Inl e | Inr ms \<Rightarrow> Inr (converted @ ms)))"

definition copy_key :: "json gomap \<Rightarrow> string \<Rightarrow> string \<Rightarrow> json gomap \<Rightarrow> json gomap" where
  "copy_key input from to out = (case mlookup input from of None \<Rightarrow> out | Some v \<Rightarrow> mput to v out)"

fun a2o_tools :: "json list \<Rightarrow> string + json list" where
  "a2o_tools [] = Inr []"
| "a2o_tools (raw # rest) =
     (let t = jmap raw; typ = jstr (jget t ''type'')
      in if typ \<noteq> ''custom'' \<and> typ \<noteq> []
         then untranslatable (''the server tool type '' @ show_quoted typ @ '', which openai cannot express'')
         else
           (let fn = copy_key t ''input_schema'' ''parameters'' (copy_key t ''description'' ''description'' [(''name'', jget t ''name'')])
            in case a2o_tools rest of
                 Inl e \<Rightarrow> Inl e
               | Inr ts \<Rightarrow> Inr (JObj [(''type'', JStr ''function''), (''function'', JObj fn)] # ts)))"

definition a2o_tool_choice :: "json gomap \<Rightarrow> json gomap \<Rightarrow> json gomap" where
  "a2o_tool_choice tc out =
     (let typ = jget tc ''type'';
          out = (if typ = JStr ''auto'' then mput ''tool_choice'' (JStr ''auto'') out
                 else if typ = JStr ''any'' then mput ''tool_choice'' (JStr ''required'') out
                 else if typ = JStr ''none'' then mput ''tool_choice'' (JStr ''none'') out
                 else if typ = JStr ''tool''
                 then mput ''tool_choice'' (JObj [(''type'', JStr ''function''), (''function'', JObj [(''name'', jget tc ''name'')])]) out
                 else out)
      in if jget tc ''disable_parallel_tool_use'' = JBool True then mput ''parallel_tool_calls'' (JBool False) out else out)"

fun first_feature :: "json gomap \<Rightarrow> (string \<times> string) list \<Rightarrow> string option" where
  "first_feature input [] = None"
| "first_feature input ((key, name) # rest) = (if mhas input key then Some name else first_feature input rest)"

definition a2o_features :: "(string \<times> string) list" where
  "a2o_features = [(''thinking'', ''extended thinking''), (''mcp_servers'', ''MCP servers''),
                   (''container'', ''a container''), (''output_format'', ''structured outputs'')]"

definition a2o_system :: "json gomap \<Rightarrow> string + json list" where
  "a2o_system input =
     (case mlookup input ''system'' of
        None \<Rightarrow> Inr []
      | Some system \<Rightarrow>
          (case anthropicSystemText system of
             Inl e \<Rightarrow> Inl e
           | Inr text \<Rightarrow> Inr (if text \<noteq> [] then [JObj [(''role'', JStr ''system''), (''content'', JStr text)]] else [])))"

definition a2o_scalars :: "json gomap \<Rightarrow> json gomap \<Rightarrow> json gomap" where
  "a2o_scalars input out =
     (let out = copyIf input ''max_tokens'' ''max_tokens'' out;
          out = copyIf input ''temperature'' ''temperature'' out;
          out = copyIf input ''top_p'' ''top_p'' out;
          out = copyIf input ''stop_sequences'' ''stop'' out;
          out = copyIf input ''stream'' ''stream'' out
      in copy_key (jmap (jget input ''metadata'')) ''user_id'' ''user'' out)"

definition anthropicToOpenAIRequest :: "json gomap \<Rightarrow> string \<Rightarrow> string + json gomap" where
  "anthropicToOpenAIRequest input model =
     (case first_feature input a2o_features of
        Some name \<Rightarrow> untranslatable (name @ '', which openai cannot express'')
      | None \<Rightarrow>
          (case a2o_system input of
             Inl e \<Rightarrow> Inl e
           | Inr sys \<Rightarrow>
               (case a2o_messages (jarr (jget input ''messages'')) of
                  Inl e \<Rightarrow> Inl e
                | Inr ms \<Rightarrow>
                    (case (case mlookup input ''tools'' of
                             Some (JArr tools) \<Rightarrow> map_sum id Some (a2o_tools tools)
                           | _ \<Rightarrow> Inr None) of
                       Inl e \<Rightarrow> Inl e
                     | Inr tools \<Rightarrow>
                         (let out = [(''model'', JStr model), (''messages'', jslice (sys @ ms))];
                              out = (case tools of None \<Rightarrow> out | Some ts \<Rightarrow> mput ''tools'' (jslice ts) out);
                              out = (case mlookup input ''tool_choice'' of
                                       Some (JObj tc) \<Rightarrow> a2o_tool_choice tc out
                                     | _ \<Rightarrow> out)
                          in Inr (a2o_scalars input out))))))"

subsection \<open>OpenAI chat completions to Anthropic messages\<close>

definition imageSource :: "string \<Rightarrow> json" where
  "imageSource u =
     (case CutPrefix u ''data:'' of
        Some rest \<Rightarrow>
          (case Cut rest '','' of (meta, d, ok) \<Rightarrow>
             (if ok then JObj [(''type'', JStr ''base64''), (''media_type'', JStr (TrimSuffix meta '';base64'')), (''data'', JStr d)]
              else JObj [(''type'', JStr ''url''), (''url'', JStr u)]))
      | None \<Rightarrow> JObj [(''type'', JStr ''url''), (''url'', JStr u)])"

fun content_blocks :: "json list \<Rightarrow> string + json list" where
  "content_blocks [] = Inr []"
| "content_blocks (raw # rest) =
     (let part = jmap raw; typ = jget part ''type''
      in if typ = JStr ''text'' \<or> typ = JStr ''image_url'' then
           (case content_blocks rest of
              Inl e \<Rightarrow> Inl e
            | Inr bs \<Rightarrow>
                Inr ((if typ = JStr ''text'' then JObj [(''type'', JStr ''text''), (''text'', jget part ''text'')]
                      else JObj [(''type'', JStr ''image''),
                                 (''source'', imageSource (jstr (jget (jmap (jget part ''image_url'')) ''url'')))]) # bs))
         else if typ = JStr ''input_audio'' then untranslatable ''audio content, which anthropic cannot express''
         else untranslatable (''a '' @ show_any typ @ '' content part, which anthropic cannot express''))"

definition openAIContentToBlocks :: "json \<Rightarrow> string + json list" where
  "openAIContentToBlocks content =
     (case content of
        JStr c \<Rightarrow> Inr [JObj [(''type'', JStr ''text''), (''text'', JStr c)]]
      | JArr c \<Rightarrow> content_blocks c
      | _ \<Rightarrow> Inr [])"

text \<open>The input of a tool call: the parsed arguments, or the empty object when there are none.\<close>

definition call_input :: "json \<Rightarrow> json option" where
  "call_input arguments =
     (case arguments of
        JStr args \<Rightarrow>
          (if TrimSpace args \<noteq> [] then map_option any_value (ParseJSON args) else Some (JObj []))
      | _ \<Rightarrow> Some (JObj []))"

fun call_blocks :: "json list \<Rightarrow> string + json list" where
  "call_blocks [] = Inr []"
| "call_blocks (raw # rest) =
     (let call = jmap raw; fn = jmap (jget call ''function'')
      in case call_input (jget fn ''arguments'') of
           None \<Rightarrow> untranslatable ''tool call arguments that are not JSON''
         | Some input \<Rightarrow>
             (case call_blocks rest of
                Inl e \<Rightarrow> Inl e
              | Inr bs \<Rightarrow>
                  Inr (JObj [(''type'', JStr ''tool_use''), (''id'', jget call ''id''), (''name'', jget fn ''name''), (''input'', input)] # bs)))"

definition openAIAssistantBlocks :: "json gomap \<Rightarrow> string + json list" where
  "openAIAssistantBlocks m =
     (let text = contentText (jget m ''content'');
          blocks = (if text \<noteq> [] then [JObj [(''type'', JStr ''text''), (''text'', JStr text)]] else [])
      in case call_blocks (jarr (jget m ''tool_calls'')) of Inl e \<Rightarrow> Inl e | Inr bs \<Rightarrow> Inr (blocks @ bs))"

definition appendUser :: "json list \<Rightarrow> json gomap list \<Rightarrow> json gomap list" where
  "appendUser blocks messages =
     (if messages \<noteq> [] \<and> jget (last messages) ''role'' = JStr ''user''
      then butlast messages @ [mput ''content'' (jslice (jarr (jget (last messages) ''content'') @ blocks)) (last messages)]
      else messages @ [[(''role'', JStr ''user''), (''content'', jslice blocks)]])"

fun o2a_messages :: "json list \<Rightarrow> string list \<Rightarrow> json gomap list \<Rightarrow> string + (string list \<times> json gomap list)" where
  "o2a_messages [] system messages = Inr (system, messages)"
| "o2a_messages (rawMsg # rest) system messages =
     (let m = jmap rawMsg; role = jstr (jget m ''role'')
      in if role = ''system'' \<or> role = ''developer''
         then o2a_messages rest (system @ [contentText (jget m ''content'')]) messages
         else if role = ''user'' then
           (case openAIContentToBlocks (jget m ''content'') of
              Inl e \<Rightarrow> Inl e
            | Inr blocks \<Rightarrow> o2a_messages rest system (appendUser blocks messages))
         else if role = ''assistant'' then
           (case openAIAssistantBlocks m of
              Inl e \<Rightarrow> Inl e
            | Inr blocks \<Rightarrow>
                o2a_messages rest system (messages @ [[(''role'', JStr ''assistant''), (''content'', jslice blocks)]]))
         else if role = ''tool'' then
           o2a_messages rest system
             (appendUser [JObj [(''type'', JStr ''tool_result''), (''tool_use_id'', jget m ''tool_call_id''),
                                (''content'', JStr (contentText (jget m ''content'')))]] messages)
         else untranslatable (''the '' @ show_quoted role @ '' message role, which anthropic cannot express''))"

definition openAIMessagesToAnthropic :: "json \<Rightarrow> string + (string \<times> json list)" where
  "openAIMessagesToAnthropic raw =
     (case o2a_messages (jarr raw) [] [] of
        Inl e \<Rightarrow> Inl e
      | Inr (system, messages) \<Rightarrow> Inr (join (newline @ newline) system, map JObj messages))"

fun openAIToolsToAnthropic :: "json list \<Rightarrow> string + json list" where
  "openAIToolsToAnthropic [] = Inr []"
| "openAIToolsToAnthropic (raw # rest) =
     (let t = jmap raw
      in if jget t ''type'' \<noteq> JStr ''function''
         then untranslatable (''the tool type '' @ show_any (jget t ''type'') @ '', which anthropic cannot express'')
         else
           (let fn = jmap (jget t ''function'');
                tool = copy_key fn ''description'' ''description'' [(''name'', jget fn ''name'')];
                tool = (case mlookup fn ''parameters'' of
                          Some params \<Rightarrow> mput ''input_schema'' params tool
                        | None \<Rightarrow> mput ''input_schema'' (JObj [(''type'', JStr ''object''), (''properties'', JObj [])]) tool)
            in case openAIToolsToAnthropic rest of Inl e \<Rightarrow> Inl e | Inr ts \<Rightarrow> Inr (JObj tool # ts)))"

definition openAIToolChoiceToAnthropic :: "json gomap \<Rightarrow> json gomap option" where
  "openAIToolChoiceToAnthropic input =
     (let toolChoice =
        (case jget input ''tool_choice'' of
           JStr tc \<Rightarrow>
             (if tc = ''auto'' then Some [(''type'', JStr ''auto'')]
              else if tc = ''required'' then Some [(''type'', JStr ''any'')]
              else if tc = ''none'' then Some [(''type'', JStr ''none'')]
              else None)
         | JObj tc \<Rightarrow> Some [(''type'', JStr ''tool''), (''name'', jget (jmap (jget tc ''function'')) ''name'')]
         | _ \<Rightarrow> None)
      in if jget input ''parallel_tool_calls'' = JBool False
         then Some (mput ''disable_parallel_tool_use'' (JBool True)
                     (case toolChoice of None \<Rightarrow> [(''type'', JStr ''auto'')] | Some tc \<Rightarrow> tc))
         else toolChoice)"

definition openAIMaxTokens :: "json gomap \<Rightarrow> string \<Rightarrow> int \<Rightarrow> string + int" where
  "openAIMaxTokens input model maxOutputTokens =
     (let maxTokens = (case numberOf (jget input ''max_completion_tokens'') of
                         Some n \<Rightarrow> Some n
                       | None \<Rightarrow> numberOf (jget input ''max_tokens''))
      in case maxTokens of
           None \<Rightarrow>
             (if maxOutputTokens \<le> 0
              then untranslatable (''no max_tokens, which anthropic requires, and model '' @ show_quoted model @ '' declares no maxOutputTokens'')
              else Inr maxOutputTokens)
         | Some n \<Rightarrow> (if maxOutputTokens > 0 \<and> n > maxOutputTokens then Inr maxOutputTokens else Inr n))"

definition o2a_features :: "(string \<times> string) list" where
  "o2a_features = [(''logprobs'', ''logprobs''), (''top_logprobs'', ''logprobs''), (''response_format'', ''response_format''),
                   (''functions'', ''the legacy functions field''), (''function_call'', ''the legacy function_call field'')]"

fun set_feature :: "json gomap \<Rightarrow> (string \<times> string) list \<Rightarrow> string option" where
  "set_feature input [] = None"
| "set_feature input ((key, name) # rest) =
     (case mlookup input key of
        Some v \<Rightarrow> (if v \<noteq> JNull \<and> v \<noteq> JBool False then Some name else set_feature input rest)
      | None \<Rightarrow> set_feature input rest)"

definition openAIUntranslatable :: "json gomap \<Rightarrow> string + unit" where
  "openAIUntranslatable input =
     (case numberOf (jget input ''n'') of
        Some n \<Rightarrow>
          (if n > 1 then untranslatable ''n greater than 1, which anthropic cannot express''
           else case set_feature input o2a_features of
                  Some name \<Rightarrow> untranslatable (name @ '', which anthropic cannot express'')
                | None \<Rightarrow> Inr ())
      | None \<Rightarrow>
          (case set_feature input o2a_features of
             Some name \<Rightarrow> untranslatable (name @ '', which anthropic cannot express'')
           | None \<Rightarrow> Inr ()))"

definition o2a_scalars :: "json gomap \<Rightarrow> json gomap \<Rightarrow> json gomap" where
  "o2a_scalars input out =
     (let out = copyIf input ''temperature'' ''temperature'' out;
          out = copyIf input ''top_p'' ''top_p'' out;
          out = copyIf input ''stream'' ''stream'' out;
          out = (case jget input ''stop'' of
                   JStr stop \<Rightarrow> mput ''stop_sequences'' (JArr [JStr stop]) out
                 | JArr stop \<Rightarrow> mput ''stop_sequences'' (JArr stop) out
                 | _ \<Rightarrow> out)
      in case mlookup input ''user'' of
           Some user \<Rightarrow> mput ''metadata'' (JObj [(''user_id'', user)]) out
         | None \<Rightarrow> out)"

definition openAIToAnthropicRequest :: "json gomap \<Rightarrow> string \<Rightarrow> int \<Rightarrow> string + json gomap" where
  "openAIToAnthropicRequest input model maxOutputTokens =
     (case openAIUntranslatable input of
        Inl e \<Rightarrow> Inl e
      | Inr _ \<Rightarrow>
          (case openAIMessagesToAnthropic (jget input ''messages'') of
             Inl e \<Rightarrow> Inl e
           | Inr (system, messages) \<Rightarrow>
               (case (case mlookup input ''tools'' of
                        Some (JArr tools) \<Rightarrow> map_sum id Some (openAIToolsToAnthropic tools)
                      | _ \<Rightarrow> Inr None) of
                  Inl e \<Rightarrow> Inl e
                | Inr tools \<Rightarrow>
                    (case openAIMaxTokens input model maxOutputTokens of
                       Inl e \<Rightarrow> Inl e
                     | Inr maxTokens \<Rightarrow>
                         (let out = [(''model'', JStr model)];
                              out = (if system \<noteq> [] then mput ''system'' (JStr system) out else out);
                              out = mput ''messages'' (JArr messages) out;
                              out = (case tools of None \<Rightarrow> out | Some ts \<Rightarrow> mput ''tools'' (jslice ts) out);
                              out = (case openAIToolChoiceToAnthropic input of
                                       None \<Rightarrow> out
                                     | Some tc \<Rightarrow> mput ''tool_choice'' (JObj tc) out);
                              out = mput ''max_tokens'' (JNum (of_int maxTokens)) out
                          in Inr (o2a_scalars input out))))))"

definition Request :: "string \<Rightarrow> string \<Rightarrow> json gomap \<Rightarrow> string \<Rightarrow> int \<Rightarrow> string + json gomap" where
  "Request from to body model maxOutputTokens =
     (if from = to then Inr (mput ''model'' (JStr model) body)
      else if from = FormatAnthropic \<and> to = FormatOpenAI then anthropicToOpenAIRequest body model
      else if from = FormatOpenAI \<and> to = FormatAnthropic then openAIToAnthropicRequest body model maxOutputTokens
      else Inl (''no translation from '' @ from @ '' to '' @ to))"

lemmas jaccess_defs [kaalm_eval] = jmap_def jarr_def jstr_def jget_def jslice_def
lemmas translate_defs [kaalm_eval] = FormatAnthropic_def FormatOpenAI_def untranslatable_def newline_def contentText_def
  joinTextParts_def allText_def copyIf_def numberOf_def anthropicSystemText_def anthropicImageURL_def
  anthropicToolResultText_def tool_call_def tool_message_def anthropicMessageToOpenAI_def copy_key_def
  a2o_tool_choice_def a2o_features_def a2o_system_def a2o_scalars_def anthropicToOpenAIRequest_def imageSource_def
  openAIContentToBlocks_def call_input_def openAIAssistantBlocks_def appendUser_def openAIMessagesToAnthropic_def
  openAIToolChoiceToAnthropic_def openAIMaxTokens_def o2a_features_def openAIUntranslatable_def o2a_scalars_def
  openAIToAnthropicRequest_def Request_def

subsection \<open>Reading translated maps\<close>

lemma mlookup_copyIf:
  "k \<noteq> to \<Longrightarrow> mlookup (copyIf input from to out) k = mlookup out k"
  by (simp add: copyIf_def split: option.split)

lemma mlookup_copy_key:
  "k \<noteq> to \<Longrightarrow> mlookup (copy_key input from to out) k = mlookup out k"
  by (simp add: copy_key_def split: option.split)

lemma mlookup_o2a_scalars:
  "k \<notin> {''temperature'', ''top_p'', ''stream'', ''stop_sequences'', ''metadata''} \<Longrightarrow> mlookup (o2a_scalars input out) k = mlookup out k"
  by (simp add: o2a_scalars_def mlookup_copyIf Let_def split: option.split json.split)

lemma openAIMaxTokens_bound:
  "openAIMaxTokens input model ceil = Inr n \<Longrightarrow> 0 < ceil \<Longrightarrow> n \<le> ceil"
  by (auto simp: openAIMaxTokens_def untranslatable_def Let_def split: option.splits if_splits)

lemma openAIToAnthropicRequest_cases:
  assumes "openAIToAnthropicRequest input model ceil = Inr out"
  obtains system messages n where
    "openAIMessagesToAnthropic (jget input ''messages'') = Inr (system, messages)"
    "openAIMaxTokens input model ceil = Inr n"
    "mlookup out ''max_tokens'' = Some (JNum (of_int n))"
    "mlookup out ''messages'' = Some (JArr messages)"
    "mlookup out ''model'' = Some (JStr model)"
proof -
  obtain system messages n tools where r: "openAIMessagesToAnthropic (jget input ''messages'') = Inr (system, messages)"
    "openAIMaxTokens input model ceil = Inr n"
    and out: "out = o2a_scalars input
       (mput ''max_tokens'' (JNum (of_int n))
         (case openAIToolChoiceToAnthropic input of
            None \<Rightarrow> (case tools of None \<Rightarrow> mput ''messages'' (JArr messages) (if system \<noteq> [] then mput ''system'' (JStr system) [(''model'', JStr model)] else [(''model'', JStr model)])
                      | Some ts \<Rightarrow> mput ''tools'' (jslice ts) (mput ''messages'' (JArr messages) (if system \<noteq> [] then mput ''system'' (JStr system) [(''model'', JStr model)] else [(''model'', JStr model)])))
          | Some tc \<Rightarrow> mput ''tool_choice'' (JObj tc)
              (case tools of None \<Rightarrow> mput ''messages'' (JArr messages) (if system \<noteq> [] then mput ''system'' (JStr system) [(''model'', JStr model)] else [(''model'', JStr model)])
                      | Some ts \<Rightarrow> mput ''tools'' (jslice ts) (mput ''messages'' (JArr messages) (if system \<noteq> [] then mput ''system'' (JStr system) [(''model'', JStr model)] else [(''model'', JStr model)])))))"
    using assms unfolding openAIToAnthropicRequest_def Let_def
    by (simp split: sum.splits prod.splits) blast
  have "mlookup out ''max_tokens'' = Some (JNum (of_int n))" "mlookup out ''messages'' = Some (JArr messages)"
    "mlookup out ''model'' = Some (JStr model)"
    unfolding out by (simp_all add: mlookup_o2a_scalars split: option.split)
  then show ?thesis using that r by blast
qed

lemma Request_openai_anthropic: "Request FormatOpenAI FormatAnthropic body model ceil = openAIToAnthropicRequest body model ceil"
  by (simp add: Request_def FormatOpenAI_def FormatAnthropic_def)

paragraph \<open>Turns alternate\<close>

definition user_turn :: "json gomap \<Rightarrow> bool" where
  "user_turn m = (jget m ''role'' = JStr ''user'')"

definition turns_merged :: "json gomap list \<Rightarrow> bool" where
  "turns_merged ms = successively (\<lambda>a b. \<not> (user_turn a \<and> user_turn b)) ms"

lemma turns_merged_snoc:
  "turns_merged (ms @ [m]) \<longleftrightarrow> turns_merged ms \<and> (ms \<noteq> [] \<longrightarrow> \<not> (user_turn (last ms) \<and> user_turn m))"
  by (auto simp: turns_merged_def successively_append_iff)

lemma turns_merged_appendUser: "turns_merged ms \<Longrightarrow> turns_merged (appendUser blocks ms)"
proof (cases "ms \<noteq> [] \<and> user_turn (last ms)")
  case True
  assume ok: "turns_merged ms"
  let ?m = "mput ''content'' (jslice (jarr (jget (last ms) ''content'') @ blocks)) (last ms)"
  have a: "appendUser blocks ms = butlast ms @ [?m]" using True by (simp add: appendUser_def user_turn_def)
  have u: "user_turn ?m" using True by (simp add: user_turn_def jget_def)
  have "turns_merged (butlast ms @ [last ms])" using ok True by simp
  then show ?thesis unfolding a turns_merged_snoc using True by auto
next
  case False
  assume ok: "turns_merged ms"
  have "appendUser blocks ms = ms @ [[(''role'', JStr ''user''), (''content'', jslice blocks)]]"
    using False by (auto simp: appendUser_def user_turn_def)
  then show ?thesis using ok False by (auto simp: turns_merged_snoc)
qed

lemma o2a_messages_merged:
  "o2a_messages raws system ms = Inr (system', ms') \<Longrightarrow> turns_merged ms \<Longrightarrow> turns_merged ms'"
proof (induction raws arbitrary: system ms)
  case (Cons raw raws)
  have asst: "\<not> user_turn [(''role'', JStr ''assistant''), (''content'', jslice blocks)]" for blocks
    by (simp add: user_turn_def jget_def mget_def)
  show ?case using Cons turns_merged_appendUser [OF Cons.prems(2)] asst
    by (auto simp: Let_def turns_merged_snoc untranslatable_def split: if_splits sum.splits)
qed simp

paragraph \<open>Tool calls keep their input\<close>

definition text_block :: "string \<Rightarrow> json" where
  "text_block t = JObj [(''type'', JStr ''text''), (''text'', JStr t)]"

definition tool_use_block :: "json \<times> json \<times> json \<Rightarrow> json" where
  "tool_use_block call =
     (case call of (i, n, v) \<Rightarrow> JObj [(''type'', JStr ''tool_use''), (''id'', i), (''name'', n), (''input'', v)])"

lemma any_entries_fresh:
  "canonical_members es \<Longrightarrow> distinct (map fst es) \<Longrightarrow> (\<And>k v. (k, v) \<in> set es \<Longrightarrow> any_value v = v) \<Longrightarrow> (\<And>k. mhas acc k \<Longrightarrow> k \<notin> fst ` set es) \<Longrightarrow>
   any_entries es acc = acc @ es"
proof (induction es arbitrary: acc)
  case (Cons e es)
  obtain k v where e: "e = (k, v)" by force
  have "\<not> mhas acc k" using Cons.prems(4) [of k] e by force
  then have "mput k v acc = acc @ [(k, v)]" by (induction acc) (auto simp: mput_def mhas_Cons)
  moreover have "any_value v = v" using Cons.prems(3) e by auto
  moreover have "any_entries es (mput k v acc) = mput k v acc @ es"
  proof (rule Cons.IH)
    fix k' assume "mhas (mput k v acc) k'"
    then show "k' \<notin> fst ` set es" using Cons.prems(2) Cons.prems(4) [of k'] e by auto
  qed (use Cons.prems e in auto)
  ultimately show ?case by (simp add: e)
qed simp

lemma any_value_canonical:
  "canonical v \<Longrightarrow> any_value v = v"
  "canonical_list vs \<Longrightarrow> any_values vs = vs"
  "canonical_members es \<Longrightarrow> \<forall>(k, v)\<in>set es. any_value v = v"
  by (induction v and vs and es rule: print_json_print_list_print_members.induct)
     (auto intro!: any_entries_fresh [of _ "[]", simplified])

lemma TrimSpace_ne:
  assumes "s \<noteq> []" "\<not> is_space (hd s)" shows "TrimSpace s \<noteq> []"
proof -
  obtain c r where "s = c # r" "\<not> is_space c" using assms by (cases s) auto
  then have "c \<in> set (rev (dropWhile is_space s))" "\<not> is_space c" by auto
  then show ?thesis unfolding TrimSpace_def by (metis dropWhile_eq_Nil_conv rev_is_Nil_conv)
qed

lemma print_json_visible:
  assumes "canonical v" shows "TrimSpace (print_json v) \<noteq> []"
proof (rule TrimSpace_ne [OF print_json_ne [OF assms]])
  show "\<not> is_space (hd (print_json v))"
  proof (cases v)
    case (JNum q)
    have "number_char (hd (show_int i))" for i
      using show_int_chars [of "hd (show_int i)" i] show_int_ne [of i] by simp
    then have "number_char (hd (print_json v))" using assms JNum by (simp add: print_num_int)
    then show ?thesis by (auto simp: number_char_def is_space_def digit_val_def Let_def split: if_splits)
  qed (auto simp: is_space_def print_str_def dquote_def)
qed

lemma call_input_print: "canonical v \<Longrightarrow> call_input (JStr (print_json v)) = Some v"
  by (simp add: call_input_def print_json_visible ParseJSON_print any_value_canonical)

lemma jget_simps [simp]:
  "jget ((k, v) # m) k' = (if k' = k then v else jget m k')" "jget [] k' = JNull" "jmap (JObj es) = es" "jarr (JArr vs) = vs"
  by (simp_all add: jget_def mget_def jmap_def jarr_def)

lemma message_blocks_tools:
  "message_blocks (map tool_use_block calls) (tms, ps, tcs) =
   Inr (tms, ps, tcs @ map (\<lambda>c. tool_call (jmap (tool_use_block c))) calls)"
  by (induction calls arbitrary: tcs) (auto simp: tool_use_block_def Let_def)

lemma call_blocks_tools:
  "\<forall>(i, n, v)\<in>set calls. canonical v \<Longrightarrow>
   call_blocks (map (\<lambda>c. tool_call (jmap (tool_use_block c))) calls) = Inr (map tool_use_block calls)"
  by (induction calls) (auto simp: tool_use_block_def tool_call_def call_input_print)

lemma assistant_turn_openai:
  "t \<noteq> [] \<Longrightarrow> anthropicMessageToOpenAI ''assistant'' (JArr (text_block t # map tool_use_block calls)) =
   Inr [JObj ([(''role'', JStr ''assistant''), (''content'', JStr t)] @
        (if calls \<noteq> [] then [(''tool_calls'', JArr (map (\<lambda>c. tool_call (jmap (tool_use_block c))) calls))] else []))]"
  by (simp add: anthropicMessageToOpenAI_def text_block_def message_blocks_tools joinTextParts_def)

subsection \<open>Properties\<close>

text \<open>A request translated to Anthropic always names \<open>max_tokens\<close>, which that format
  requires: the value is never above a declared ceiling of the target model, and the translated
  request names the target model.\<close>
theorem translated_max_tokens:
  assumes "Request FormatOpenAI FormatAnthropic body model ceil = Inr out"
  shows "mlookup out ''model'' = Some (JStr model) \<and>
    (\<exists>n. mlookup out ''max_tokens'' = Some (JNum (of_int n)) \<and> (0 < ceil \<longrightarrow> n \<le> ceil))"
  using assms unfolding Request_openai_anthropic
  by (rule openAIToAnthropicRequest_cases) (use openAIMaxTokens_bound in blast)

definition sample_chat :: "json gomap" where
  "sample_chat = [(''model'', JStr ''gpt''), (''max_tokens'', JNum 9000),
     (''messages'', JArr [JObj [(''role'', JStr ''user''), (''content'', JStr ''hi'')],
                          JObj [(''role'', JStr ''tool''), (''tool_call_id'', JStr ''t1''), (''content'', JStr ''42'')]])]"

definition sample_messages :: "json gomap" where
  "sample_messages = [(''model'', JStr ''claude''),
     (''messages'', JArr [JObj [(''role'', JStr ''user''),
        (''content'', JArr [JObj [(''type'', JStr ''text''), (''text'', JStr ''hi'')],
                            JObj [(''type'', JStr ''tool_result''), (''tool_use_id'', JStr ''t1''), (''content'', JStr ''42'')]])]]),
     (''max_tokens'', JNum 4096)]"

lemma sample_chat_translates: "Request FormatOpenAI FormatAnthropic sample_chat ''claude'' 4096 = Inr sample_messages"
  by (simp add: kaalm_eval sample_chat_def sample_messages_def Let_def del: jget_simps)

theorem translated_max_tokens_witness:
  "\<exists>n. mlookup sample_messages ''max_tokens'' = Some (JNum (of_int n)) \<and> (0 < (4096 :: int) \<longrightarrow> n \<le> 4096)"
  using translated_max_tokens [OF sample_chat_translates] by blast



text \<open>Property C31. An assistant turn survives the round trip between the formats: a text followed
  by any number of tool calls, translated to OpenAI and back, gives the same blocks with the same
  identifiers, names and inputs, although OpenAI carries each input as a string of JSON.\<close>
theorem assistant_turn_round_trip:
  assumes "t \<noteq> []" "\<forall>(i, n, v)\<in>set calls. canonical v"
  shows "\<exists>m. anthropicMessageToOpenAI ''assistant'' (JArr (text_block t # map tool_use_block calls)) = Inr [JObj m]
    \<and> openAIAssistantBlocks m = Inr (text_block t # map tool_use_block calls)"
  unfolding assistant_turn_openai [OF assms(1)] using assms(1) call_blocks_tools [OF assms(2)]
  by (cases "calls = []") (auto simp: openAIAssistantBlocks_def contentText_def text_block_def jarr_def)

theorem assistant_turn_round_trip_witness:
  "\<exists>m. anthropicMessageToOpenAI ''assistant''
         (JArr (text_block ''ok'' # map tool_use_block [(JStr ''t1'', JStr ''get'', JObj [(''q'', JArr [JNum 7, JStr ''a''])])])) = Inr [JObj m]
    \<and> openAIAssistantBlocks m = Inr (text_block ''ok'' # map tool_use_block [(JStr ''t1'', JStr ''get'', JObj [(''q'', JArr [JNum 7, JStr ''a''])])])"
  by (rule assistant_turn_round_trip) simp_all

end
