(* ===== verification/Llm_Response.thy ===== *)
theory Llm_Response
  imports Llm_Translate Go_Time
begin

text \<open>
  The response and error translators (\<^verbatim>\<open>internal/llmtranslate/response.go\<close>). A body is its text;
  \<^verbatim>\<open>time.Now\<close> is an argument. Sums of token counts wrap at 64 bits (\<open>wrap64\<close>).
\<close>

subsection \<open>The code\<close>

definition wrap64 :: "int \<Rightarrow> int" where
  "wrap64 n = (n + 2 ^ 63) mod 2 ^ 64 - 2 ^ 63"

definition jint :: "int \<Rightarrow> json" where
  "jint n = JNum (of_int n)"

definition stopToFinish :: "string gomap" where
  "stopToFinish = [(''end_turn'', ''stop''), (''max_tokens'', ''length''), (''tool_use'', ''tool_calls''),
                   (''stop_sequence'', ''stop''), (''refusal'', ''content_filter''), (''pause_turn'', ''stop'')]"

definition finishToStop :: "string gomap" where
  "finishToStop = [(''stop'', ''end_turn''), (''length'', ''max_tokens''), (''tool_calls'', ''tool_use''),
                   (''content_filter'', ''refusal'')]"

definition finish_reason :: "string \<Rightarrow> string" where
  "finish_reason stop = (let finish = mget [] stopToFinish stop in if finish = [] then ''stop'' else finish)"

record anthropicResponse =
  ar_ID :: string
  ar_Model :: string
  ar_Content :: "json gomap list"
  ar_StopReason :: string
  ar_InputTokens :: int
  ar_OutputTokens :: int
  ar_CacheReadInputTokens :: int
  ar_CacheCreationInputTokens :: int

definition anthropicResponse_zero :: anthropicResponse where
  "anthropicResponse_zero =
     \<lparr>ar_ID = [], ar_Model = [], ar_Content = [], ar_StopReason = [], ar_InputTokens = 0, ar_OutputTokens = 0,
      ar_CacheReadInputTokens = 0, ar_CacheCreationInputTokens = 0\<rparr>"

text \<open>An element of \<^verbatim>\<open>[]map[string]any\<close>.\<close>

definition decode_any_map :: "json gomap dec" where
  "decode_any_map v m = (case v of JNull \<Rightarrow> Some [] | JObj es \<Rightarrow> Some (any_entries es m) | _ \<Rightarrow> None)"

definition anthropicResponse_dec :: "anthropicResponse dec" where
  "anthropicResponse_dec =
     decode_struct
       [(''id'', decode_string ar_ID_update), (''model'', decode_string ar_Model_update),
        (''content'', decode_slice [] decode_any_map ar_Content_update),
        (''stop_reason'', decode_string ar_StopReason_update),
        (''usage'', decode_struct
           [(''input_tokens'', decode_int64 ar_InputTokens_update),
            (''output_tokens'', decode_int64 ar_OutputTokens_update),
            (''cache_read_input_tokens'', decode_int64 ar_CacheReadInputTokens_update),
            (''cache_creation_input_tokens'', decode_int64 ar_CacheCreationInputTokens_update)])]"

fun response_blocks :: "json gomap list \<Rightarrow> string \<Rightarrow> json list \<Rightarrow> string \<times> json list" where
  "response_blocks [] text toolCalls = (text, toolCalls)"
| "response_blocks (block # rest) text toolCalls =
     (if jget block ''type'' = JStr ''text'' then
        (case jget block ''text'' of
           JStr t \<Rightarrow> response_blocks rest ((if text \<noteq> [] then text @ newline else text) @ t) toolCalls
         | _ \<Rightarrow> response_blocks rest text toolCalls)
      else if jget block ''type'' = JStr ''tool_use'' then response_blocks rest text (toolCalls @ [tool_call block])
      else response_blocks rest text toolCalls)"

definition prompt_tokens :: "anthropicResponse \<Rightarrow> int" where
  "prompt_tokens r = wrap64 (wrap64 (ar_InputTokens r + ar_CacheReadInputTokens r) + ar_CacheCreationInputTokens r)"

definition openai_usage :: "int \<Rightarrow> int \<Rightarrow> json" where
  "openai_usage prompt completion =
     JObj [(''prompt_tokens'', jint prompt), (''completion_tokens'', jint completion), (''total_tokens'', jint (wrap64 (prompt + completion)))]"

definition unix_seconds :: "instant \<Rightarrow> int" where
  "unix_seconds t = t div second_ns"

definition anthropicToOpenAIResponse :: "instant \<Rightarrow> string \<Rightarrow> json option" where
  "anthropicToOpenAIResponse now body =
     (case Unmarshal anthropicResponse_dec anthropicResponse_zero (ParseJSON body) of
        None \<Rightarrow> None
      | Some r \<Rightarrow>
          (case response_blocks (ar_Content r) [] [] of (text, toolCalls) \<Rightarrow>
             (let message = [(''role'', JStr ''assistant''), (''content'', if text \<noteq> [] then JStr text else JNull)] @
                            (if toolCalls \<noteq> [] then [(''tool_calls'', JArr toolCalls)] else [])
              in Some (JObj
                   [(''id'', JStr (ar_ID r)), (''object'', JStr ''chat.completion''), (''created'', jint (unix_seconds now)),
                    (''model'', JStr (ar_Model r)),
                    (''choices'', JArr [JObj [(''index'', jint 0), (''message'', JObj message),
                                              (''finish_reason'', JStr (finish_reason (ar_StopReason r)))]]),
                    (''usage'', openai_usage (prompt_tokens r) (ar_OutputTokens r))]))))"

record openAICall =
  cl_ID :: string
  cl_Name :: string
  cl_Arguments :: string

record openAIChoice =
  ch_Content :: json
  ch_ToolCalls :: "openAICall list"
  ch_FinishReason :: string

record openAIResponse =
  or_ID :: string
  or_Model :: string
  or_Choices :: "openAIChoice list"
  or_PromptTokens :: int
  or_CompletionTokens :: int

definition openAICall_zero :: openAICall where
  "openAICall_zero = \<lparr>cl_ID = [], cl_Name = [], cl_Arguments = []\<rparr>"

definition openAIChoice_zero :: openAIChoice where
  "openAIChoice_zero = \<lparr>ch_Content = JNull, ch_ToolCalls = [], ch_FinishReason = []\<rparr>"

definition openAIResponse_zero :: openAIResponse where
  "openAIResponse_zero = \<lparr>or_ID = [], or_Model = [], or_Choices = [], or_PromptTokens = 0, or_CompletionTokens = 0\<rparr>"

definition openAICall_dec :: "openAICall dec" where
  "openAICall_dec =
     decode_struct [(''id'', decode_string cl_ID_update),
                    (''function'', decode_struct [(''name'', decode_string cl_Name_update),
                                                  (''arguments'', decode_string cl_Arguments_update)])]"

definition openAIChoice_dec :: "openAIChoice dec" where
  "openAIChoice_dec =
     decode_struct [(''message'', decode_struct [(''content'', decode_any ch_Content_update),
                                                 (''tool_calls'', decode_slice openAICall_zero openAICall_dec ch_ToolCalls_update)]),
                    (''finish_reason'', decode_string ch_FinishReason_update)]"

definition openAIResponse_dec :: "openAIResponse dec" where
  "openAIResponse_dec =
     decode_struct [(''id'', decode_string or_ID_update), (''model'', decode_string or_Model_update),
                    (''choices'', decode_slice openAIChoice_zero openAIChoice_dec or_Choices_update),
                    (''usage'', decode_struct [(''prompt_tokens'', decode_int64 or_PromptTokens_update),
                                               (''completion_tokens'', decode_int64 or_CompletionTokens_update)])]"

definition response_call :: "openAICall \<Rightarrow> json" where
  "response_call call =
     (let input = (if cl_Arguments call = [] then JObj []
                   else case ParseJSON (cl_Arguments call) of
                          Some v \<Rightarrow> any_value v
                        | None \<Rightarrow> JObj [(''_arguments'', JStr (cl_Arguments call))])
      in JObj [(''type'', JStr ''tool_use''), (''id'', JStr (cl_ID call)), (''name'', JStr (cl_Name call)), (''input'', input)])"

definition response_choice :: "openAIChoice list \<Rightarrow> json list \<times> string" where
  "response_choice choices =
     (case choices of
        [] \<Rightarrow> ([], ''end_turn'')
      | choice # _ \<Rightarrow>
          (let text = contentText (ch_Content choice);
               content = (if text \<noteq> [] then [JObj [(''type'', JStr ''text''), (''text'', JStr text)]] else []) @
                         map response_call (ch_ToolCalls choice);
               stop = (case mlookup finishToStop (ch_FinishReason choice) of Some s \<Rightarrow> s | None \<Rightarrow> ''end_turn'')
           in (content, if ch_ToolCalls choice \<noteq> [] then ''tool_use'' else stop)))"

definition openAIToAnthropicResponse :: "string \<Rightarrow> json option" where
  "openAIToAnthropicResponse body =
     (case Unmarshal openAIResponse_dec openAIResponse_zero (ParseJSON body) of
        None \<Rightarrow> None
      | Some r \<Rightarrow>
          (case response_choice (or_Choices r) of (content, stop) \<Rightarrow>
             Some (JObj
               [(''id'', JStr (or_ID r)), (''type'', JStr ''message''), (''role'', JStr ''assistant''), (''model'', JStr (or_Model r)),
                (''content'', JArr content), (''stop_reason'', JStr stop), (''stop_sequence'', JNull),
                (''usage'', JObj [(''input_tokens'', jint (or_PromptTokens r)), (''output_tokens'', jint (or_CompletionTokens r))])])))"

definition Response :: "instant \<Rightarrow> string \<Rightarrow> string \<Rightarrow> string \<Rightarrow> string option" where
  "Response now from to body =
     (if from = to then Some body
      else if from = FormatAnthropic \<and> to = FormatOpenAI then map_option print_json (anthropicToOpenAIResponse now body)
      else if from = FormatOpenAI \<and> to = FormatAnthropic then map_option print_json (openAIToAnthropicResponse body)
      else None)"

record errorFields =
  ef_Type :: string
  ef_Message :: string

definition error_fields :: "string \<Rightarrow> errorFields" where
  "error_fields body =
     (let z = \<lparr>ef_Type = [], ef_Message = []\<rparr>
      in case Unmarshal (decode_struct [(''error'', decode_struct [(''type'', decode_string ef_Type_update),
                                                                   (''message'', decode_string ef_Message_update)])]) z (ParseJSON body) of
           Some e \<Rightarrow> (if ef_Message e \<noteq> [] then e else z)
         | None \<Rightarrow> z)"

definition translate_Error :: "string \<Rightarrow> string \<Rightarrow> string \<Rightarrow> string" where
  "translate_Error from to body =
     (if from = to then body
      else
        (let e = (if from = FormatAnthropic \<or> from = FormatOpenAI then error_fields body else \<lparr>ef_Type = [], ef_Message = []\<rparr>);
             message = (if ef_Message e = [] then body else ef_Message e);
             errType = (if ef_Type e = [] then ''invalid_request_error'' else ef_Type e)
         in print_json
              (if to = FormatAnthropic
               then JObj [(''type'', JStr ''error''), (''error'', JObj [(''type'', JStr errType), (''message'', JStr message)])]
               else JObj [(''error'', JObj [(''message'', JStr message), (''type'', JStr errType), (''code'', JNull)])])))"

lemmas response_defs [kaalm_eval] = wrap64_def jint_def stopToFinish_def finishToStop_def finish_reason_def
  anthropicResponse_zero_def decode_any_map_def anthropicResponse_dec_def prompt_tokens_def openai_usage_def
  unix_seconds_def anthropicToOpenAIResponse_def openAICall_zero_def openAIChoice_zero_def openAIResponse_zero_def
  openAICall_dec_def openAIChoice_dec_def openAIResponse_dec_def response_call_def response_choice_def
  openAIToAnthropicResponse_def Response_def error_fields_def translate_Error_def

subsection \<open>What a caller reads in a translated response\<close>

lemma wrap64_id: "- (2 ^ 63) \<le> n \<Longrightarrow> n < 2 ^ 63 \<Longrightarrow> wrap64 n = n"
  by (simp add: wrap64_def)

lemma key_order: "sort_key fst [(''type'', a), (''error'', b)] = [(''error'', b), (''type'', a)]"
  "sort_key fst [(''type'', a), (''message'', c)] = [(''message'', c), (''type'', a)]"
  "sort_key fst [(''message'', a), (''type'', b), (''code'', c)] = [(''code'', c), (''message'', a), (''type'', b)]"
  by simp_all

text \<open>A decoder that reads fewer fields sees the same values of the fields it reads.\<close>

lemma decode_entries_sim:
  assumes "\<And>k d v s s'. field_dec fs k = Some d \<Longrightarrow> d v s = Some s' \<Longrightarrow>
      (case field_dec gs k of None \<Rightarrow> pr s' = pr s | Some e \<Rightarrow> e v (pr s) = Some (pr s'))"
    and "\<And>k. field_dec fs k = None \<Longrightarrow> field_dec gs k = None"
  shows "decode_entries fs es s = Some s' \<Longrightarrow> decode_entries gs es (pr s) = Some (pr s')"
proof (induction es arbitrary: s)
  case (Cons e es)
  obtain k v where e: "e = (k, v)" by force
  show ?case
  proof (cases "field_dec fs k")
    case None
    then show ?thesis using Cons assms(2) e by simp
  next
    case (Some d)
    then obtain s1 where d: "d v s = Some s1" "decode_entries fs es s1 = Some s'"
      using Cons.prems by (auto simp: e split: option.splits)
    show ?thesis
    proof (cases "field_dec gs k")
      case None
      then show ?thesis using assms(1) [OF Some d(1)] Cons.IH [OF d(2)] by (simp add: e)
    next
      case g: (Some g)
      then show ?thesis using assms(1) [OF Some d(1)] Cons.IH [OF d(2)] by (simp add: e)
    qed
  qed
qed simp

end
