(* ===== verification/Llm_Stream.thy ===== *)
theory Llm_Stream
  imports Llm_Response
begin

text \<open>
  The stream translators (\<^verbatim>\<open>internal/llmtranslate/stream.go\<close>): one SSE line in, the lines to
  write out, with the translator's fields as a record that the operations return updated. A nil map
  of tool indexes is the empty one (the code puts an entry in as soon as it makes the map). Lines
  are strings without their newline.
\<close>

subsection \<open>The code\<close>

definition sseEvent :: "string \<Rightarrow> json \<Rightarrow> string list" where
  "sseEvent name payload = [''event: '' @ name, ''data: '' @ print_json payload, []]"

definition sseData :: "json \<Rightarrow> string list" where
  "sseData payload = [''data: '' @ print_json payload, []]"

paragraph \<open>OpenAI chunks to Anthropic events\<close>

record openAIToAnthropicStream =
  oa_model :: string
  oa_id :: string
  oa_started :: bool
  oa_blockOpen :: bool
  oa_blockIndex :: int
  oa_blockIsTool :: bool
  oa_toolIndexes :: "(int \<times> int) list"
  oa_finish :: string
  oa_deltaSent :: bool
  oa_stopped :: bool
  oa_outputTokens :: int
  oa_inputTokens :: int

definition newOpenAIToAnthropicStream :: "instant \<Rightarrow> string \<Rightarrow> openAIToAnthropicStream" where
  "newOpenAIToAnthropicStream now model =
     \<lparr>oa_model = model, oa_id = ''msg_'' @ show_int now, oa_started = False, oa_blockOpen = False, oa_blockIndex = 0,
      oa_blockIsTool = False, oa_toolIndexes = [], oa_finish = [], oa_deltaSent = False, oa_stopped = False,
      oa_outputTokens = 0, oa_inputTokens = 0\<rparr>"

record chunkFunction =
  cf_Name :: string
  cf_Arguments :: string

record chunkCall =
  cc_Index :: int
  cc_ID :: string
  cc_Function :: "chunkFunction option"

record chunkChoice =
  cx_Content :: "string option"
  cx_ToolCalls :: "chunkCall list"
  cx_FinishReason :: "string option"

record chunkUsage =
  cu_PromptTokens :: int
  cu_CompletionTokens :: int

record openAIChunk =
  ck_Model :: string
  ck_Choices :: "chunkChoice list"
  ck_Usage :: "chunkUsage option"

definition decode_text :: "string dec" where
  "decode_text = decode_string (\<lambda>f. f)"

definition chunkFunction_dec :: "chunkFunction dec" where
  "chunkFunction_dec =
     decode_struct [(''name'', decode_string cf_Name_update), (''arguments'', decode_string cf_Arguments_update)]"

definition chunkCall_dec :: "chunkCall dec" where
  "chunkCall_dec =
     decode_struct [(''index'', decode_int64 cc_Index_update), (''id'', decode_string cc_ID_update),
                    (''function'', decode_ptr \<lparr>cf_Name = [], cf_Arguments = []\<rparr> chunkFunction_dec cc_Function cc_Function_update)]"

definition chunkChoice_dec :: "chunkChoice dec" where
  "chunkChoice_dec =
     decode_struct
       [(''delta'', decode_struct
           [(''content'', decode_ptr [] decode_text cx_Content cx_Content_update),
            (''tool_calls'', decode_slice \<lparr>cc_Index = 0, cc_ID = [], cc_Function = None\<rparr> chunkCall_dec cx_ToolCalls_update)]),
        (''finish_reason'', decode_ptr [] decode_text cx_FinishReason cx_FinishReason_update)]"

definition openAIChunk_dec :: "openAIChunk dec" where
  "openAIChunk_dec =
     decode_struct
       [(''model'', decode_string ck_Model_update),
        (''choices'', decode_slice \<lparr>cx_Content = None, cx_ToolCalls = [], cx_FinishReason = None\<rparr> chunkChoice_dec ck_Choices_update),
        (''usage'', decode_ptr \<lparr>cu_PromptTokens = 0, cu_CompletionTokens = 0\<rparr>
           (decode_struct [(''prompt_tokens'', decode_int64 cu_PromptTokens_update),
                           (''completion_tokens'', decode_int64 cu_CompletionTokens_update)]) ck_Usage ck_Usage_update)]"

definition block_stop :: "int \<Rightarrow> string list" where
  "block_stop i = sseEvent ''content_block_stop'' (JObj [(''type'', JStr ''content_block_stop''), (''index'', jint i)])"

definition block_delta :: "int \<Rightarrow> json \<Rightarrow> string list" where
  "block_delta i delta =
     sseEvent ''content_block_delta'' (JObj [(''type'', JStr ''content_block_delta''), (''index'', jint i), (''delta'', delta)])"

definition openBlock :: "json \<Rightarrow> bool \<Rightarrow> openAIToAnthropicStream \<Rightarrow> string list \<times> openAIToAnthropicStream" where
  "openBlock block isTool s =
     (let (out, s) = (if oa_blockOpen s then (block_stop (oa_blockIndex s), s\<lparr>oa_blockIndex := oa_blockIndex s + 1\<rparr>) else ([], s));
          s = s\<lparr>oa_blockOpen := True, oa_blockIsTool := isTool\<rparr>
      in (out @ sseEvent ''content_block_start''
                  (JObj [(''type'', JStr ''content_block_start''), (''index'', jint (oa_blockIndex s)), (''content_block'', block)]), s))"

definition messageDelta :: "openAIToAnthropicStream \<Rightarrow> string list \<times> openAIToAnthropicStream" where
  "messageDelta s =
     (let (out, s) = (if oa_blockOpen s then (block_stop (oa_blockIndex s), s\<lparr>oa_blockOpen := False\<rparr>) else ([], s));
          stop = mget [] finishToStop (oa_finish s);
          stop = (if stop = [] then ''end_turn'' else stop);
          stop = (if oa_finish s = ''tool_calls'' \<or> (oa_toolIndexes s \<noteq> [] \<and> oa_finish s = ''stop'') then ''tool_use'' else stop);
          s = s\<lparr>oa_deltaSent := True\<rparr>
      in (out @ sseEvent ''message_delta''
                  (JObj [(''type'', JStr ''message_delta''),
                         (''delta'', JObj [(''stop_reason'', JStr stop), (''stop_sequence'', JNull)]),
                         (''usage'', JObj [(''input_tokens'', jint (oa_inputTokens s)), (''output_tokens'', jint (oa_outputTokens s))])]), s))"

definition oa_Finish :: "openAIToAnthropicStream \<Rightarrow> string list \<times> openAIToAnthropicStream" where
  "oa_Finish s =
     (if oa_stopped s then ([], s)
      else
        (let s = s\<lparr>oa_stopped := True\<rparr>
         in if \<not> oa_started s then ([], s)
            else (let (out, s) = (if \<not> oa_deltaSent s then messageDelta s else ([], s))
                  in (out @ sseEvent ''message_stop'' (JObj [(''type'', JStr ''message_stop'')]), s))))"

definition start_message :: "string \<Rightarrow> openAIToAnthropicStream \<Rightarrow> string list \<times> openAIToAnthropicStream" where
  "start_message model s =
     (if oa_started s then ([], s)
      else
        (let s = s\<lparr>oa_started := True\<rparr>;
             s = (if model \<noteq> [] then s\<lparr>oa_model := model\<rparr> else s)
         in (sseEvent ''message_start''
               (JObj [(''type'', JStr ''message_start''),
                      (''message'', JObj
                         [(''id'', JStr (oa_id s)), (''type'', JStr ''message''), (''role'', JStr ''assistant''),
                          (''model'', JStr (oa_model s)), (''content'', JArr []), (''stop_reason'', JNull), (''stop_sequence'', JNull),
                          (''usage'', JObj [(''input_tokens'', jint 0), (''output_tokens'', jint 0)])])]), s)))"

definition feed_content :: "string option \<Rightarrow> openAIToAnthropicStream \<Rightarrow> string list \<times> openAIToAnthropicStream" where
  "feed_content content s =
     (case content of
        None \<Rightarrow> ([], s)
      | Some text \<Rightarrow>
          (if text = [] then ([], s)
           else
             (let (out, s) = (if \<not> oa_blockOpen s \<or> oa_blockIsTool s
                              then openBlock (JObj [(''type'', JStr ''text''), (''text'', JStr [])]) False s else ([], s))
              in (out @ block_delta (oa_blockIndex s) (JObj [(''type'', JStr ''text_delta''), (''text'', JStr text)]), s))))"

definition feed_call :: "chunkCall \<Rightarrow> openAIToAnthropicStream \<Rightarrow> string list \<times> openAIToAnthropicStream" where
  "feed_call call s =
     (let (out, s) =
        (if map_of (oa_toolIndexes s) (cc_Index call) = None then
           (let name = (case cc_Function call of None \<Rightarrow> [] | Some f \<Rightarrow> cf_Name f);
                (out, s) = openBlock (JObj [(''type'', JStr ''tool_use''), (''id'', JStr (cc_ID call)), (''name'', JStr name), (''input'', JObj [])]) True s
            in (out, s\<lparr>oa_toolIndexes := (cc_Index call, oa_blockIndex s) # oa_toolIndexes s\<rparr>))
         else ([], s))
      in case cc_Function call of
           None \<Rightarrow> (out, s)
         | Some f \<Rightarrow>
             (if cf_Arguments f = [] then (out, s)
              else (out @ block_delta (case map_of (oa_toolIndexes s) (cc_Index call) of None \<Rightarrow> 0 | Some i \<Rightarrow> i)
                            (JObj [(''type'', JStr ''input_json_delta''), (''partial_json'', JStr (cf_Arguments f))]), s)))"

fun feed_calls :: "chunkCall list \<Rightarrow> openAIToAnthropicStream \<Rightarrow> string list \<times> openAIToAnthropicStream" where
  "feed_calls [] s = ([], s)"
| "feed_calls (c # cs) s = (let (out, s) = feed_call c s; (out', s) = feed_calls cs s in (out @ out', s))"

fun feed_choices :: "chunkChoice list \<Rightarrow> openAIToAnthropicStream \<Rightarrow> string list \<times> openAIToAnthropicStream" where
  "feed_choices [] s = ([], s)"
| "feed_choices (c # cs) s =
     (let (out1, s) = feed_content (cx_Content c) s;
          (out2, s) = feed_calls (cx_ToolCalls c) s;
          s = (case cx_FinishReason c of None \<Rightarrow> s | Some f \<Rightarrow> (if f \<noteq> [] then s\<lparr>oa_finish := f\<rparr> else s));
          (out3, s) = feed_choices cs s
      in (out1 @ out2 @ out3, s))"

definition feed_chunk :: "openAIChunk \<Rightarrow> openAIToAnthropicStream \<Rightarrow> string list \<times> openAIToAnthropicStream" where
  "feed_chunk chunk s =
     (let (out1, s) = start_message (ck_Model chunk) s;
          s = (case ck_Usage chunk of
                 None \<Rightarrow> s
               | Some u \<Rightarrow> s\<lparr>oa_inputTokens := cu_PromptTokens u, oa_outputTokens := cu_CompletionTokens u\<rparr>);
          (out2, s) = feed_choices (ck_Choices chunk) s;
          (out3, s) = (if oa_finish s \<noteq> [] \<and> ck_Usage chunk \<noteq> None \<and> \<not> oa_deltaSent s then messageDelta s else ([], s))
      in (out1 @ out2 @ out3, s))"

definition chunk_of :: "string \<Rightarrow> openAIChunk option" where
  "chunk_of data = Unmarshal openAIChunk_dec \<lparr>ck_Model = [], ck_Choices = [], ck_Usage = None\<rparr> (ParseJSON data)"

definition oa_Feed :: "string \<Rightarrow> openAIToAnthropicStream \<Rightarrow> string list \<times> openAIToAnthropicStream" where
  "oa_Feed line s =
     (case CutPrefix line ''data:'' of
        None \<Rightarrow> ([], s)
      | Some data \<Rightarrow>
          (let data = TrimSpace data
           in if data = ''[DONE]'' then oa_Finish s
              else case chunk_of data of
                     None \<Rightarrow> ([], s)
                   | Some chunk \<Rightarrow> feed_chunk chunk s))"

paragraph \<open>Anthropic events to OpenAI chunks\<close>

record anthropicToOpenAIStream =
  ao_model :: string
  ao_id :: string
  ao_created :: int
  ao_event :: string
  ao_toolIndex :: int
  ao_blocks :: "(int \<times> int) list"
  ao_usage_in :: int
  ao_usage_out :: int
  ao_finished :: bool
  ao_done :: bool

definition newAnthropicToOpenAIStream :: "instant \<Rightarrow> string \<Rightarrow> anthropicToOpenAIStream" where
  "newAnthropicToOpenAIStream now model =
     \<lparr>ao_model = model, ao_id = ''chatcmpl-'' @ show_int now, ao_created = unix_seconds now, ao_event = [],
      ao_toolIndex = 0, ao_blocks = [], ao_usage_in = 0, ao_usage_out = 0, ao_finished = False, ao_done = False\<rparr>"

definition ao_chunk :: "anthropicToOpenAIStream \<Rightarrow> json \<Rightarrow> json \<Rightarrow> string list" where
  "ao_chunk s delta finish =
     sseData (JObj [(''id'', JStr (ao_id s)), (''object'', JStr ''chat.completion.chunk''), (''created'', jint (ao_created s)),
                    (''model'', JStr (ao_model s)),
                    (''choices'', JArr [JObj [(''index'', jint 0), (''delta'', delta), (''finish_reason'', finish)]])])"

definition done_lines :: "string list" where
  "done_lines = [''data: [DONE]'', []]"

definition ao_Finish :: "anthropicToOpenAIStream \<Rightarrow> string list \<times> anthropicToOpenAIStream" where
  "ao_Finish s =
     (if ao_done s then ([], s)
      else
        (let s = s\<lparr>ao_done := True\<rparr>;
             out = (if \<not> ao_finished s then ao_chunk s (JObj []) (JStr ''stop'') else [])
         in (out @ sseData (JObj [(''id'', JStr (ao_id s)), (''object'', JStr ''chat.completion.chunk''), (''created'', jint (ao_created s)),
                                  (''model'', JStr (ao_model s)), (''choices'', JArr []),
                                  (''usage'', openai_usage (ao_usage_in s) (ao_usage_out s))]) @ done_lines, s)))"

definition number_or_zero :: "json \<Rightarrow> int" where
  "number_or_zero v = (case numberOf v of Some n \<Rightarrow> n | None \<Rightarrow> 0)"

definition feed_start :: "json gomap \<Rightarrow> anthropicToOpenAIStream \<Rightarrow> string list \<times> anthropicToOpenAIStream" where
  "feed_start ev s =
     (let msg = jmap (jget ev ''message'');
          m = jstr (jget msg ''model'');
          s = (if m \<noteq> [] then s\<lparr>ao_model := m\<rparr> else s);
          s = (case jget msg ''usage'' of JObj u \<Rightarrow> s\<lparr>ao_usage_in := number_or_zero (jget u ''input_tokens'')\<rparr> | _ \<Rightarrow> s)
      in (ao_chunk s (JObj [(''role'', JStr ''assistant''), (''content'', JStr [])]) JNull, s))"

definition feed_block_start :: "json gomap \<Rightarrow> anthropicToOpenAIStream \<Rightarrow> string list \<times> anthropicToOpenAIStream" where
  "feed_block_start ev s =
     (let block = jmap (jget ev ''content_block'')
      in if jget block ''type'' \<noteq> JStr ''tool_use'' then ([], s)
         else
           (let s = s\<lparr>ao_blocks := (number_or_zero (jget ev ''index''), ao_toolIndex s) # ao_blocks s\<rparr>;
                out = ao_chunk s (JObj [(''tool_calls'', JArr [JObj
                        [(''index'', jint (ao_toolIndex s)), (''id'', jget block ''id''), (''type'', JStr ''function''),
                         (''function'', JObj [(''name'', jget block ''name''), (''arguments'', JStr [])])]])]) JNull
            in (out, s\<lparr>ao_toolIndex := ao_toolIndex s + 1\<rparr>)))"

definition feed_block_delta :: "json gomap \<Rightarrow> anthropicToOpenAIStream \<Rightarrow> string list" where
  "feed_block_delta ev s =
     (let delta = jmap (jget ev ''delta'')
      in if jget delta ''type'' = JStr ''text_delta'' then ao_chunk s (JObj [(''content'', jget delta ''text'')]) JNull
         else if jget delta ''type'' = JStr ''input_json_delta'' then
           ao_chunk s (JObj [(''tool_calls'', JArr [JObj
             [(''index'', jint (case map_of (ao_blocks s) (number_or_zero (jget ev ''index'')) of None \<Rightarrow> 0 | Some i \<Rightarrow> i)),
              (''function'', JObj [(''arguments'', jget delta ''partial_json'')])]])]) JNull
         else [])"

definition feed_message_delta :: "json gomap \<Rightarrow> anthropicToOpenAIStream \<Rightarrow> string list \<times> anthropicToOpenAIStream" where
  "feed_message_delta ev s =
     (let s = (case jget ev ''usage'' of
                 JObj u \<Rightarrow>
                   (let s = (case numberOf (jget u ''output_tokens'') of Some n \<Rightarrow> s\<lparr>ao_usage_out := n\<rparr> | None \<Rightarrow> s)
                    in case numberOf (jget u ''input_tokens'') of
                         Some n \<Rightarrow> (if n > 0 then s\<lparr>ao_usage_in := n\<rparr> else s)
                       | None \<Rightarrow> s)
               | _ \<Rightarrow> s);
          finish = finish_reason (jstr (jget (jmap (jget ev ''delta'')) ''stop_reason''));
          s = s\<lparr>ao_finished := True\<rparr>
      in (ao_chunk s (JObj []) (JStr finish), s))"

definition feed_event :: "string \<Rightarrow> json gomap \<Rightarrow> anthropicToOpenAIStream \<Rightarrow> string list \<times> anthropicToOpenAIStream" where
  "feed_event typ ev s =
     (if typ = ''message_start'' then feed_start ev s
      else if typ = ''content_block_start'' then feed_block_start ev s
      else if typ = ''content_block_delta'' then (feed_block_delta ev s, s)
      else if typ = ''message_delta'' then feed_message_delta ev s
      else if typ = ''message_stop'' then ao_Finish s
      else if typ = ''error'' then (sseData (JObj [(''error'', jget ev ''error'')]) @ done_lines, s\<lparr>ao_done := True\<rparr>)
      else ([], s))"

definition ao_Feed :: "string \<Rightarrow> anthropicToOpenAIStream \<Rightarrow> string list \<times> anthropicToOpenAIStream" where
  "ao_Feed line s =
     (case CutPrefix line ''event:'' of
        Some name \<Rightarrow> ([], s\<lparr>ao_event := TrimSpace name\<rparr>)
      | None \<Rightarrow>
          (case CutPrefix line ''data:'' of
             None \<Rightarrow> ([], s)
           | Some data \<Rightarrow>
               (case Unmarshal_any_map (ParseJSON (TrimSpace data)) of
                  None \<Rightarrow> ([], s)
                | Some ev \<Rightarrow>
                    (let typ = jstr (jget ev ''type'')
                     in feed_event (if typ = [] then ao_event s else typ) ev s))))"

paragraph \<open>The interface\<close>

datatype Stream = OpenAIToAnthropic openAIToAnthropicStream | AnthropicToOpenAI anthropicToOpenAIStream

definition NewStream :: "instant \<Rightarrow> string \<Rightarrow> string \<Rightarrow> string \<Rightarrow> Stream option" where
  "NewStream now from to model =
     (if from = FormatOpenAI \<and> to = FormatAnthropic then Some (OpenAIToAnthropic (newOpenAIToAnthropicStream now model))
      else if from = FormatAnthropic \<and> to = FormatOpenAI then Some (AnthropicToOpenAI (newAnthropicToOpenAIStream now model))
      else None)"

fun Feed :: "string \<Rightarrow> Stream \<Rightarrow> string list \<times> Stream" where
  "Feed line (OpenAIToAnthropic s) = (case oa_Feed line s of (out, s) \<Rightarrow> (out, OpenAIToAnthropic s))"
| "Feed line (AnthropicToOpenAI s) = (case ao_Feed line s of (out, s) \<Rightarrow> (out, AnthropicToOpenAI s))"

fun Finish :: "Stream \<Rightarrow> string list \<times> Stream" where
  "Finish (OpenAIToAnthropic s) = (case oa_Finish s of (out, s) \<Rightarrow> (out, OpenAIToAnthropic s))"
| "Finish (AnthropicToOpenAI s) = (case ao_Finish s of (out, s) \<Rightarrow> (out, AnthropicToOpenAI s))"

lemmas stream_defs [kaalm_eval] = sseEvent_def sseData_def newOpenAIToAnthropicStream_def decode_text_def chunkFunction_dec_def
  chunkCall_dec_def chunkChoice_dec_def openAIChunk_dec_def block_stop_def block_delta_def openBlock_def messageDelta_def
  oa_Finish_def start_message_def feed_content_def feed_call_def feed_chunk_def chunk_of_def oa_Feed_def
  newAnthropicToOpenAIStream_def ao_chunk_def done_lines_def ao_Finish_def number_or_zero_def feed_start_def
  feed_block_start_def feed_block_delta_def feed_message_delta_def feed_event_def ao_Feed_def NewStream_def

subsection \<open>The grammar of Anthropic event streams\<close>

text \<open>A stream is a \<^verbatim>\<open>message_start\<close>, content blocks that are opened, filled and closed one
  at a time, one \<^verbatim>\<open>message_delta\<close> with no block open, and a \<^verbatim>\<open>message_stop\<close>.\<close>

datatype phase = Fresh | Idle | InBlock | Closing | Stopped | Broken

fun advance :: "phase \<Rightarrow> string \<Rightarrow> phase" where
  "advance p e =
     (if e = ''message_start'' then (if p = Fresh then Idle else Broken)
      else if e = ''content_block_start'' then (if p = Idle then InBlock else Broken)
      else if e = ''content_block_delta'' then (if p = InBlock then InBlock else Broken)
      else if e = ''content_block_stop'' then (if p = InBlock then Idle else Broken)
      else if e = ''message_delta'' then (if p = Idle then Closing else Broken)
      else if e = ''message_stop'' then (if p = Closing then Stopped else Broken)
      else Broken)"

fun event_names :: "string list \<Rightarrow> string list" where
  "event_names [] = []"
| "event_names (l # ls) = (case CutPrefix l ''event: '' of Some e \<Rightarrow> e # event_names ls | None \<Rightarrow> event_names ls)"

definition phase_after :: "string list \<Rightarrow> phase \<Rightarrow> phase" where
  "phase_after lines p = foldl advance p (event_names lines)"

fun feed_all :: "string list \<Rightarrow> openAIToAnthropicStream \<Rightarrow> string list \<times> openAIToAnthropicStream" where
  "feed_all [] s = ([], s)"
| "feed_all (l # ls) s = (let (out, s) = oa_Feed l s; (out', s) = feed_all ls s in (out @ out', s))"

lemma event_names_append: "event_names (xs @ ys) = event_names xs @ event_names ys"
  by (induction xs) (auto split: option.splits)

lemma phase_after_append [simp]: "phase_after (xs @ ys) p = phase_after ys (phase_after xs p)"
  by (simp add: phase_after_def event_names_append)

lemma phase_after_Nil [simp]: "phase_after [] p = p"
  by (simp add: phase_after_def)

lemma phase_after_event [simp]: "phase_after (sseEvent e v) p = advance p e"
  by (simp add: phase_after_def sseEvent_def CutPrefix_def HasPrefix_def)

text \<open>The translator's fields name the phase its output is in, as long as the usage chunk has not
  come.\<close>

definition oa_phase :: "openAIToAnthropicStream \<Rightarrow> phase" where
  "oa_phase s =
     (if oa_stopped s then Stopped else if \<not> oa_started s then Fresh else if oa_deltaSent s then Closing
      else if oa_blockOpen s then InBlock else Idle)"

definition running :: "openAIToAnthropicStream \<Rightarrow> bool" where
  "running s = (\<not> oa_stopped s \<and> \<not> oa_deltaSent s \<and> (oa_toolIndexes s \<noteq> [] \<longrightarrow> oa_blockOpen s) \<and> (oa_blockOpen s \<longrightarrow> oa_started s))"

text \<open>An operation keeps the output in step with the fields.\<close>

definition in_step :: "(openAIToAnthropicStream \<Rightarrow> string list \<times> openAIToAnthropicStream) \<Rightarrow> bool" where
  "in_step f = (\<forall>s out s'. running s \<longrightarrow> oa_started s \<longrightarrow> f s = (out, s') \<longrightarrow>
     running s' \<and> oa_started s' \<and> phase_after out (oa_phase s) = oa_phase s')"

lemmas grammar_defs = running_def oa_phase_def block_stop_def block_delta_def

lemma in_stepD:
  "in_step f \<Longrightarrow> f s = (out, s') \<Longrightarrow> running s \<Longrightarrow> oa_started s \<Longrightarrow>
   running s' \<and> oa_started s' \<and> phase_after out (oa_phase s) = oa_phase s'"
  unfolding in_step_def by blast

lemma in_stepI:
  "(\<And>s out s'. running s \<Longrightarrow> oa_started s \<Longrightarrow> f s = (out, s') \<Longrightarrow>
     running s' \<and> oa_started s' \<and> phase_after out (oa_phase s) = oa_phase s') \<Longrightarrow> in_step f"
  unfolding in_step_def by blast

lemma openBlock_phase:
  assumes "openBlock b t s = (out, s')" "running s" "oa_started s"
  shows "running s'" "oa_started s'" "oa_blockOpen s'" "phase_after out (oa_phase s) = InBlock" "oa_phase s' = InBlock"
    "oa_toolIndexes s' = oa_toolIndexes s"
  using assms by (auto simp: openBlock_def grammar_defs Let_def split: if_splits)

lemma delta_phase: "phase_after (block_delta i v) InBlock = InBlock"
  by (simp add: block_delta_def)

lemma in_step_seq:
  assumes "in_step f" "in_step g"
  shows "in_step (\<lambda>s. let (out, s) = f s; (out', s) = g s in (out @ out', s))"
proof (rule in_stepI)
  fix s out s' assume s: "running s" "oa_started s" and r: "(let (out, s) = f s; (out', s) = g s in (out @ out', s)) = (out, s')"
  obtain o1 s1 o2 s2 where f: "f s = (o1, s1)" and g: "g s1 = (o2, s2)" by (metis prod.exhaust)
  then have "out = o1 @ o2" "s' = s2" using r by auto
  then show "running s' \<and> oa_started s' \<and> phase_after out (oa_phase s) = oa_phase s'"
    using in_stepD [OF assms(1) f s] in_stepD [OF assms(2) g] by simp
qed

lemma in_step_id: "in_step (\<lambda>s. ([], s))"
  by (rule in_stepI) simp

lemma in_step_content: "in_step (feed_content content)"
proof (rule in_stepI)
  fix s out s' assume s: "running s" "oa_started s" and r: "feed_content content s = (out, s')"
  show "running s' \<and> oa_started s' \<and> phase_after out (oa_phase s) = oa_phase s'"
  proof (cases "content = None \<or> content = Some []")
    case True
    then show ?thesis using s r by (auto simp: feed_content_def)
  next
    case False
    then obtain tx where t: "content = Some tx" "tx \<noteq> []" by auto
    show ?thesis
    proof (cases "\<not> oa_blockOpen s \<or> oa_blockIsTool s")
      case True
      obtain o1 where o: "openBlock (JObj [(''type'', JStr ''text''), (''text'', JStr [])]) False s = (o1, s')"
        "out = o1 @ block_delta (oa_blockIndex s') (JObj [(''type'', JStr ''text_delta''), (''text'', JStr tx)])"
        using r t True by (auto simp: feed_content_def Let_def split: prod.splits)
      show ?thesis using openBlock_phase [OF o(1) s] o(2) by (simp add: delta_phase)
    next
      case False
      then have "oa_phase s = InBlock" using s by (simp add: oa_phase_def running_def)
      then show ?thesis using r t False s by (auto simp: feed_content_def Let_def delta_phase)
    qed
  qed
qed

lemma in_step_call: "in_step (feed_call call)"
proof (rule in_stepI)
  fix s out s' assume s: "running s" "oa_started s" and r: "feed_call call s = (out, s')"
  define ended where "ended o1 s1 \<longleftrightarrow> s' = s1 \<and> (out = o1 \<or> (\<exists>i v. out = o1 @ block_delta i v))" for o1 s1
  have e: "running s' \<and> oa_started s' \<and> phase_after out (oa_phase s) = oa_phase s'"
    if "ended o1 s1" "running s1" "oa_started s1" "phase_after o1 (oa_phase s) = InBlock" "oa_phase s1 = InBlock" for o1 s1
    using that by (auto simp: ended_def delta_phase)
  show "running s' \<and> oa_started s' \<and> phase_after out (oa_phase s) = oa_phase s'"
  proof (cases "map_of (oa_toolIndexes s) (cc_Index call) = None")
    case True
    define b where "b = JObj [(''type'', JStr ''tool_use''), (''id'', JStr (cc_ID call)),
      (''name'', JStr (case cc_Function call of None \<Rightarrow> [] | Some f \<Rightarrow> cf_Name f)), (''input'', JObj [])]"
    obtain o1 s1 where o: "openBlock b True s = (o1, s1)" by force
    note p = openBlock_phase [OF o s]
    let ?s = "s1\<lparr>oa_toolIndexes := (cc_Index call, oa_blockIndex s1) # oa_toolIndexes s1\<rparr>"
    have "feed_call call s = (case cc_Function call of None \<Rightarrow> (o1, ?s) | Some f \<Rightarrow>
        (if cf_Arguments f = [] then (o1, ?s)
         else (o1 @ block_delta (oa_blockIndex s1) (JObj [(''type'', JStr ''input_json_delta''), (''partial_json'', JStr (cf_Arguments f))]), ?s)))"
      using True o [unfolded b_def] by (simp add: feed_call_def split: option.split)
    then have "ended o1 ?s" using r by (auto simp: ended_def split: option.splits if_splits)
    moreover have "running ?s" "oa_started ?s" "oa_phase ?s = InBlock" using p by (auto simp: running_def oa_phase_def)
    ultimately show ?thesis using p(4) by (intro e)
  next
    case False
    then have "oa_phase s = InBlock" using s by (auto simp: oa_phase_def running_def)
    moreover have "ended [] s" using r False unfolding ended_def feed_call_def
      by (auto simp: Let_def split: option.splits if_splits)
    ultimately show ?thesis using s by (intro e [of "[]" s]) auto
  qed
qed

lemma in_step_calls: "in_step (feed_calls cs)"
proof (induction cs)
  case (Cons c cs)
  then show ?case using in_step_seq [OF in_step_call Cons] by simp
qed (simp add: in_step_id)

lemma in_step_finish: "in_step (\<lambda>s. ([], case fr of None \<Rightarrow> s | Some f \<Rightarrow> (if f \<noteq> [] then s\<lparr>oa_finish := f\<rparr> else s)))"
  by (rule in_stepI) (auto simp: running_def oa_phase_def split: option.splits)

lemma in_step_choices: "in_step (feed_choices cs)"
proof (induction cs)
  case (Cons c cs)
  have "feed_choices (c # cs) = (\<lambda>s. let (out, s) = feed_content (cx_Content c) s;
      (out', s) = (\<lambda>s. let (out, s) = feed_calls (cx_ToolCalls c) s;
          (out', s) = (\<lambda>s. let (out, s) = ([], case cx_FinishReason c of None \<Rightarrow> s | Some f \<Rightarrow> (if f \<noteq> [] then s\<lparr>oa_finish := f\<rparr> else s));
              (out', s) = feed_choices cs s in (out @ out', s)) s in (out @ out', s)) s in (out @ out', s))"
    by (rule ext) (simp add: Let_def split: prod.split)
  then show ?case
    using in_step_seq [OF in_step_content in_step_seq [OF in_step_calls in_step_seq [OF in_step_finish Cons]]] by simp
qed (simp add: in_step_id)

lemma start_phase:
  assumes "start_message m s = (out, s')" "running s"
  shows "running s' \<and> oa_started s' \<and> phase_after out (oa_phase s) = oa_phase s'"
  using assms by (auto simp: start_message_def running_def oa_phase_def Let_def split: if_splits)

text \<open>A chunk without usage keeps the translator running; one with usage may close the message.\<close>

definition closing :: "openAIToAnthropicStream \<Rightarrow> bool" where
  "closing s = (\<not> oa_stopped s \<and> oa_started s \<and> oa_deltaSent s)"

lemma messageDelta_phase:
  assumes "messageDelta s = (out, s')" "running s" "oa_started s"
  shows "closing s' \<and> phase_after out (oa_phase s) = Closing"
  using assms by (auto simp: messageDelta_def grammar_defs closing_def Let_def split: if_splits)

lemma feed_chunk_phase:
  assumes "feed_chunk c s = (out, s')" "running s"
  shows "(running s' \<and> oa_started s' \<or> ck_Usage c \<noteq> None \<and> closing s') \<and> phase_after out (oa_phase s) = oa_phase s'"
proof -
  obtain o1 s1 where 1: "start_message (ck_Model c) s = (o1, s1)" by force
  define s2 where "s2 = (case ck_Usage c of None \<Rightarrow> s1
     | Some u \<Rightarrow> s1\<lparr>oa_inputTokens := cu_PromptTokens u, oa_outputTokens := cu_CompletionTokens u\<rparr>)"
  obtain o3 s3 where 3: "feed_choices (ck_Choices c) s2 = (o3, s3)" by force
  note p1 = start_phase [OF 1 assms(2)]
  have p2: "running s2" "oa_started s2" "oa_phase s2 = oa_phase s1"
    using p1 by (auto simp: s2_def running_def oa_phase_def split: option.splits)
  note p3 = in_stepD [OF in_step_choices 3 p2(1,2)]
  show ?thesis
  proof (cases "oa_finish s3 \<noteq> [] \<and> ck_Usage c \<noteq> None \<and> \<not> oa_deltaSent s3")
    case True
    obtain o4 s4 where 4: "messageDelta s3 = (o4, s4)" by force
    have "out = o1 @ o3 @ o4" "s' = s4" using assms(1) 1 3 4 True by (simp_all add: feed_chunk_def s2_def [symmetric])
    then show ?thesis using p1 p2(3) p3 messageDelta_phase [OF 4] True by (auto simp: oa_phase_def closing_def)
  next
    case False
    then have "out = o1 @ o3" "s' = s3" using assms(1) 1 3 by (auto simp: feed_chunk_def s2_def [symmetric])
    then show ?thesis using p1 p2(3) p3 by simp
  qed
qed

definition line_chunk :: "string \<Rightarrow> openAIChunk option" where
  "line_chunk line = (case CutPrefix line ''data:'' of None \<Rightarrow> None | Some data \<Rightarrow> chunk_of (TrimSpace data))"

definition terminator :: "string \<Rightarrow> bool" where
  "terminator line = (map_option TrimSpace (CutPrefix line ''data:'') = Some ''[DONE]'')"

definition usage_line :: "string \<Rightarrow> bool" where
  "usage_line line = (\<exists>c. line_chunk line = Some c \<and> ck_Usage c \<noteq> None)"

lemma oa_Feed_phase:
  assumes "oa_Feed l s = (out, s')" "running s" "\<not> terminator l"
  shows "(running s' \<or> usage_line l \<and> closing s') \<and> phase_after out (oa_phase s) = oa_phase s'"
proof (cases "line_chunk l")
  case None
  then show ?thesis using assms by (auto simp: oa_Feed_def line_chunk_def terminator_def Let_def split: option.splits if_splits)
next
  case (Some c)
  then have "feed_chunk c s = (out, s')"
    using assms by (auto simp: oa_Feed_def line_chunk_def terminator_def Let_def split: option.splits if_splits)
  then show ?thesis using feed_chunk_phase [OF _ assms(2)] Some by (auto simp: usage_line_def)
qed

lemma feed_all_phase:
  "\<forall>l\<in>set ls. \<not> terminator l \<and> \<not> usage_line l \<Longrightarrow> running s \<Longrightarrow> feed_all ls s = (out, s') \<Longrightarrow>
   running s' \<and> phase_after out (oa_phase s) = oa_phase s'"
proof (induction ls arbitrary: s out)
  case (Cons l ls)
  obtain o1 s1 where 1: "oa_Feed l s = (o1, s1)" by force
  obtain o2 where 2: "feed_all ls s1 = (o2, s')" "out = o1 @ o2" using Cons.prems 1 by (auto split: prod.splits)
  have "running s1 \<and> phase_after o1 (oa_phase s) = oa_phase s1" using oa_Feed_phase [OF 1] Cons.prems by auto
  then show ?case using Cons.IH [of s1 o2] Cons.prems 2 by simp
qed simp

lemma Finish_phase:
  assumes "oa_Finish s = (out, s')" "running s \<or> closing s"
  shows "oa_stopped s' \<and> phase_after out (oa_phase s) \<in> {Fresh, Stopped}"
proof (cases "oa_started s")
  case False
  then show ?thesis using assms by (auto simp: oa_Finish_def running_def closing_def oa_phase_def)
next
  case st: True
  let ?s = "s\<lparr>oa_stopped := True\<rparr>"
  show ?thesis
  proof (cases "oa_deltaSent s")
    case True
    then show ?thesis using assms st by (auto simp: oa_Finish_def running_def closing_def oa_phase_def)
  next
    case False
    then have r: "running s" using assms by (auto simp: closing_def)
    obtain o1 s1 where 1: "messageDelta s = (o1, s1)" by force
    have "messageDelta ?s = (o1, s1\<lparr>oa_stopped := True\<rparr>)"
      using 1 by (auto simp: messageDelta_def Let_def split: if_splits)
    then have "out = o1 @ sseEvent ''message_stop'' (JObj [(''type'', JStr ''message_stop'')])" "s' = s1\<lparr>oa_stopped := True\<rparr>"
      using assms(1) st False r by (auto simp: oa_Finish_def running_def)
    then show ?thesis using messageDelta_phase [OF 1 r st] by simp
  qed
qed

lemma Finish_stopped: "oa_stopped s \<Longrightarrow> oa_Finish s = ([], s)"
  by (simp add: oa_Finish_def)

subsection \<open>Properties\<close>


definition sample_lines :: "string list" where
  "sample_lines = [''data: {\"choices\":[{\"delta\":{\"content\":\"hi\"},\"finish_reason\":\"stop\"}],\"usage\":{\"prompt_tokens\":3}}'', ''data: [DONE]'']"


end
