(* ===== verification/Llm_Crossing.thy ===== *)
theory Llm_Crossing
  imports Adapters Llm_Stream
begin

text \<open>
  How the translator and the adapters agree. The ledger is charged with the usage the serving
  provider's adapter reads in the untranslated response; the caller reads the translated one in its
  own format.
\<close>

lemma decode_struct_sim:
  assumes "\<And>k d v s s'. field_dec fs k = Some d \<Longrightarrow> d v s = Some s' \<Longrightarrow>
      (case field_dec gs k of None \<Rightarrow> pr s' = pr s | Some e \<Rightarrow> e v (pr s) = Some (pr s'))"
    and "\<And>k. field_dec fs k = None \<Longrightarrow> field_dec gs k = None"
    and "decode_struct fs v s = Some s'"
  shows "decode_struct gs v (pr s) = Some (pr s')"
proof (cases v)
  case (JObj es)
  then show ?thesis using decode_entries_sim [OF assms(1,2), where es = es and s = s and s' = s'] assms(3)
    by (simp add: decode_struct_def)
qed (use assms(3) in \<open>auto simp: decode_struct_def\<close>)

lemma field_dec_Cons: "field_dec ((n, d) # fs) k = (if EqualFold n k then Some d else field_dec fs k)"
  by simp

definition ou_of :: "openAIResponse \<Rightarrow> openaiUsage" where
  "ou_of r = \<lparr>ou_PromptTokens = or_PromptTokens r, ou_CompletionTokens = or_CompletionTokens r\<rparr>"

lemma decode_int64_sim:
  assumes "\<And>n s. pr (upd (\<lambda>_. n) s) = upd' (\<lambda>_. n) (pr s)" "decode_int64 upd v s = Some s'"
  shows "decode_int64 upd' v (pr s) = Some (pr s')"
  using assms by (auto simp: decode_int64_def split: json.splits)

lemma ou_fields_sim:
  "decode_int64 or_PromptTokens_update v s = Some s' \<Longrightarrow> decode_int64 ou_PromptTokens_update v (ou_of s) = Some (ou_of s')"
  "decode_int64 or_CompletionTokens_update v s = Some s' \<Longrightarrow> decode_int64 ou_CompletionTokens_update v (ou_of s) = Some (ou_of s')"
  by (rule decode_int64_sim [rotated], assumption, simp add: ou_of_def)+

lemma openai_usage_sim:
  assumes "decode_struct [(''prompt_tokens'', decode_int64 or_PromptTokens_update),
                          (''completion_tokens'', decode_int64 or_CompletionTokens_update)] v s = Some s'"
  shows "openai_usage_dec v (ou_of s) = Some (ou_of s')"
  unfolding openai_usage_dec_def
  by (rule decode_struct_sim [OF _ _ assms]) (auto split: if_splits intro: ou_fields_sim)

lemma openai_response_usage:
  assumes "Unmarshal openAIResponse_dec openAIResponse_zero raw = Some r"
  shows "Unmarshal (decode_struct [(''usage'', openai_usage_dec)]) \<lparr>ou_PromptTokens = 0, ou_CompletionTokens = 0\<rparr> raw = Some (ou_of r)"
proof -
  obtain v where v: "raw = Some v" "openAIResponse_dec v openAIResponse_zero = Some r"
    using assms by (auto simp: Unmarshal_def split: option.splits)
  have z: "\<lparr>ou_PromptTokens = 0, ou_CompletionTokens = 0\<rparr> = ou_of openAIResponse_zero" by (simp add: ou_of_def openAIResponse_zero_def)
  have distinct_fields: "EqualFold n k \<Longrightarrow> EqualFold m k \<Longrightarrow> EqualFold n m" for n m k by (simp add: EqualFold_def)
  have apart: "\<not> EqualFold ''id'' ''usage''" "\<not> EqualFold ''model'' ''usage''" "\<not> EqualFold ''choices'' ''usage''"
    by (simp_all add: kaalm_eval)
  have "decode_struct [(''usage'', openai_usage_dec)] v (ou_of openAIResponse_zero) = Some (ou_of r)"
    using v(2) unfolding openAIResponse_dec_def
  proof (rule decode_struct_sim [rotated 2])
    fix k d w and s s' :: openAIResponse
    assume "field_dec [(''id'', decode_string or_ID_update), (''model'', decode_string or_Model_update),
        (''choices'', decode_slice openAIChoice_zero openAIChoice_dec or_Choices_update),
        (''usage'', decode_struct [(''prompt_tokens'', decode_int64 or_PromptTokens_update),
                                   (''completion_tokens'', decode_int64 or_CompletionTokens_update)])] k = Some d"
      and d: "d w s = Some s'"
    then consider "EqualFold ''id'' k" "d = decode_string or_ID_update" | "EqualFold ''model'' k" "d = decode_string or_Model_update"
      | "EqualFold ''choices'' k" "d = decode_slice openAIChoice_zero openAIChoice_dec or_Choices_update"
      | "EqualFold ''usage'' k" "d = decode_struct [(''prompt_tokens'', decode_int64 or_PromptTokens_update),
                                   (''completion_tokens'', decode_int64 or_CompletionTokens_update)]"
      by (auto split: if_splits)
    then show "case field_dec [(''usage'', openai_usage_dec)] k of None \<Rightarrow> ou_of s' = ou_of s | Some e \<Rightarrow> e w (ou_of s) = Some (ou_of s')"
    proof cases
      case 1
      then have "\<not> EqualFold ''usage'' k" using distinct_fields apart(1) by blast
      then show ?thesis using d 1 by (auto simp: decode_string_def ou_of_def split: json.splits)
    next
      case 2
      then have "\<not> EqualFold ''usage'' k" using distinct_fields apart(2) by blast
      then show ?thesis using d 2 by (auto simp: decode_string_def ou_of_def split: json.splits)
    next
      case 3
      then have "\<not> EqualFold ''usage'' k" using distinct_fields apart(3) by blast
      then show ?thesis using d 3 by (auto simp: decode_slice_def ou_of_def split: json.splits)
    next
      case 4
      then show ?thesis using openai_usage_sim [of w s s'] d by simp
    qed
  qed (auto split: if_splits)
  then show ?thesis using v(1) z by (simp add: Unmarshal_def)
qed

lemma openai_response_range:
  assumes "Unmarshal openAIResponse_dec openAIResponse_zero raw = Some r"
  shows "int64 (or_PromptTokens r)" "int64 (or_CompletionTokens r)"
proof -
  let ?P = "\<lambda>r. int64 (or_PromptTokens r) \<and> int64 (or_CompletionTokens r)"
  have "dec_keeps ?P openAIResponse_dec" unfolding openAIResponse_dec_def by (auto intro!: dec_keeps_rules)
  from Unmarshal_keeps [OF assms this] show "int64 (or_PromptTokens r)" "int64 (or_CompletionTokens r)"
    by (simp_all add: openAIResponse_zero_def)
qed

lemma int64_value_jint: "int64 n \<Longrightarrow> int64_value (jint n) = Some n"
  by (simp add: int64_value_def jint_def int64_def)

lemma anthropic_usage_of_translated:
  assumes "openAIToAnthropicResponse body = Some v" "int64 p" "int64 c"
    "v = JObj [(''id'', a1), (''type'', a2), (''role'', a3), (''model'', a4), (''content'', a5), (''stop_reason'', a6), (''stop_sequence'', a7),
               (''usage'', JObj [(''input_tokens'', jint p), (''output_tokens'', jint c)])]"
  shows "anthropic_extractUsage (Some (sort_json v)) = (if p = 0 \<and> c = 0 then None else Some \<lparr>InputTokens = p, OutputTokens = c, ServerTools = []\<rparr>)"
proof -
  have "jint n = JNum (of_int n)" for n by (simp add: jint_def)
  then have d: "decode_int64 upd (JNum (of_int n)) s = Some (upd (\<lambda>_. n) s)" if "int64 n" for n s and upd :: "(int \<Rightarrow> int) \<Rightarrow> anthropicUsage \<Rightarrow> anthropicUsage"
    using that int64_value_jint [of n] by (simp add: decode_int64_def)
  show ?thesis unfolding assms(4)
    by (simp add: anthropic_extractUsage_def anthropic_usage_dec_def Unmarshal_def decode_struct_def EqualFold_def ToLower_def lower_char_def
        jint_def d assms(2,3) serverToolCounts_def Unmarshal_int64_map_def isZero_def)
qed

subsection \<open>Properties\<close>


definition sample_completion :: string where
  "sample_completion = ''{\"id\":\"c1\",\"model\":\"m\",\"choices\":[{\"message\":{\"content\":\"hi\"}}],\"usage\":{\"prompt_tokens\":5,\"completion_tokens\":2}}''"

definition sample_message :: json where
  "sample_message = JObj [(''id'', JStr ''c1''), (''type'', JStr ''message''), (''role'', JStr ''assistant''), (''model'', JStr ''m''),
      (''content'', JArr [JObj [(''type'', JStr ''text''), (''text'', JStr ''hi'')]]), (''stop_reason'', JStr ''end_turn''), (''stop_sequence'', JNull),
      (''usage'', JObj [(''input_tokens'', JNum 5), (''output_tokens'', JNum 2)])]"

lemma sample_completion_parse:
  "ParseJSON sample_completion = Some (JObj [(''id'', JStr ''c1''), (''model'', JStr ''m''),
     (''choices'', JArr [JObj [(''message'', JObj [(''content'', JStr ''hi'')])]]),
     (''usage'', JObj [(''prompt_tokens'', JNum 5), (''completion_tokens'', JNum 2)])])"
  by (simp add: sample_completion_def kaalm_eval Let_def eval_nat_numeral)

lemma sample_completion_translates: "openAIToAnthropicResponse sample_completion = Some sample_message"
  by (simp add: sample_completion_parse response_defs decode_defs contentText_def sample_message_def)


end
