(* ===== verification/Gateway_Errors.thy ===== *)
theory Gateway_Errors
  imports Http_Header
begin

text \<open>
  The error envelope of the gateway (\<^verbatim>\<open>internal/gateway/errors.go\<close>) and what a handler writes. A
  \<open>Reply\<close> is the state of the \<^verbatim>\<open>http.ResponseWriter\<close> when the handler is done: status, headers and the
  body, which is either text or a value encoded as JSON.
\<close>

record errorBody =
  eb_Type :: string
  eb_Message :: string
  eb_Provider :: string
  eb_Retryable :: bool

definition errInvalidRequest :: string where "errInvalidRequest = ''invalid_request''"
definition errUnauthorized :: string where "errUnauthorized = ''unauthorized''"
definition errAccessDenied :: string where "errAccessDenied = ''access_denied''"
definition errInvalidCert :: string where "errInvalidCert = ''invalid_cert''"
definition errRequestTooLarge :: string where "errRequestTooLarge = ''request_too_large''"
definition errInternalUnavailable :: string where "errInternalUnavailable = ''internal_unavailable''"
definition errProviderError :: string where "errProviderError = ''provider_error''"
definition errProviderUnavailable :: string where "errProviderUnavailable = ''provider_unavailable''"
definition errProviderTimeout :: string where "errProviderTimeout = ''provider_timeout''"
definition errRateLimited :: string where "errRateLimited = ''rate_limited''"
definition errBudgetExhausted :: string where "errBudgetExhausted = ''budget_exhausted''"
definition errBudgetThrottled :: string where "errBudgetThrottled = ''budget_throttled''"
definition errResponseTooLarge :: string where "errResponseTooLarge = ''response_too_large''"
definition errToolDenied :: string where "errToolDenied = ''tool_denied''"
definition errHeaderMismatch :: string where "errHeaderMismatch = ''header_mismatch''"
definition errToolUnavailable :: string where "errToolUnavailable = ''tool_unavailable''"
definition errToolTimeout :: string where "errToolTimeout = ''tool_timeout''"
definition errBudgetUnavailable :: string where "errBudgetUnavailable = ''budget_state_unavailable''"

lemmas err_defs [kaalm_eval] = errResponseTooLarge_def errToolDenied_def errHeaderMismatch_def errToolUnavailable_def
  errToolTimeout_def errInvalidRequest_def errUnauthorized_def errAccessDenied_def errInvalidCert_def
  errRequestTooLarge_def errInternalUnavailable_def errProviderError_def errProviderUnavailable_def errProviderTimeout_def
  errRateLimited_def errBudgetExhausted_def errBudgetThrottled_def errBudgetUnavailable_def

datatype replyBody = TextBody string | JsonBody json | LinesBody "string list"

record Reply =
  rp_Status :: int
  rp_Header :: Header
  rp_Body :: replyBody

definition error_json :: "errorBody \<Rightarrow> json" where
  "error_json b =
     JObj [(''error'', JObj ([(''type'', JStr (eb_Type b)), (''message'', JStr (eb_Message b))] @
                             (if eb_Provider b \<noteq> [] then [(''provider'', JStr (eb_Provider b))] else []) @
                             [(''retryable'', JBool (eb_Retryable b))]))]"

text \<open>\<^verbatim>\<open>writeError\<close> adds to the headers the handler has set so far; most handlers have set none.\<close>

definition writeErrorTo :: "Header \<Rightarrow> int \<Rightarrow> errorBody \<Rightarrow> int \<Rightarrow> Reply" where
  "writeErrorTo h status body retryAfter =
     (let h = hdr_Set ''Content-Type'' ''application/json'' h;
          h = (if retryAfter > 0 then hdr_Set ''Retry-After'' (show_int retryAfter) h else h)
      in \<lparr>rp_Status = status, rp_Header = h, rp_Body = JsonBody (error_json body)\<rparr>)"

definition writeError :: "int \<Rightarrow> errorBody \<Rightarrow> int \<Rightarrow> Reply" where
  "writeError status body retryAfter = writeErrorTo [] status body retryAfter"

definition plain_error :: "string \<Rightarrow> string \<Rightarrow> errorBody" where
  "plain_error typ msg = \<lparr>eb_Type = typ, eb_Message = msg, eb_Provider = [], eb_Retryable = False\<rparr>"

definition unauthorized :: "string \<Rightarrow> Reply" where
  "unauthorized msg = writeError 401 (plain_error errUnauthorized msg) 0"

definition forbidden :: "string \<Rightarrow> string \<Rightarrow> Reply" where
  "forbidden errType msg = writeError 403 (plain_error errType msg) 0"

definition badRequest :: "string \<Rightarrow> Reply" where
  "badRequest msg = writeError 400 (plain_error errInvalidRequest msg) 0"

lemmas reply_defs [kaalm_eval] = error_json_def writeErrorTo_def writeError_def plain_error_def unauthorized_def forbidden_def badRequest_def

lemma writeError_status [simp]: "rp_Status (writeError s b r) = s"
  by (simp add: writeError_def writeErrorTo_def Let_def)

lemma reply_status [simp]:
  "rp_Status (unauthorized m) = 401" "rp_Status (forbidden t m) = 403" "rp_Status (badRequest m) = 400"
  by (simp_all add: unauthorized_def forbidden_def badRequest_def)

end
