(* ===== verification/Identity_Auth.thy ===== *)
theory Identity_Auth
  imports Gateway_Errors Go_Time Api_Types
begin

text \<open>
  Who is calling (\<^verbatim>\<open>internal/gateway/identity.go\<close>, \<^verbatim>\<open>auth.go\<close>, \<^verbatim>\<open>tokenauth.go\<close> and the Pod test of
  \<^verbatim>\<open>store.go\<close>): the workload identity read from the DNS names of a verified client certificate, the
  token tier with its cache, the source-IP cross-check, and the four per-path regimes. A certificate
  is its list of DNS names. The Pod lookups, the TokenReview call and SHA-256 are arguments. A
  middleware either answers or hands the request on with the caller it found.
\<close>

subsection \<open>Certificates\<close>

definition KindAgent :: string where "KindAgent = ''Agent''"
definition KindAgentTask :: string where "KindAgentTask = ''AgentTask''"
definition AgentSANSuffix :: string where "AgentSANSuffix = ''svc.cluster.local''"
definition TaskSANSuffix :: string where "TaskSANSuffix = ''task.kaalm.io''"
definition AgentSANLabels :: nat where "AgentSANLabels = 5"
definition TaskSANLabels :: nat where "TaskSANLabels = 5"

lemmas san_defs [kaalm_eval] = KindAgent_def KindAgentTask_def AgentSANSuffix_def TaskSANSuffix_def AgentSANLabels_def TaskSANLabels_def

record Identity =
  id_Namespace :: string
  id_Name :: string
  id_Kind :: string

type_synonym certificate = "string list"

fun scan_sans :: "string list \<Rightarrow> Identity list \<Rightarrow> bool \<Rightarrow> Identity list \<times> bool" where
  "scan_sans [] matched badCount = (matched, badCount)"
| "scan_sans (san # sans) matched badCount =
     (let labels = SplitByte (CHR ''.'') san
      in if HasSuffix san (''.'' @ AgentSANSuffix) then
           (if length labels \<noteq> AgentSANLabels then scan_sans sans matched True
            else scan_sans sans (matched @ [\<lparr>id_Namespace = labels ! 1, id_Name = labels ! 0, id_Kind = KindAgent\<rparr>]) badCount)
         else if HasSuffix san (''.'' @ TaskSANSuffix) then
           (if length labels \<noteq> TaskSANLabels then scan_sans sans matched True
            else scan_sans sans (matched @ [\<lparr>id_Namespace = labels ! 1, id_Name = labels ! 0, id_Kind = KindAgentTask\<rparr>]) badCount)
         else scan_sans sans matched badCount)"

definition ParseWorkloadSAN :: "certificate \<Rightarrow> string + Identity" where
  "ParseWorkloadSAN cert =
     (case scan_sans cert [] False of (matched, badCount) \<Rightarrow>
        (case matched of
           [wid] \<Rightarrow> Inr wid
         | _ # _ # _ \<Rightarrow> Inl ''multiple recognized workload SANs''
         | [] \<Rightarrow> Inl (if badCount then ''recognized SAN has the wrong label count'' else ''no recognized workload SAN'')))"

definition isServiceCert :: "certificate \<Rightarrow> string \<Rightarrow> string \<Rightarrow> bool" where
  "isServiceCert cert service operatorNamespace =
     (let short = service @ ''.'' @ operatorNamespace @ ''.svc'';
          long = short @ ''.cluster.local''
      in list_ex (\<lambda>san. san = long \<or> san = short) cert)"

definition IsControllerCert :: "certificate \<Rightarrow> string \<Rightarrow> bool" where
  "IsControllerCert cert operatorNamespace = isServiceCert cert ''kaalm-controller'' operatorNamespace"

definition IsConsoleCert :: "certificate \<Rightarrow> string \<Rightarrow> bool" where
  "IsConsoleCert cert operatorNamespace = isServiceCert cert ''kaalm-console'' operatorNamespace"

subsection \<open>Tokens\<close>

definition tokenCacheMaxTTL :: duration where "tokenCacheMaxTTL = 5 * minute_ns"
definition tokenCacheSafetyMargin :: duration where "tokenCacheSafetyMargin = 60 * second_ns"

record tokenCacheEntry =
  tc_namespace :: string
  tc_expires :: instant

type_synonym tokenCache = "tokenCacheEntry gomap"

definition namespaceFromUsername :: "string \<Rightarrow> string option" where
  "namespaceFromUsername username =
     (case SplitByte (CHR '':'') username of
        [a, b, ns, _] \<Rightarrow> (if a \<noteq> ''system'' \<or> b \<noteq> ''serviceaccount'' \<or> ns = [] then None else Some ns)
      | _ \<Rightarrow> None)"

definition bearerToken :: "string \<Rightarrow> string option" where
  "bearerToken header =
     (if \<not> HasPrefix header ''Bearer '' \<or> length header = length ''Bearer '' then None else Some (drop (length ''Bearer '') header))"

text \<open>\<^verbatim>\<open>base64.RawURLEncoding.DecodeString\<close>: line breaks are skipped, one left-over character
  is an error, unused low bits are ignored.\<close>

definition base64_val :: "char \<Rightarrow> nat option" where
  "base64_val c =
     (let n = of_char c :: nat
      in if 65 \<le> n \<and> n \<le> 90 then Some (n - 65)
         else if 97 \<le> n \<and> n \<le> 122 then Some (n - 71)
         else if 48 \<le> n \<and> n \<le> 57 then Some (n + 4)
         else if n = 45 then Some 62 else if n = 95 then Some 63 else None)"

fun base64_groups :: "nat list \<Rightarrow> string option" where
  "base64_groups (a # b # c # d # r) =
     map_option ((@) [char_of (a * 4 + b div 16), char_of (b mod 16 * 16 + c div 4), char_of (c mod 4 * 64 + d)]) (base64_groups r)"
| "base64_groups [a, b, c] = Some [char_of (a * 4 + b div 16), char_of (b mod 16 * 16 + c div 4)]"
| "base64_groups [a, b] = Some [char_of (a * 4 + b div 16)]"
| "base64_groups [a] = None"
| "base64_groups [] = Some []"

fun base64_digits :: "string \<Rightarrow> nat list option" where
  "base64_digits [] = Some []"
| "base64_digits (c # cs) =
     (if c = CHR 0x0A \<or> c = CHR 0x0D then base64_digits cs
      else case base64_val c of None \<Rightarrow> None | Some d \<Rightarrow> map_option ((#) d) (base64_digits cs))"

definition DecodeString :: "string \<Rightarrow> string option" where
  "DecodeString s = Option.bind (base64_digits s) base64_groups"

record jwtClaims =
  jc_Exp :: int

definition jwtExpiry :: "string \<Rightarrow> instant option" where
  "jwtExpiry token =
     (case SplitByte (CHR ''.'') token of
        [_, payload, _] \<Rightarrow>
          (case DecodeString payload of
             None \<Rightarrow> None
           | Some text \<Rightarrow>
               (case Unmarshal (decode_struct [(''exp'', decode_int64 jc_Exp_update)]) \<lparr>jc_Exp = 0\<rparr> (ParseJSON text) of
                  None \<Rightarrow> None
                | Some claims \<Rightarrow> (if jc_Exp claims = 0 then None else Some (jc_Exp claims * second_ns))))
      | _ \<Rightarrow> None)"

definition cacheTTL :: "string \<Rightarrow> instant \<Rightarrow> duration" where
  "cacheTTL token now =
     (case jwtExpiry token of
        None \<Rightarrow> tokenCacheMaxTTL
      | Some expiry \<Rightarrow>
          (let ttl = expiry - now - tokenCacheSafetyMargin
           in if ttl > tokenCacheMaxTTL then tokenCacheMaxTTL else if ttl < 0 then 0 else ttl))"

text \<open>What the apiserver said: an error, or the user name and whether it authenticated.\<close>

type_synonym reviewer = "string \<Rightarrow> string + (string \<times> bool)"

datatype authResult = Rejected | Unreachable string | Namespace string

definition Authenticate :: "(string \<Rightarrow> string) \<Rightarrow> reviewer \<Rightarrow> instant \<Rightarrow> string \<Rightarrow> tokenCache \<Rightarrow> authResult \<times> tokenCache" where
  "Authenticate hash Review now token cache =
     (let key = hash token;
          hit = (case mlookup cache key of Some entry \<Rightarrow> now < tc_expires entry | None \<Rightarrow> False)
      in if hit then (case mlookup cache key of Some entry \<Rightarrow> (Namespace (tc_namespace entry), cache) | None \<Rightarrow> (Rejected, cache))
         else case Review token of
                Inl e \<Rightarrow> (Unreachable e, cache)
              | Inr (username, authenticated) \<Rightarrow>
                  (if \<not> authenticated then (Rejected, cache)
                   else case namespaceFromUsername username of
                          None \<Rightarrow> (Rejected, cache)
                        | Some ns \<Rightarrow>
                            (Namespace ns, mput key \<lparr>tc_namespace = ns, tc_expires = now + cacheTTL token now\<rparr> cache)))"

subsection \<open>Pods and requests\<close>

record OwnerReference =
  owr_APIVersion :: string
  owr_Kind :: string

record Pod =
  pod_Namespace :: string
  pod_OwnerReferences :: "OwnerReference list"
  pod_Labels :: "string gomap"

text \<open>\<^verbatim>\<open>schema.ParseGroupVersion\<close>: the group part, or an error for more than one slash.\<close>

definition group_of :: "string \<Rightarrow> string option" where
  "group_of apiVersion =
     (if apiVersion = [] \<or> apiVersion = ''/'' then Some []
      else case SplitByte (CHR ''/'') apiVersion of
             [_] \<Rightarrow> Some []
           | [g, _] \<Rightarrow> Some g
           | _ \<Rightarrow> None)"

definition isKaalmManagedPod :: "Pod \<Rightarrow> bool" where
  "isKaalmManagedPod pod =
     (list_ex (\<lambda>ref. group_of (owr_APIVersion ref) = Some ''kaalm.io'' \<and> (owr_Kind ref = ''Agent'' \<or> owr_Kind ref = ''AgentTask''))
        (pod_OwnerReferences pod)
      \<or> mhas (pod_Labels pod) ''kaalm.io/workload'')"

record podStore =
  PodByIP :: "string \<Rightarrow> Pod option"
  PodByIPLive :: "string \<Rightarrow> string \<Rightarrow> Pod option"

record httpRequest =
  rq_Method :: string
  rq_Path :: string
  rq_Query :: "string gomap"
  rq_Header :: Header
  rq_PeerCert :: "certificate option"
  rq_SourceIP :: string
  rq_Body :: string
  rq_BodyErr :: "string option"

record caller =
  cl_Namespace :: string
  cl_Workload :: "Identity option"

record Authenticator =
  au_Store :: podStore
  au_Tokens :: tokenCache
  au_OperatorNamespace :: string
  au_DisableSourceIPCheck :: bool

definition crossCheck :: "Authenticator \<Rightarrow> httpRequest \<Rightarrow> string \<Rightarrow> bool" where
  "crossCheck a r namespace =
     (if au_DisableSourceIPCheck a then True
      else case PodByIP (au_Store a) (rq_SourceIP r) of
             None \<Rightarrow> False
           | Some pod \<Rightarrow> pod_Namespace pod = namespace)"

definition crossCheckLive :: "Authenticator \<Rightarrow> httpRequest \<Rightarrow> string \<Rightarrow> bool" where
  "crossCheckLive a r namespace =
     (if au_DisableSourceIPCheck a then True
      else let ip = rq_SourceIP r;
               found = (case PodByIP (au_Store a) ip of Some pod \<Rightarrow> Some pod | None \<Rightarrow> PodByIPLive (au_Store a) namespace ip)
           in case found of None \<Rightarrow> False | Some pod \<Rightarrow> pod_Namespace pod = namespace)"

subsection \<open>The per-path regimes\<close>

datatype 'c gate = Answer Reply | Next 'c

definition DualModePaths ::
  "(string \<Rightarrow> string) \<Rightarrow> reviewer \<Rightarrow> instant \<Rightarrow> httpRequest \<Rightarrow> Authenticator \<Rightarrow> caller gate \<times> Authenticator" where
  "DualModePaths hash Review now r a =
     (case rq_PeerCert r of
        Some cert \<Rightarrow>
          (case ParseWorkloadSAN cert of
             Inl e \<Rightarrow> (Answer (forbidden errInvalidCert e), a)
           | Inr wid \<Rightarrow>
               (if \<not> crossCheck a r (id_Namespace wid)
                then (Answer (unauthorized ''source IP does not match the authenticated namespace''), a)
                else (Next \<lparr>cl_Namespace = id_Namespace wid, cl_Workload = Some wid\<rparr>, a)))
      | None \<Rightarrow>
          (case bearerToken (hdr_Get (rq_Header r) ''Authorization'') of
             None \<Rightarrow> (Answer (unauthorized ''no client certificate or bearer token presented''), a)
           | Some token \<Rightarrow>
               (if \<not> au_DisableSourceIPCheck a \<and>
                   (case PodByIP (au_Store a) (rq_SourceIP r) of Some pod \<Rightarrow> isKaalmManagedPod pod | None \<Rightarrow> False)
                then (Answer (unauthorized ''Kaalm-managed Pods must authenticate with mTLS''), a)
                else
                  (case Authenticate hash Review now token (au_Tokens a) of (res, cache) \<Rightarrow>
                     (let a = a\<lparr>au_Tokens := cache\<rparr>
                      in case res of
                           Unreachable e \<Rightarrow>
                             (Answer (writeError 503 \<lparr>eb_Type = errInternalUnavailable, eb_Message = ''TokenReview unavailable'',
                                                      eb_Provider = [], eb_Retryable = True\<rparr> 1), a)
                         | Rejected \<Rightarrow> (Answer (unauthorized ''token rejected''), a)
                         | Namespace ns \<Rightarrow>
                             (if \<not> crossCheck a r ns
                              then (Answer (unauthorized ''source IP does not match the authenticated namespace''), a)
                              else (Next \<lparr>cl_Namespace = ns, cl_Workload = None\<rparr>, a)))))))"

definition AgentReportPaths :: "string \<Rightarrow> httpRequest \<Rightarrow> Authenticator \<Rightarrow> caller gate" where
  "AgentReportPaths requiredKind r a =
     (case rq_PeerCert r of
        None \<Rightarrow> Answer (unauthorized ''client certificate required'')
      | Some cert \<Rightarrow>
          (case ParseWorkloadSAN cert of
             Inl e \<Rightarrow> Answer (forbidden errInvalidCert e)
           | Inr wid \<Rightarrow>
               (if id_Kind wid \<noteq> requiredKind
                then Answer (forbidden errAccessDenied (id_Kind wid @ '' callers are not accepted on this path''))
                else if \<not> (if requiredKind = KindAgentTask then crossCheckLive else crossCheck) a r (id_Namespace wid)
                then Answer (unauthorized ''source IP does not match the authenticated namespace'')
                else Next \<lparr>cl_Namespace = id_Namespace wid, cl_Workload = Some wid\<rparr>)))"

definition ControllerPaths :: "httpRequest \<Rightarrow> Authenticator \<Rightarrow> unit gate" where
  "ControllerPaths r a =
     (case rq_PeerCert r of
        None \<Rightarrow> Answer (unauthorized ''client certificate required'')
      | Some cert \<Rightarrow>
          (if \<not> IsControllerCert cert (au_OperatorNamespace a)
           then Answer (forbidden errAccessDenied ''this path requires the controller identity'') else Next ()))"

definition ConsolePaths :: "httpRequest \<Rightarrow> Authenticator \<Rightarrow> unit gate" where
  "ConsolePaths r a =
     (case rq_PeerCert r of
        None \<Rightarrow> Answer (unauthorized ''client certificate required'')
      | Some cert \<Rightarrow>
          (if \<not> IsConsoleCert cert (au_OperatorNamespace a)
           then Answer (forbidden errAccessDenied ''this path requires the console identity'') else Next ()))"

lemmas auth_defs [kaalm_eval] = ParseWorkloadSAN_def isServiceCert_def IsControllerCert_def IsConsoleCert_def
  tokenCacheMaxTTL_def tokenCacheSafetyMargin_def namespaceFromUsername_def bearerToken_def base64_val_def DecodeString_def
  jwtExpiry_def cacheTTL_def Authenticate_def group_of_def isKaalmManagedPod_def crossCheck_def crossCheckLive_def
  DualModePaths_def AgentReportPaths_def ControllerPaths_def ConsolePaths_def

subsection \<open>Certificates of workloads and services\<close>

lemma scan_sans_append:
  "scan_sans (xs @ ys) m b = (case scan_sans xs m b of (m', b') \<Rightarrow> scan_sans ys m' b')"
  by (induction xs m b rule: scan_sans.induct) (auto simp: Let_def)

definition agent_san :: "string \<Rightarrow> string \<Rightarrow> string" where
  "agent_san name ns = name @ ''.'' @ ns @ ''.svc.cluster.local''"

definition task_san :: "string \<Rightarrow> string \<Rightarrow> string" where
  "task_san name ns = name @ ''.'' @ ns @ ''.task.kaalm.io''"

text \<open>A DNS label: not empty and without a dot.\<close>

definition dns_label :: "string \<Rightarrow> bool" where
  "dns_label s = (s \<noteq> [] \<and> CHR ''.'' \<notin> set s)"

lemma SplitByte_append: "c \<notin> set a \<Longrightarrow> SplitByte c (a @ c # b) = a # SplitByte c b"
  by (induction a) auto

lemma SplitByte_none: "c \<notin> set a \<Longrightarrow> SplitByte c a = [a]"
  by (induction a) auto

lemma HasSuffix_append [simp]: "HasSuffix (a @ b) b"
  by (simp add: HasSuffix_def)

lemma HasSuffix_iff: "HasSuffix s p \<longleftrightarrow> (\<exists>a. s = a @ p)"
proof
  assume "HasSuffix s p"
  then have "s = take (length s - length p) s @ p" by (metis HasSuffix_def append_take_drop_id)
  then show "\<exists>a. s = a @ p" ..
qed auto

text \<open>Splitting at dots and joining is the identity.\<close>

fun dotted :: "string list \<Rightarrow> string" where
  "dotted [] = []"
| "dotted [l] = l"
| "dotted (l # m # ls) = l @ ''.'' @ dotted (m # ls)"

lemma dotted_Cons: "dotted ((c # l) # ls) = c # dotted (l # ls)"
  by (cases ls) auto

lemma dotted_SplitByte: "dotted (SplitByte (CHR ''.'') s) = s"
proof (induction s)
  case (Cons c s)
  then show ?case
    by (cases "SplitByte (CHR ''.'') s") (auto simp: dotted_Cons)
qed simp

lemma split_agent_san:
  assumes "dns_label n" "dns_label ns"
  shows "SplitByte (CHR ''.'') (agent_san n ns) = [n, ns, ''svc'', ''cluster'', ''local'']"
    "SplitByte (CHR ''.'') (task_san n ns) = [n, ns, ''task'', ''kaalm'', ''io'']"
  using assms by (simp_all add: agent_san_def task_san_def dns_label_def SplitByte_append)

lemma san_suffixes:
  "HasSuffix (agent_san n ns) (''.'' @ AgentSANSuffix)" "HasSuffix (task_san n ns) (''.'' @ TaskSANSuffix)"
  "\<not> HasSuffix (task_san n ns) (''.'' @ AgentSANSuffix)"
proof -
  show "HasSuffix (agent_san n ns) (''.'' @ AgentSANSuffix)" "HasSuffix (task_san n ns) (''.'' @ TaskSANSuffix)"
    using HasSuffix_append [of "n @ ''.'' @ ns" "''.svc.cluster.local''"] HasSuffix_append [of "n @ ''.'' @ ns" "''.task.kaalm.io''"]
    by (simp_all add: agent_san_def task_san_def san_defs)
  have "last (task_san n ns) = CHR ''o''" "last (''.'' @ AgentSANSuffix) = CHR ''l''" by (simp_all add: task_san_def san_defs)
  then show "\<not> HasSuffix (task_san n ns) (''.'' @ AgentSANSuffix)"
    by (auto simp: HasSuffix_iff san_defs)
qed

text \<open>A recognised agent name is the SAN of the identity read from it.\<close>

lemma agent_labels:
  assumes "HasSuffix san (''.'' @ AgentSANSuffix)" "length (SplitByte (CHR ''.'') san) = AgentSANLabels"
  shows "san = agent_san (SplitByte (CHR ''.'') san ! 0) (SplitByte (CHR ''.'') san ! 1)"
proof -
  obtain a where a: "san = a @ ''.svc.cluster.local''" using assms(1) by (auto simp: HasSuffix_iff san_defs)
  have split: "SplitByte (CHR ''.'') (b @ ''.svc.cluster.local'') = SplitByte (CHR ''.'') b @ [''svc'', ''cluster'', ''local'']" for b
    by (induction b) (auto split: list.splits simp: neq_Nil_conv)
  have "length (SplitByte (CHR ''.'') a) = 2" using assms(2) unfolding a split by (simp add: AgentSANLabels_def)
  then obtain x y where xy: "SplitByte (CHR ''.'') a = [x, y]" by (auto simp: length_Suc_conv numeral_2_eq_2)
  have "a = x @ ''.'' @ y" using dotted_SplitByte [of a] by (simp add: xy)
  then show ?thesis unfolding a split xy by (simp add: agent_san_def)
qed

lemma ParseWorkloadSAN_single:
  assumes "dns_label n" "dns_label ns"
  shows "ParseWorkloadSAN [agent_san n ns] = Inr \<lparr>id_Namespace = ns, id_Name = n, id_Kind = KindAgent\<rparr>"
    "ParseWorkloadSAN [task_san n ns] = Inr \<lparr>id_Namespace = ns, id_Name = n, id_Kind = KindAgentTask\<rparr>"
  using split_agent_san [OF assms] san_suffixes
  by (simp_all add: ParseWorkloadSAN_def AgentSANLabels_def TaskSANLabels_def Let_def)

lemma agent_san_inject: "dns_label n \<Longrightarrow> dns_label ns \<Longrightarrow> dns_label m \<Longrightarrow> dns_label ms \<Longrightarrow>
  agent_san n ns = agent_san m ms \<longleftrightarrow> n = m \<and> ns = ms"
  by (metis split_agent_san(1) list.inject)

subsection \<open>The token cache\<close>

inductive cache_reach :: "(string \<Rightarrow> string) \<Rightarrow> instant \<Rightarrow> tokenCache \<Rightarrow> bool" for hash where
  start: "cache_reach hash t []"
| step: "cache_reach hash t cache \<Longrightarrow> t \<le> now \<Longrightarrow> cache_reach hash now (snd (Authenticate hash Review now token cache))"

inductive_cases cache_reachE: "cache_reach hash t cache"

text \<open>Every entry belongs to a token that was accepted at some earlier time, and does not outlive it.\<close>

definition cache_ok :: "(string \<Rightarrow> string) \<Rightarrow> instant \<Rightarrow> tokenCache \<Rightarrow> bool" where
  "cache_ok hash t cache =
     (\<forall>key entry. mlookup cache key = Some entry \<longrightarrow>
        (\<exists>token t0. key = hash token \<and> t0 \<le> t \<and> tc_expires entry = t0 + cacheTTL token t0))"

lemma Authenticate_cache:
  assumes "Authenticate hash Review now token cache = (res, cache')"
  shows "cache' = cache \<or> (\<exists>ns. cache' = mput (hash token) \<lparr>tc_namespace = ns, tc_expires = now + cacheTTL token now\<rparr> cache)"
  using assms by (auto simp: Authenticate_def Let_def split: if_splits option.splits sum.splits prod.splits)

lemma cache_reach_ok: "cache_reach hash t cache \<Longrightarrow> cache_ok hash t cache"
proof (induction rule: cache_reach.induct)
  case (step t cache now Review token)
  obtain res cache' where a: "Authenticate hash Review now token cache = (res, cache')" by force
  have old: "\<exists>token t0. key = hash token \<and> t0 \<le> now \<and> tc_expires entry = t0 + cacheTTL token t0"
    if "mlookup cache key = Some entry" for key entry
    using step.IH step.hyps(2) that unfolding cache_ok_def by (meson order_trans)
  show ?case using Authenticate_cache [OF a]
  proof
    assume "cache' = cache"
    then show ?thesis using old unfolding a cache_ok_def by simp
  next
    assume "\<exists>ns. cache' = mput (hash token) \<lparr>tc_namespace = ns, tc_expires = now + cacheTTL token now\<rparr> cache"
    then obtain ns where c': "cache' = mput (hash token) \<lparr>tc_namespace = ns, tc_expires = now + cacheTTL token now\<rparr> cache" ..
    show ?thesis unfolding a cache_ok_def snd_conv
    proof (intro allI impI)
      fix key entry assume l: "mlookup cache' key = Some entry"
      show "\<exists>token t0. key = hash token \<and> t0 \<le> now \<and> tc_expires entry = t0 + cacheTTL token t0"
      proof (cases "key = hash token")
        case True
        then show ?thesis using l by (intro exI [of _ token] exI [of _ now]) (auto simp: c')
      next
        case False
        then show ?thesis using l old [of key entry] by (simp add: c')
      qed
    qed
  qed
qed (simp add: cache_ok_def)

lemma cacheTTL_expiry:
  assumes "jwtExpiry token = Some e" "t0 \<le> now" "now < t0 + cacheTTL token t0"
  shows "now < e - tokenCacheSafetyMargin"
  using assms by (auto simp: cacheTTL_def Let_def split: if_splits)

lemma cacheTTL_max: "cacheTTL token t0 \<le> tokenCacheMaxTTL"
  by (auto simp: cacheTTL_def Let_def tokenCacheMaxTTL_def duration_defs split: option.splits)

lemma Authenticate_hit:
  assumes "Authenticate hash Review now token cache = (Namespace ns, cache')" "Review token = Inl e"
  shows "\<exists>entry. mlookup cache (hash token) = Some entry \<and> now < tc_expires entry \<and> tc_namespace entry = ns"
  using assms by (auto simp: Authenticate_def Let_def split: if_splits option.splits)

subsection \<open>Properties\<close>


definition sample_pod :: Pod where
  "sample_pod = \<lparr>pod_Namespace = ''team'', pod_OwnerReferences = [], pod_Labels = []\<rparr>"

definition sample_auth :: Authenticator where
  "sample_auth = \<lparr>au_Store = \<lparr>PodByIP = (\<lambda>ip. if ip = ''10.0.0.1'' then Some sample_pod else None), PodByIPLive = (\<lambda>ns ip. None)\<rparr>,
     au_Tokens = [], au_OperatorNamespace = ''kaalm-system'', au_DisableSourceIPCheck = False\<rparr>"

definition sample_request :: httpRequest where
  "sample_request = \<lparr>rq_Method = ''POST'', rq_Path = ''/v1/messages'', rq_Query = [], rq_Header = [],
     rq_PeerCert = Some [''bot.team.svc.cluster.local'', ''bot.team.svc''], rq_SourceIP = ''10.0.0.1'', rq_Body = [], rq_BodyErr = None\<rparr>"

definition sample_caller :: caller where
  "sample_caller = \<lparr>cl_Namespace = ''team'', cl_Workload = Some \<lparr>id_Namespace = ''team'', id_Name = ''bot'', id_Kind = KindAgent\<rparr>\<rparr>"

lemmas sample_auth_defs [kaalm_eval] = sample_pod_def sample_auth_def sample_request_def sample_caller_def


text \<open>Property C32. Workload names round trip through certificates: for DNS labels, the certificate
  name of an agent or of a task reads back as that workload, of that kind, in that namespace, and no
  other workload has it.\<close>
theorem workload_san_round_trip:
  assumes "dns_label n" "dns_label ns"
  shows "ParseWorkloadSAN [agent_san n ns] = Inr \<lparr>id_Namespace = ns, id_Name = n, id_Kind = KindAgent\<rparr>
    \<and> ParseWorkloadSAN [task_san n ns] = Inr \<lparr>id_Namespace = ns, id_Name = n, id_Kind = KindAgentTask\<rparr>
    \<and> (\<forall>m ms. dns_label m \<longrightarrow> dns_label ms \<longrightarrow> agent_san m ms = agent_san n ns \<longrightarrow> m = n \<and> ms = ns)"
  using ParseWorkloadSAN_single [OF assms] agent_san_inject [OF _ _ assms] by blast

theorem workload_san_round_trip_witness:
  "ParseWorkloadSAN [agent_san ''bot'' ''team''] = Inr \<lparr>id_Namespace = ''team'', id_Name = ''bot'', id_Kind = KindAgent\<rparr>"
  using workload_san_round_trip [of "''bot''" "''team''"] by (simp add: dns_label_def)

text \<open>The controller-only paths are closed to workload certificates with one exception:
  the certificate of an agent passes exactly when the agent is named like the controller Service and
  lives in the operator's namespace, and a task certificate never passes.\<close>
theorem controller_paths_workloads:
  assumes "dns_label n" "dns_label ns" "dns_label (au_OperatorNamespace a)"
  shows "(ControllerPaths (r\<lparr>rq_PeerCert := Some [agent_san n ns]\<rparr>) a = Next () \<longleftrightarrow> n = ''kaalm-controller'' \<and> ns = au_OperatorNamespace a)
    \<and> ControllerPaths (r\<lparr>rq_PeerCert := Some [task_san n ns]\<rparr>) a \<noteq> Next ()"
proof -
  let ?op = "au_OperatorNamespace a"
  let ?long = "agent_san ''kaalm-controller'' ?op" and ?short = "''kaalm-controller'' @ ''.'' @ ?op @ ''.svc''"
  have cert: "IsControllerCert [san] ?op \<longleftrightarrow> san = ?long \<or> san = ?short" for san
    by (simp add: IsControllerCert_def isServiceCert_def agent_san_def)
  have ctl: "dns_label ''kaalm-controller''" by (simp add: dns_label_def)
  have short: "SplitByte (CHR ''.'') ?short = [''kaalm-controller'', ?op, ''svc'']"
    using assms(3) by (simp add: dns_label_def SplitByte_append)
  have "agent_san n ns \<noteq> ?short"
  proof
    assume "agent_san n ns = ?short"
    then have "SplitByte (CHR ''.'') (agent_san n ns) = SplitByte (CHR ''.'') ?short" by (simp only:)
    then show False unfolding short split_agent_san(1) [OF assms(1,2)] by simp
  qed
  then have agent: "ControllerPaths (r\<lparr>rq_PeerCert := Some [agent_san n ns]\<rparr>) a = Next () \<longleftrightarrow> n = ''kaalm-controller'' \<and> ns = ?op"
    using agent_san_inject [OF assms(1,2) ctl assms(3)] by (simp add: ControllerPaths_def cert)
  have "task_san n ns \<noteq> s" if "SplitByte (CHR ''.'') s \<noteq> [n, ns, ''task'', ''kaalm'', ''io'']" for s
    using split_agent_san(2) [OF assms(1,2)] that by metis
  note task = this
  have "task_san n ns \<noteq> ?short" by (rule task) (unfold short, simp)
  moreover have "task_san n ns \<noteq> ?long" by (rule task) (unfold split_agent_san(1) [OF ctl assms(3)], simp)
  ultimately have "ControllerPaths (r\<lparr>rq_PeerCert := Some [task_san n ns]\<rparr>) a \<noteq> Next ()"
    by (simp add: ControllerPaths_def cert)
  with agent show ?thesis by blast
qed

theorem controller_paths_workloads_witness:
  "ControllerPaths (sample_request\<lparr>rq_PeerCert := Some [agent_san ''bot'' ''team'']\<rparr>) sample_auth \<noteq> Next ()
   \<and> ControllerPaths (sample_request\<lparr>rq_PeerCert := Some [agent_san ''kaalm-controller'' ''kaalm-system'']\<rparr>) sample_auth = Next ()"
  using controller_paths_workloads [of "''bot''" "''team''" sample_auth sample_request]
    controller_paths_workloads [of "''kaalm-controller''" "''kaalm-system''" sample_auth sample_request]
  by (simp add: dns_label_def sample_auth_def)



end
