(* ===== verification/Activity_Store.thy ===== *)
theory Activity_Store
  imports Identity_Auth Budget_Ledger
begin

text \<open>
  The in-memory activity timestamps (\<^verbatim>\<open>internal/gateway/activity.go\<close>) and the handlers that read
  them and the spend view (\<^verbatim>\<open>spend.go\<close>). The clock value of an operation is an argument; a zero
  \<^verbatim>\<open>time.Time\<close> is \<open>None\<close>.
\<close>

subsection \<open>The code\<close>

record activityEntry =
  ae_gatewayTraffic :: "instant option"
  ae_heartbeat :: "instant option"

record ActivityStore =
  as_startedAt :: instant
  as_byNamespace :: "activityEntry gomap gomap"

definition NewActivityStore :: "instant \<Rightarrow> ActivityStore" where
  "NewActivityStore now = \<lparr>as_startedAt = now, as_byNamespace = []\<rparr>"

definition entry :: "ActivityStore \<Rightarrow> string \<Rightarrow> string \<Rightarrow> activityEntry" where
  "entry s ns agent =
     mget \<lparr>ae_gatewayTraffic = None, ae_heartbeat = None\<rparr> (mget [] (as_byNamespace s) ns) agent"

definition put_entry :: "string \<Rightarrow> string \<Rightarrow> activityEntry \<Rightarrow> ActivityStore \<Rightarrow> ActivityStore" where
  "put_entry ns agent e s =
     s\<lparr>as_byNamespace := mput ns (mput agent e (mget [] (as_byNamespace s) ns)) (as_byNamespace s)\<rparr>"

definition RecordTraffic :: "instant \<Rightarrow> string \<Rightarrow> string \<Rightarrow> ActivityStore \<Rightarrow> ActivityStore" where
  "RecordTraffic now ns agent s = put_entry ns agent ((entry s ns agent)\<lparr>ae_gatewayTraffic := Some now\<rparr>) s"

definition RecordHeartbeat :: "instant \<Rightarrow> string \<Rightarrow> string \<Rightarrow> ActivityStore \<Rightarrow> ActivityStore" where
  "RecordHeartbeat now ns agent s = put_entry ns agent ((entry s ns agent)\<lparr>ae_heartbeat := Some now\<rparr>) s"

record activityResponse =
  ar_ReplicaStartedAt :: instant
  ar_Agents :: "(instant option \<times> instant option) gomap"

definition Snapshot :: "string \<Rightarrow> ActivityStore \<Rightarrow> activityResponse" where
  "Snapshot ns s =
     \<lparr>ar_ReplicaStartedAt = as_startedAt s,
      ar_Agents = map (\<lambda>(agent, e). (agent, (ae_gatewayTraffic e, ae_heartbeat e))) (mget [] (as_byNamespace s) ns)\<rparr>"

datatype 'v viewReply = ViewError Reply | View 'v

definition handleActivity :: "httpRequest \<Rightarrow> ActivityStore \<Rightarrow> activityResponse viewReply" where
  "handleActivity r s =
     (let ns = mget [] (rq_Query r) ''namespace''
      in if ns = [] then ViewError (badRequest ''namespace query parameter is required'') else View (Snapshot ns s))"

definition handleHeartbeat :: "instant \<Rightarrow> caller \<Rightarrow> ActivityStore \<Rightarrow> Reply \<times> ActivityStore" where
  "handleHeartbeat now c s =
     (\<lparr>rp_Status = 200, rp_Header = [], rp_Body = TextBody []\<rparr>,
      case cl_Workload c of
        Some w \<Rightarrow> RecordHeartbeat now (cl_Namespace c) (id_Name w) s
      | None \<Rightarrow> s)"

definition handleSpend :: "httpRequest \<Rightarrow> BudgetLedger \<Rightarrow> WorkloadProviderSpend gomap viewReply" where
  "handleSpend r b =
     (if rq_Method r \<noteq> ''GET'' then ViewError (badRequest ''GET required'')
      else let namespace = mget [] (rq_Query r) ''namespace''
           in if namespace = [] then ViewError (badRequest ''namespace query parameter is required'')
              else View (WorkloadSpend b namespace))"

lemmas activity_defs [kaalm_eval] = NewActivityStore_def entry_def put_entry_def RecordTraffic_def RecordHeartbeat_def
  Snapshot_def handleActivity_def handleHeartbeat_def handleSpend_def

subsection \<open>The last record of each signal\<close>

datatype activity_op = Traffic string string | Heartbeat string string

fun run_activity :: "(instant \<times> activity_op) list \<Rightarrow> ActivityStore \<Rightarrow> ActivityStore" where
  "run_activity [] s = s"
| "run_activity ((t, Traffic ns a) # ops) s = run_activity ops (RecordTraffic t ns a s)"
| "run_activity ((t, Heartbeat ns a) # ops) s = run_activity ops (RecordHeartbeat t ns a s)"

text \<open>The time of the last operation in a history, the reference for what the store reports.\<close>

fun last_time :: "activity_op \<Rightarrow> (instant \<times> activity_op) list \<Rightarrow> instant option" where
  "last_time x [] = None"
| "last_time x ((t, y) # ops) =
     (case last_time x ops of Some u \<Rightarrow> Some u | None \<Rightarrow> (if x = y then Some t else None))"

lemma entry_put: "entry (put_entry ns a e s) ns' a' = (if ns' = ns \<and> a' = a then e else entry s ns' a')"
  by (simp add: entry_def put_entry_def)

lemma entry_run:
  "entry (run_activity ops s) ns a =
   \<lparr>ae_gatewayTraffic = (case last_time (Traffic ns a) ops of Some t \<Rightarrow> Some t | None \<Rightarrow> ae_gatewayTraffic (entry s ns a)),
    ae_heartbeat = (case last_time (Heartbeat ns a) ops of Some t \<Rightarrow> Some t | None \<Rightarrow> ae_heartbeat (entry s ns a))\<rparr>"
  by (induction ops s rule: run_activity.induct)
     (auto simp: RecordTraffic_def RecordHeartbeat_def entry_put split: option.splits)

lemma mlookup_map_values: "mlookup (map (\<lambda>(k, v). (k, f v)) m) k = map_option f (mlookup m k)"
  by (induction m) auto

lemma Snapshot_entry:
  "mlookup (ar_Agents (Snapshot ns s)) a = Some v \<Longrightarrow> v = (ae_gatewayTraffic (entry s ns a), ae_heartbeat (entry s ns a))"
  by (auto simp: Snapshot_def mlookup_map_values entry_def mget_def)

lemma Snapshot_has:
  "mhas (ar_Agents (Snapshot ns (run_activity ops s))) a \<longleftrightarrow>
   mhas (ar_Agents (Snapshot ns s)) a \<or> last_time (Traffic ns a) ops \<noteq> None \<or> last_time (Heartbeat ns a) ops \<noteq> None"
proof (induction ops s rule: run_activity.induct)
  case (2 t ns' a' ops s)
  have "mhas (ar_Agents (Snapshot ns (RecordTraffic t ns' a' s))) a \<longleftrightarrow> (ns = ns' \<and> a = a') \<or> mhas (ar_Agents (Snapshot ns s)) a"
    by (auto simp: Snapshot_def RecordTraffic_def put_entry_def mhas_def mlookup_map_values)
  then show ?case using 2 by (auto split: option.splits)
next
  case (3 t ns' a' ops s)
  have "mhas (ar_Agents (Snapshot ns (RecordHeartbeat t ns' a' s))) a \<longleftrightarrow> (ns = ns' \<and> a = a') \<or> mhas (ar_Agents (Snapshot ns s)) a"
    by (auto simp: Snapshot_def RecordHeartbeat_def put_entry_def mhas_def mlookup_map_values)
  then show ?case using 3 by (auto split: option.splits)
qed simp

subsection \<open>Properties\<close>

text \<open>Property C36. The activity view is exact: after any sequence of traffic and heartbeat records
  on a fresh replica, the agents listed for a namespace are those with at least one record, and each
  is listed with the time of its last traffic and of its last heartbeat, a signal that never came
  being null.\<close>
theorem activity_view_exact:
  "mlookup (ar_Agents (Snapshot ns (run_activity ops (NewActivityStore t0)))) a =
   (if last_time (Traffic ns a) ops = None \<and> last_time (Heartbeat ns a) ops = None then None
    else Some (last_time (Traffic ns a) ops, last_time (Heartbeat ns a) ops))"
proof -
  let ?s = "run_activity ops (NewActivityStore t0)"
  have has: "mhas (ar_Agents (Snapshot ns ?s)) a \<longleftrightarrow> last_time (Traffic ns a) ops \<noteq> None \<or> last_time (Heartbeat ns a) ops \<noteq> None"
    unfolding Snapshot_has by (simp add: Snapshot_def NewActivityStore_def)
  have e: "entry ?s ns a = \<lparr>ae_gatewayTraffic = last_time (Traffic ns a) ops, ae_heartbeat = last_time (Heartbeat ns a) ops\<rparr>"
    unfolding entry_run by (auto simp: entry_def NewActivityStore_def split: option.split)
  show ?thesis
  proof (cases "mlookup (ar_Agents (Snapshot ns ?s)) a")
    case None
    then show ?thesis using has by (simp add: mhas_def)
  next
    case (Some v)
    then show ?thesis using has Snapshot_entry [OF Some] e by (simp add: mhas_def)
  qed
qed

end
