(* ===== verification/Routing.thy ===== *)
theory Routing
  imports Identity_Auth Json_Print
begin

text \<open>
  The tenancy chain of the LLM proxy (\<^verbatim>\<open>internal/gateway/routing.go\<close>). \<open>Match\<close> is \<^verbatim>\<open>path.Match\<close> on
  single-byte characters, by backtracking over its documented grammar: namespaces are DNS labels, so
  the names matched are ASCII and have no slash. A malformed pattern, which Go reports as an error,
  never matches here, and the caller treats the two alike. The \<open>Store\<close> record holds the informer-backed lookups as functions.
\<close>

subsection \<open>path.Match\<close>

definition get_esc :: "string \<Rightarrow> (char \<times> string) option" where
  "get_esc p =
     (case p of
        [] \<Rightarrow> None
      | c # r \<Rightarrow>
          (if c = CHR ''-'' \<or> c = CHR '']'' then None
           else let r = (if c = backslash then r else p)
                in case r of [] \<Rightarrow> None | d # q \<Rightarrow> (if q = [] then None else Some (d, q))))"

text \<open>The ranges of a character class, up to the closing bracket: whether the character is in one
  of them, and the pattern after the bracket.\<close>

fun class_items :: "nat \<Rightarrow> char \<Rightarrow> string \<Rightarrow> bool \<Rightarrow> bool \<Rightarrow> (bool \<times> string) option" where
  "class_items 0 c p seen matched = None"
| "class_items (Suc n) c p seen matched =
     (if p \<noteq> [] \<and> hd p = CHR '']'' \<and> seen then Some (matched, tl p)
      else case get_esc p of
             None \<Rightarrow> None
           | Some (lo, p1) \<Rightarrow>
               (case (if p1 \<noteq> [] \<and> hd p1 = CHR ''-'' then get_esc (tl p1) else Some (lo, p1)) of
                  None \<Rightarrow> None
                | Some (hi, p2) \<Rightarrow>
                    class_items n c p2 True
                      (matched \<or> ((of_char lo :: nat) \<le> of_char c \<and> (of_char c :: nat) \<le> of_char hi))))"

lemma get_esc_length: "get_esc p = Some (c, r) \<Longrightarrow> length r < length p"
  by (auto simp: get_esc_def Let_def split: list.splits if_splits)

lemma class_items_length: "class_items n c p seen m = Some (b, r) \<Longrightarrow> length r < length p"
proof (induction n arbitrary: p seen m)
  case (Suc n)
  show ?case
  proof (cases "p \<noteq> [] \<and> hd p = CHR '']'' \<and> seen")
    case True
    then show ?thesis using Suc.prems by (cases p) auto
  next
    case False
    then obtain lo p1 where 1: "get_esc p = Some (lo, p1)" using Suc.prems by (auto split: option.splits)
    then obtain hi p2 m' where 2: "(if p1 \<noteq> [] \<and> hd p1 = CHR ''-'' then get_esc (tl p1) else Some (lo, p1)) = Some (hi, p2)"
      "class_items n c p2 True m' = Some (b, r)"
      using Suc.prems False by (auto split: option.splits if_splits)
    have "length p2 \<le> length p1" using 2(1) get_esc_length [of "tl p1" hi p2] by (auto split: if_splits)
    then show ?thesis using Suc.IH [OF 2(2)] get_esc_length [OF 1] by simp
  qed
qed simp

definition class_match :: "char \<Rightarrow> string \<Rightarrow> (bool \<times> string) option" where
  "class_match c p =
     (let neg = (p \<noteq> [] \<and> hd p = CHR ''^''); q = (if neg then tl p else p)
      in map_option (\<lambda>(m, r). (m \<noteq> neg, r)) (class_items (Suc (length q)) c q False False))"

lemma class_match_length: "class_match c p = Some (b, r) \<Longrightarrow> length r < length p"
proof -
  let ?q = "if p \<noteq> [] \<and> hd p = CHR ''^'' then tl p else p"
  assume "class_match c p = Some (b, r)"
  then obtain m where "class_items (Suc (length ?q)) c ?q False False = Some (m, r)"
    unfolding class_match_def Let_def map_option_eq_Some by (auto simp only: prod.case split: prod.splits)
  then have "length r < length ?q" by (rule class_items_length)
  then show ?thesis by (auto split: if_splits)
qed

function Match :: "string \<Rightarrow> string \<Rightarrow> bool" where
  "Match p s =
     (case p of
        [] \<Rightarrow> s = []
      | x # q \<Rightarrow>
          (if x = CHR ''*'' then
             Match q s \<or> (case s of [] \<Rightarrow> False | c # t \<Rightarrow> c \<noteq> CHR ''/'' \<and> Match p t)
           else case s of
                  [] \<Rightarrow> False
                | c # t \<Rightarrow>
                    (if x = CHR ''?'' then c \<noteq> CHR ''/'' \<and> Match q t
                     else if x = CHR ''['' then
                       (case class_match c q of None \<Rightarrow> False | Some (ok, r) \<Rightarrow> ok \<and> Match r t)
                     else if x = backslash then (case q of [] \<Rightarrow> False | y # r \<Rightarrow> y = c \<and> Match r t)
                     else x = c \<and> Match q t)))"
  by pat_completeness auto

termination
  by (relation "measure (\<lambda>(p, s). length p + length s)") (auto dest: class_match_length)

declare Match.simps [simp del]

subsection \<open>The code\<close>

record Store =
  AgentByName :: "string \<Rightarrow> string \<Rightarrow> Agent option"
  TaskByName :: "string \<Rightarrow> string \<Rightarrow> AgentTask option"
  ClassByName :: "string \<Rightarrow> AgentClass option"
  ProviderByName :: "string \<Rightarrow> ModelProvider option"
  Credential :: "ModelProvider \<Rightarrow> string + string"
  ToolProviderByName :: "string \<Rightarrow> ToolProvider option"
  ToolCredential :: "ToolProvider \<Rightarrow> string + string"

definition splitQualifiedModel :: "string \<Rightarrow> (string \<times> string) option" where
  "splitQualifiedModel qualified =
     (case IndexByte (CHR ''/'') qualified of
        None \<Rightarrow> None
      | Some i \<Rightarrow>
          (if i = 0 \<or> i = length qualified - 1 then None
           else Some (take i qualified, drop (i + 1) qualified)))"

record routeDenial =
  rd_status :: int
  rd_errType :: string
  rd_message :: string

definition namespaceGlobAllowed :: "string \<Rightarrow> string list \<Rightarrow> bool" where
  "namespaceGlobAllowed ns allowed = (if length allowed = 0 then False else list_ex (\<lambda>pattern. Match pattern ns) allowed)"

definition containsProviderRef :: "string list \<Rightarrow> string \<Rightarrow> bool" where
  "containsProviderRef refs name = list_ex (\<lambda>r. r = name) refs"

definition workloadProviders :: "Store \<Rightarrow> string \<Rightarrow> Identity \<Rightarrow> (string list \<times> string) option" where
  "workloadProviders s namespace w =
     (if id_Kind w = KindAgent then
        (case AgentByName s namespace (id_Name w) of
           None \<Rightarrow> None
         | Some agent \<Rightarrow> Some (ag_Providers agent, ag_AgentClassRef agent))
      else if id_Kind w = KindAgentTask then
        (case TaskByName s namespace (id_Name w) of
           None \<Rightarrow> None
         | Some task \<Rightarrow> Some (at_Providers task, at_AgentClassRef task))
      else None)"

definition denial :: "int \<Rightarrow> string \<Rightarrow> string \<Rightarrow> routeDenial" where
  "denial status errType message = \<lparr>rd_status = status, rd_errType = errType, rd_message = message\<rparr>"

definition workload_gate :: "Store \<Rightarrow> caller \<Rightarrow> string \<Rightarrow> routeDenial option" where
  "workload_gate s c providerName =
     (case cl_Workload c of
        None \<Rightarrow> None
      | Some w \<Rightarrow>
          (case workloadProviders s (cl_Namespace c) w of
             None \<Rightarrow> Some (denial 403 errAccessDenied (id_Kind w @ '' '' @ show_quoted (id_Name w) @ '' not found in namespace '' @ show_quoted (cl_Namespace c)))
           | Some (refs, classRef) \<Rightarrow>
               (if \<not> containsProviderRef refs providerName
                then Some (denial 403 errAccessDenied (''provider '' @ show_quoted providerName @ '' is not in the workload's spec.providers''))
                else case ClassByName s classRef of
                       None \<Rightarrow> Some (denial 403 errAccessDenied (''AgentClass '' @ show_quoted classRef @ '' not found''))
                     | Some class \<Rightarrow>
                         (if \<not> list_ex (\<lambda>ap. ap = providerName) (ac_AllowedProviders class)
                          then Some (denial 403 errAccessDenied (''provider '' @ show_quoted providerName @ '' is not in AgentClass '' @ show_quoted classRef @ '' allowedProviders''))
                          else None))))"

definition authorizeRoute :: "Store \<Rightarrow> caller \<Rightarrow> string \<Rightarrow> string \<Rightarrow> routeDenial + ModelProvider" where
  "authorizeRoute s c providerName modelID =
     (case workload_gate s c providerName of
        Some d \<Rightarrow> Inl d
      | None \<Rightarrow>
          (case ProviderByName s providerName of
             None \<Rightarrow> Inl (denial 400 errInvalidRequest (''unknown provider '' @ show_quoted providerName))
           | Some provider \<Rightarrow>
               (if \<not> namespaceGlobAllowed (cl_Namespace c) (mps_AllowedNamespaces (mp_Spec provider))
                then Inl (denial 403 errAccessDenied (''namespace '' @ show_quoted (cl_Namespace c) @ '' is not allowed to use provider '' @ show_quoted providerName))
                else if list_ex (\<lambda>m. mdl_ID m = modelID) (mp_Models provider) then Inr provider
                else Inl (denial 400 errInvalidRequest (''model '' @ show_quoted modelID @ '' is not offered by provider '' @ show_quoted providerName)))))"

lemmas routing_defs [kaalm_eval] = get_esc_def class_match_def Match.simps splitQualifiedModel_def namespaceGlobAllowed_def
  containsProviderRef_def workloadProviders_def denial_def workload_gate_def authorizeRoute_def

subsection \<open>Lemmas\<close>

lemma Match_star: "Match ''*'' s \<longleftrightarrow> CHR ''/'' \<notin> set s"
proof (induction s)
  case Nil
  show ?case by (simp add: Match.simps)
next
  case (Cons c s)
  have "Match ''*'' (c # s) \<longleftrightarrow> Match [] (c # s) \<or> (c \<noteq> CHR ''/'' \<and> Match ''*'' s)"
    by (subst Match.simps) simp
  moreover have "\<not> Match [] (c # s)" by (subst Match.simps) simp
  ultimately show ?case using Cons by auto
qed

definition plain_char :: "char \<Rightarrow> bool" where
  "plain_char c = (c \<notin> {CHR ''*'', CHR ''?'', CHR ''['', backslash})"

lemma Match_plain: "\<forall>c\<in>set p. plain_char c \<Longrightarrow> Match p s \<longleftrightarrow> s = p"
proof (induction p arbitrary: s)
  case Nil
  show ?case by (simp add: Match.simps)
next
  case (Cons x p)
  have "Match (x # p) s = (case s of [] \<Rightarrow> False | c # t \<Rightarrow> x = c \<and> Match p t)"
    using Cons.prems by (subst Match.simps) (auto simp: plain_char_def split: list.split)
  then show ?case using Cons by (cases s) auto
qed

text \<open>The grants a workload has for a provider, as the two lists the chain consults.\<close>

definition workload_granted :: "Store \<Rightarrow> caller \<Rightarrow> string \<Rightarrow> bool" where
  "workload_granted s c providerName =
     (case cl_Workload c of
        None \<Rightarrow> True
      | Some w \<Rightarrow>
          (\<exists>refs classRef class. workloadProviders s (cl_Namespace c) w = Some (refs, classRef) \<and> providerName \<in> set refs \<and>
             ClassByName s classRef = Some class \<and> providerName \<in> set (ac_AllowedProviders class)))"

lemma workload_gate_None: "workload_gate s c p = None \<longleftrightarrow> workload_granted s c p"
  by (auto simp: workload_gate_def workload_granted_def containsProviderRef_def list_ex_iff split: option.splits)

subsection \<open>Properties\<close>

text \<open>Property C34. A route is authorised exactly when every link of the chain holds: the workload's
  resource lists the provider and its class allows it (for a caller with a workload identity), the
  provider exists, its allowlist has a pattern that matches the caller's namespace, and it offers the
  model.\<close>
theorem authorized_iff:
  "authorizeRoute s c providerName modelID = Inr provider \<longleftrightarrow>
   workload_granted s c providerName \<and> ProviderByName s providerName = Some provider \<and>
   (\<exists>pattern\<in>set (mps_AllowedNamespaces (mp_Spec provider)). Match pattern (cl_Namespace c)) \<and>
   (\<exists>m\<in>set (mp_Models provider). mdl_ID m = modelID)"
  using workload_gate_None [of s c providerName]
  by (auto simp: authorizeRoute_def namespaceGlobAllowed_def list_ex_iff split: option.splits)

text \<open>Property C35. A namespace that may not use a provider learns nothing about its models: the
  answer it gets is the same whatever models the provider lists and whichever model was asked for.\<close>
theorem denied_namespace_learns_no_models:
  assumes "ProviderByName s providerName = Some provider"
    "\<not> namespaceGlobAllowed (cl_Namespace c) (mps_AllowedNamespaces (mp_Spec provider))"
    "s' = s\<lparr>ProviderByName := (ProviderByName s)(providerName \<mapsto> provider\<lparr>mp_Spec := (mp_Spec provider)\<lparr>mps_Models := models\<rparr>\<rparr>)\<rparr>"
  shows "authorizeRoute s' c providerName modelID' = authorizeRoute s c providerName modelID"
proof -
  have "workload_gate s' c providerName = workload_gate s c providerName"
    by (auto simp: assms(3) workload_gate_def workloadProviders_def split: option.splits)
  then show ?thesis using assms by (auto simp: authorizeRoute_def split: option.splits)
qed

definition sample_tool_provider :: ToolProvider where
  "sample_tool_provider = \<lparr>tp_Name = ''search'', tp_Endpoint = ''https://tools.example'', tp_AllowedNamespaces = [''team''],
     tp_Tools = [''lookup'', ''erase''], tp_RequestsPerMinute = 0\<rparr>"

definition sample_store :: Store where
  "sample_store = \<lparr>AgentByName = (\<lambda>ns n. if ns = ''team'' \<and> n = ''bot''
       then Some \<lparr>ag_Namespace = ns, ag_Name = n, ag_AgentClassRef = ''std'', ag_Providers = [''main''],
           ag_Tools = [\<lparr>tg_ProviderRef = ''search'', tg_Tools = [''lookup'']\<rparr>]\<rparr> else None),
     TaskByName = (\<lambda>ns n. None),
     ClassByName = (\<lambda>n. if n = ''std'' then Some \<lparr>ac_Name = n, ac_AllowedProviders = [''main''], ac_AllowedToolProviders = [''search'']\<rparr> else None),
     ProviderByName = (\<lambda>n. if n = ''main'' then Some sample_provider else None),
     Credential = (\<lambda>p. Inr ''secret''),
     ToolProviderByName = (\<lambda>n. if n = ''search'' then Some sample_tool_provider else None), ToolCredential = (\<lambda>p. Inr ''tool-secret'')\<rparr>"

definition foreign_caller :: caller where
  "foreign_caller = \<lparr>cl_Namespace = ''other'', cl_Workload = None\<rparr>"

theorem denied_namespace_learns_no_models_witness:
  "authorizeRoute (sample_store\<lparr>ProviderByName := (ProviderByName sample_store)(''main'' \<mapsto>
      sample_provider\<lparr>mp_Spec := (mp_Spec sample_provider)\<lparr>mps_Models := []\<rparr>\<rparr>)\<rparr>) foreign_caller ''main'' ''x'' =
   authorizeRoute sample_store foreign_caller ''main'' ''big''"
proof (rule denied_namespace_learns_no_models [OF _ _ refl])
  show "ProviderByName sample_store ''main'' = Some sample_provider" by (simp add: sample_store_def)
  have "\<not> Match ''team'' ''other''" by (simp add: Match_plain plain_char_def backslash_def)
  then show "\<not> namespaceGlobAllowed (cl_Namespace foreign_caller) (mps_AllowedNamespaces (mp_Spec sample_provider))"
    by (simp add: namespaceGlobAllowed_def foreign_caller_def sample_provider_def)
qed

text \<open>Qualified names split as they are joined: a provider name without a slash and a
  model name, both not empty, come back from their qualified name; the model may itself contain
  slashes. Whatever does split is such a pair.\<close>
theorem qualified_model_round_trip:
  "splitQualifiedModel q = Some (p, m) \<longleftrightarrow> q = p @ ''/'' @ m \<and> p \<noteq> [] \<and> m \<noteq> [] \<and> CHR ''/'' \<notin> set p"
proof
  assume "splitQualifiedModel q = Some (p, m)"
  then obtain i where i: "IndexByte (CHR ''/'') q = Some i" "i \<noteq> 0" "i \<noteq> length q - 1" "p = take i q" "m = drop (i + 1) q"
    by (auto simp: splitQualifiedModel_def split: option.splits if_splits)
  then have l: "i < length q" "q ! i = CHR ''/''" "CHR ''/'' \<notin> set (take i q)" by (auto simp: IndexByte_Some)
  then have "q = take i q @ q ! i # drop (Suc i) q" by (intro id_take_nth_drop)
  then show "q = p @ ''/'' @ m \<and> p \<noteq> [] \<and> m \<noteq> [] \<and> CHR ''/'' \<notin> set p" using i l by auto
next
  assume q: "q = p @ ''/'' @ m \<and> p \<noteq> [] \<and> m \<noteq> [] \<and> CHR ''/'' \<notin> set p"
  then have "IndexByte (CHR ''/'') q = Some (length p)" by (simp add: IndexByte_Some nth_append)
  then show "splitQualifiedModel q = Some (p, m)" using q by (auto simp: splitQualifiedModel_def)
qed

end
