(* ===== verification/Gateway_Server.thy ===== *)
theory Gateway_Server
  imports Budget_Cap Rate_Limiter Llm_Crossing Activity_Store Routing
begin

text \<open>
  What a handler of the gateway works on: the \<open>Server\<close> with its in-memory state, the log of what
  leaves the process (upstream calls, metric increments and Kubernetes events), and the \<open>world\<close>:
  upstream answers, clock readings, what other requests do to the shared budget ledger between two
  steps of this one, which writes the client still accepts, and the texts of library errors. The parts of \<^verbatim>\<open>proxy.go\<close> and \<^verbatim>\<open>budget.go\<close> that account for a call are here.
\<close>

subsection \<open>Requests to and answers from a provider\<close>

record upstreamRequest =
  ur_Method :: string
  ur_URL :: string
  ur_Header :: Header
  ur_Body :: string

text \<open>A response body is the bytes that arrive and, when the transfer breaks, the error after them.\<close>

record httpResponse =
  hr_Status :: int
  hr_Header :: Header
  hr_Data :: string
  hr_ReadErr :: "string option"

text \<open>A failed round trip: the error text, and whether it is \<^verbatim>\<open>os.ErrDeadlineExceeded\<close> or
  \<^verbatim>\<open>context.DeadlineExceeded\<close>.\<close>

record transportError =
  te_Text :: string
  te_Deadline :: bool
  te_Context :: bool

subsection \<open>The server\<close>

text \<open>Every upstream call is logged with the provider, the model, the request, and the boundary
  admissions this request held at that moment.\<close>

datatype effect =
    Forward ModelProvider string upstreamRequest "settleHandle list"
  | BudgetBoundary string string string
  | BudgetThreshold string string string
  | Fallback string string string
  | LLMRequest string string string string
  | Tokens string string string Usage
  | Spend string string rat
  | ServerToolUse string string string int
  | Duration string string
  | Event string string string
  | McpForward ToolProvider string string upstreamRequest
  | McpCall caller string string string int string string int
  | ToolCall string string string string
  | ToolCallDuration string string

text \<open>\<open>sv_Held\<close> lists the admissions of the request at hand whose settle callback has not run yet,
  the state of their \<^verbatim>\<open>sync.Once\<close>; \<open>sv_Step\<close> counts its accesses to the ledger.\<close>

record Server =
  sv_Store :: Store
  sv_MaxBodyBytes :: int
  sv_MaxFallbackDepth :: int
  sv_MCPMaxBodyBytes :: int
  sv_SessionKey :: string
  sv_Recorder :: bool
  sv_Budget :: admState
  sv_Held :: "settleHandle list"
  sv_Step :: nat
  sv_Spend :: "Usage gomap"
  sv_RateLimiter :: RateLimiter
  sv_Activity :: ActivityStore
  sv_Log :: "effect list"

record world =
  wd_Upstream :: "nat \<Rightarrow> upstreamRequest \<Rightarrow> transportError + httpResponse"
  wd_Clock :: "nat \<Rightarrow> instant"
  wd_Others :: "nat \<Rightarrow> (instant \<times> ledger_op) list"
  wd_RequestErr :: "string \<Rightarrow> string \<Rightarrow> string option"
  wd_Accepts :: "nat \<Rightarrow> bool"
  wd_DecodeErr :: "string \<Rightarrow> string"

definition emit :: "effect \<Rightarrow> Server \<Rightarrow> Server" where
  "emit e s = s\<lparr>sv_Log := sv_Log s @ [e]\<rparr>"

definition recordEvent :: "ModelProvider \<Rightarrow> string \<Rightarrow> string \<Rightarrow> Server \<Rightarrow> Server" where
  "recordEvent p reason message s = (if \<not> sv_Recorder s then s else emit (Event (mp_Name p) reason message) s)"

definition shared_ledger :: "world \<Rightarrow> Server \<Rightarrow> admState" where
  "shared_ledger w s = run_ops (wd_Others w (sv_Step s)) (sv_Budget s)"

definition budget_op :: "world \<Rightarrow> ledger_op \<Rightarrow> Server \<Rightarrow> Server" where
  "budget_op w op s =
     s\<lparr>sv_Budget := apply_op (wd_Clock w (sv_Step s)) op (shared_ledger w s), sv_Step := Suc (sv_Step s)\<rparr>"

definition admit ::
  "world \<Rightarrow> ModelProvider \<Rightarrow> string \<Rightarrow> string \<Rightarrow> Server \<Rightarrow> budgetDecision \<times> settleHandle option \<times> Server" where
  "admit w provider namespace workload s =
     (case Admit (as_ledger (shared_ledger w s)) (wd_Clock w (sv_Step s)) provider namespace workload of (d, h, _) \<Rightarrow>
        let s = budget_op w (OpAdmit provider namespace workload) s
        in (d, h, (case h of None \<Rightarrow> s | Some h \<Rightarrow> s\<lparr>sv_Held := h # sv_Held s\<rparr>)))"

definition settle_slot :: "world \<Rightarrow> settleHandle option \<Rightarrow> rat \<Rightarrow> Server \<Rightarrow> Server" where
  "settle_slot w slot cost s =
     (case slot of
        None \<Rightarrow> s
      | Some h \<Rightarrow>
          (if h \<in> set (sv_Held s)
           then (budget_op w (OpSettle h cost) s)\<lparr>sv_Held := remove1 h (sv_Held s)\<rparr>
           else s))"

subsection \<open>Accounting\<close>

fun cost_in :: "ModelProviderModel list \<Rightarrow> string \<Rightarrow> Usage \<Rightarrow> rat" where
  "cost_in [] modelID usage = 0"
| "cost_in (m # ms) modelID usage =
     (if mdl_ID m \<noteq> modelID then cost_in ms modelID usage
      else case (ParseFloat (mdl_CostPer1MInputTokens m), ParseFloat (mdl_CostPer1MOutputTokens m)) of
             (Some cin, Some cout) \<Rightarrow>
               of_int (InputTokens usage) * cin / 1000000 + of_int (OutputTokens usage) * cout / 1000000
           | _ \<Rightarrow> 0)"

definition costOf :: "ModelProvider \<Rightarrow> string \<Rightarrow> Usage \<Rightarrow> rat" where
  "costOf provider modelID usage = cost_in (mp_Models provider) modelID usage"

definition Record :: "string \<Rightarrow> string \<Rightarrow> string \<Rightarrow> Usage \<Rightarrow> Usage gomap \<Rightarrow> Usage gomap" where
  "Record namespace provider model usage totals =
     (let key = namespace @ ''/'' @ provider @ ''/'' @ model;
          t = mget no_usage totals key
      in mput key (t\<lparr>InputTokens := wrap64 (InputTokens t + InputTokens usage),
                     OutputTokens := wrap64 (OutputTokens t + OutputTokens usage)\<rparr>) totals)"

definition Total :: "string \<Rightarrow> string \<Rightarrow> string \<Rightarrow> Usage gomap \<Rightarrow> Usage" where
  "Total namespace provider model totals = mget no_usage totals (namespace @ ''/'' @ provider @ ''/'' @ model)"

definition metric_Spend :: "string \<Rightarrow> string \<Rightarrow> rat \<Rightarrow> Server \<Rightarrow> Server" where
  "metric_Spend provider namespace usd s = (if usd = 0 then s else emit (Spend provider namespace usd) s)"

definition metric_ServerToolUse :: "string \<Rightarrow> string \<Rightarrow> string \<times> int \<Rightarrow> Server \<Rightarrow> Server" where
  "metric_ServerToolUse provider namespace tc s =
     (case tc of (tool, uses) \<Rightarrow> if uses \<le> 0 then s else emit (ServerToolUse provider namespace tool uses) s)"

definition settleUsage ::
  "world \<Rightarrow> ModelProvider \<Rightarrow> string \<Rightarrow> string \<Rightarrow> string \<Rightarrow> Usage \<Rightarrow> settleHandle option \<Rightarrow> Server \<Rightarrow> Server" where
  "settleUsage w provider namespace workload modelID usage slot s =
     (let cost = costOf provider modelID usage;
          s = s\<lparr>sv_Spend := Record namespace (mp_Name provider) modelID usage (sv_Spend s)\<rparr>;
          s = (if slot \<noteq> None then settle_slot w slot cost s
               else budget_op w (OpAdd provider namespace workload cost) s);
          s = emit (Tokens (mp_Name provider) modelID namespace usage) s;
          s = metric_Spend (mp_Name provider) namespace cost s
      in fold (metric_ServerToolUse (mp_Name provider) namespace) (ServerTools usage) s)"

lemmas server_defs [kaalm_eval] = emit_def recordEvent_def shared_ledger_def budget_op_def admit_def settle_slot_def
  costOf_def Record_def Total_def metric_Spend_def metric_ServerToolUse_def settleUsage_def

subsection \<open>What the steps leave alone\<close>

text \<open>The part of the server no step of a request changes.\<close>

definition same_config :: "Server \<Rightarrow> Server \<Rightarrow> bool" where
  "same_config s s' \<longleftrightarrow> sv_Store s' = sv_Store s \<and> sv_MaxBodyBytes s' = sv_MaxBodyBytes s \<and>
     sv_MaxFallbackDepth s' = sv_MaxFallbackDepth s \<and> sv_MCPMaxBodyBytes s' = sv_MCPMaxBodyBytes s \<and>
     sv_SessionKey s' = sv_SessionKey s \<and> sv_Recorder s' = sv_Recorder s"

named_theorems server_frame

lemma same_config_refl [simp]: "same_config s s" by (simp add: same_config_def)

lemma same_config_trans: "same_config a b \<Longrightarrow> same_config b c \<Longrightarrow> same_config a c" by (simp add: same_config_def)

lemma emit_frame [server_frame]:
  "sv_Held (emit e s) = sv_Held s" "sv_Log (emit e s) = sv_Log s @ [e]" "sv_Step (emit e s) = sv_Step s"
  "sv_Budget (emit e s) = sv_Budget s" "sv_Spend (emit e s) = sv_Spend s" "sv_Store (emit e s) = sv_Store s"
  "sv_MaxBodyBytes (emit e s) = sv_MaxBodyBytes s" "sv_MaxFallbackDepth (emit e s) = sv_MaxFallbackDepth s"
  "sv_Recorder (emit e s) = sv_Recorder s" "sv_MCPMaxBodyBytes (emit e s) = sv_MCPMaxBodyBytes s" "sv_SessionKey (emit e s) = sv_SessionKey s" "sv_RateLimiter (emit e s) = sv_RateLimiter s" "sv_Activity (emit e s) = sv_Activity s"
  by (simp_all add: emit_def)

lemma budget_op_frame [server_frame]:
  "sv_Held (budget_op w op s) = sv_Held s" "sv_Log (budget_op w op s) = sv_Log s"
  "sv_Spend (budget_op w op s) = sv_Spend s" "sv_Store (budget_op w op s) = sv_Store s"
  "sv_MaxBodyBytes (budget_op w op s) = sv_MaxBodyBytes s" "sv_MaxFallbackDepth (budget_op w op s) = sv_MaxFallbackDepth s"
  "sv_Recorder (budget_op w op s) = sv_Recorder s" "sv_MCPMaxBodyBytes (budget_op w op s) = sv_MCPMaxBodyBytes s"
  "sv_SessionKey (budget_op w op s) = sv_SessionKey s" "sv_RateLimiter (budget_op w op s) = sv_RateLimiter s"
  "sv_Activity (budget_op w op s) = sv_Activity s"
  by (simp_all add: budget_op_def)

lemma recordEvent_frame [server_frame]:
  "sv_Held (recordEvent p r m s) = sv_Held s" "sv_Budget (recordEvent p r m s) = sv_Budget s"
  "sv_Store (recordEvent p r m s) = sv_Store s" "sv_MaxFallbackDepth (recordEvent p r m s) = sv_MaxFallbackDepth s"
  "same_config s (recordEvent p r m s)"
  by (simp_all add: recordEvent_def server_frame same_config_def)

lemma settle_slot_frame [server_frame]:
  "sv_Log (settle_slot w h c s) = sv_Log s" "sv_Store (settle_slot w h c s) = sv_Store s"
  "sv_Spend (settle_slot w h c s) = sv_Spend s" "same_config s (settle_slot w h c s)"
  by (simp_all add: settle_slot_def server_frame same_config_def split: option.split)

lemma settle_slot_held: "sv_Held (settle_slot w h c s) = (case h of None \<Rightarrow> sv_Held s | Some k \<Rightarrow> remove1 k (sv_Held s))"
  by (auto simp: settle_slot_def remove1_idem split: option.split)

lemma admit_frame:
  assumes "admit w p ns wl s = (d, h, s')"
  shows "sv_Log s' = sv_Log s" "sv_Store s' = sv_Store s" "same_config s s'" "sv_Held s' = (case h of None \<Rightarrow> [] | Some k \<Rightarrow> [k]) @ sv_Held s"
    "\<And>k. h = Some k \<Longrightarrow> sh_providerName k = mp_Name p"
proof -
  obtain d0 h0 b0 where a: "Admit (as_ledger (shared_ledger w s)) (wd_Clock w (sv_Step s)) p ns wl = (d0, h0, b0)" by (cases "Admit (as_ledger (shared_ledger w s)) (wd_Clock w (sv_Step s)) p ns wl")
  have e: "d = d0" "h = h0" "s' = (case h0 of None \<Rightarrow> budget_op w (OpAdmit p ns wl) s
             | Some k \<Rightarrow> (budget_op w (OpAdmit p ns wl) s)\<lparr>sv_Held := k # sv_Held s\<rparr>)"
    using assms by (auto simp: admit_def a Let_def server_frame split: option.splits)
  show "sv_Log s' = sv_Log s" "sv_Store s' = sv_Store s" "same_config s s'"
    "sv_Held s' = (case h of None \<Rightarrow> [] | Some k \<Rightarrow> [k]) @ sv_Held s"
    using e by (auto simp: server_frame same_config_def split: option.splits)
  fix k
  assume "h = Some k"
  then show "sh_providerName k = mp_Name p" using a e(2)
    by (auto simp: Admit_def Let_def grant_slots_def split: if_splits prod.splits)
qed

end
