(* ===== verification/Fallback_Walk.thy ===== *)
theory Fallback_Walk
  imports Gateway_Server
begin

text \<open>
  The fallback walk (\<^verbatim>\<open>internal/gateway/fallback.go\<close>): classification of upstream outcomes, static
  eligibility of a candidate, the depth-first traversal with its attempt budget, and the mapping of
  an exhausted walk to an error. The recursion is on fuel, which bounds the depth; the walk below
  starts it with one more than the attempts allowed, and is proved never to run out.
\<close>

subsection \<open>The code\<close>

definition ReasonFallbackIneligible :: string where "ReasonFallbackIneligible = ''FallbackIneligible''"
definition ReasonCredentialsInvalid :: string where "ReasonCredentialsInvalid = ''CredentialsInvalid''"

datatype failClass = classNone | classConnect | classTimeout | classUpstream | classBudget | classNonFallle
  | classBudgetUnavailable

fun failClassName :: "failClass \<Rightarrow> string" where
  "failClassName classConnect = ''connect_error''"
| "failClassName classTimeout = ''timeout''"
| "failClassName classBudget = ''budget_blocked''"
| "failClassName classBudgetUnavailable = ''budget_unavailable''"
| "failClassName classUpstream = ''upstream_error''"
| "failClassName _ = ''other''"

definition isFallbackable :: "int \<Rightarrow> bool \<times> failClass" where
  "isFallbackable status =
     (if 200 \<le> status \<and> status \<le> 299 then (False, classNone)
      else if status = 429 \<or> (500 \<le> status \<and> status \<le> 599) then (True, classUpstream)
      else if status = 401 \<or> status = 403 then (True, classUpstream)
      else if status = 400 \<or> status = 422 then (False, classNonFallle)
      else if 400 \<le> status \<and> status \<le> 499 then (False, classNonFallle)
      else (True, classUpstream))"

record forwardResult =
  fr_resp :: "httpResponse option"
  fr_body :: string
  fr_fallilable :: bool
  fr_class :: failClass
  fr_err :: "string option"
  fr_provider :: string
  fr_chosen :: "ModelProvider option"
  fr_model :: string
  fr_format :: string
  fr_settle :: "settleHandle option"

definition no_result :: forwardResult where
  "no_result = \<lparr>fr_resp = None, fr_body = [], fr_fallilable = False, fr_class = classNone, fr_err = None, fr_provider = [],
     fr_chosen = None, fr_model = [], fr_format = [], fr_settle = None\<rparr>"

record walkState =
  ws_primary :: ModelProvider
  ws_namespace :: string
  ws_workload :: string
  ws_modelID :: string
  ws_attemptCount :: int
  ws_maxDepth :: int
  ws_visited :: "string list"
  ws_observed :: "failClass list"
  ws_maxRetryAfter :: int
  ws_primarySettle :: "settleHandle option"
  ws_parsed :: "json gomap"
  ws_inboundFormat :: string
  ws_modelFor :: "string gomap"
  ws_translated :: "json gomap gomap"

definition candidateModel :: "walkState \<Rightarrow> ModelProvider \<Rightarrow> string" where
  "candidateModel st provider =
     (case mlookup (ws_modelFor st) (mp_Name provider) of
        Some m \<Rightarrow> (if m \<noteq> [] then m else ws_modelID st)
      | None \<Rightarrow> ws_modelID st)"

definition formatForType :: "string \<Rightarrow> string" where
  "formatForType providerType =
     (if ProviderFormat providerType = ProviderTypeAnthropic then FormatAnthropic
      else if ProviderFormat providerType = ProviderTypeOpenAI then FormatOpenAI
      else [])"

definition crosses :: "walkState \<Rightarrow> ModelProvider \<Rightarrow> bool" where
  "crosses st provider =
     (let target = formatForType (mps_Type (mp_Spec provider))
      in ws_inboundFormat st \<noteq> [] \<and> target \<noteq> [] \<and> target \<noteq> ws_inboundFormat st)"

definition canonicalPath :: "string \<Rightarrow> string" where
  "canonicalPath format = (if format = FormatAnthropic then ''/v1/messages'' else ''/v1/chat/completions'')"

fun max_output_in :: "ModelProviderModel list \<Rightarrow> string \<Rightarrow> int" where
  "max_output_in [] model = 0"
| "max_output_in (m # ms) model =
     (if mdl_ID m = model then (case mdl_MaxOutputTokens m of Some n \<Rightarrow> n | None \<Rightarrow> max_output_in ms model)
      else max_output_in ms model)"

definition maxOutputTokensOf :: "ModelProvider \<Rightarrow> string \<Rightarrow> int" where
  "maxOutputTokensOf provider model = max_output_in (mp_Models provider) model"

definition offers :: "ModelProvider \<Rightarrow> string \<Rightarrow> bool" where
  "offers provider model = list_ex (\<lambda>m. mdl_ID m = model) (mp_Models provider)"

definition translate_for :: "ModelProvider \<Rightarrow> string \<Rightarrow> walkState \<Rightarrow> string \<times> walkState" where
  "translate_for provider model st =
     (if \<not> crosses st provider then ([], st)
      else if mhas (ws_translated st) (mp_Name provider) then ([], st)
      else case Request (ws_inboundFormat st) (formatForType (mps_Type (mp_Spec provider))) (ws_parsed st) model
                  (maxOutputTokensOf provider model) of
             Inl err \<Rightarrow> (err, st)
           | Inr body \<Rightarrow> ([], st\<lparr>ws_translated := mput (mp_Name provider) body (ws_translated st)\<rparr>))"

definition staticallyIneligible :: "ModelProvider \<Rightarrow> walkState \<Rightarrow> string \<times> walkState" where
  "staticallyIneligible provider st =
     (let typ = mps_Type (mp_Spec provider); primaryType = mps_Type (mp_Spec (ws_primary st))
      in if mp_Name provider \<noteq> mp_Name (ws_primary st) \<and> \<not> FallbackFormatCompatible primaryType typ
         then (''type '' @ show_quoted typ @ '' cannot follow primary type '' @ show_quoted primaryType @ '' (rule 12)'', st)
         else if mp_Name provider \<noteq> mp_Name (ws_primary st) \<and> FallbackCrossesFormat primaryType typ \<and> ws_inboundFormat st = []
         then (''the request's format cannot cross into type '' @ show_quoted typ, st)
         else if \<not> namespaceGlobAllowed (ws_namespace st) (mps_AllowedNamespaces (mp_Spec provider))
         then (''namespace '' @ show_quoted (ws_namespace st) @ '' not in allowedNamespaces'', st)
         else (let model = candidateModel st provider
               in if \<not> offers provider model then (''model '' @ show_quoted model @ '' not offered'', st)
                  else translate_for provider model st))"

definition skip_event :: "walkState \<Rightarrow> string \<Rightarrow> string \<Rightarrow> Server \<Rightarrow> Server" where
  "skip_event st name reason s =
     recordEvent (ws_primary st) ReasonFallbackIneligible (''fallback '' @ show_quoted name @ '' skipped: '' @ reason) s"

definition observe :: "failClass \<Rightarrow> walkState \<Rightarrow> walkState" where
  "observe c st = st\<lparr>ws_observed := List.insert c (ws_observed st)\<rparr>"

datatype admission = Refused failClass | Granted "settleHandle option"

text \<open>Budget admission of a candidate: the primary was admitted before the walk.\<close>

definition admit_candidate :: "world \<Rightarrow> ModelProvider \<Rightarrow> walkState \<Rightarrow> Server \<Rightarrow> admission \<times> walkState \<times> Server" where
  "admit_candidate w provider st s =
     (if mp_Name provider = mp_Name (ws_primary st) then (Granted (ws_primarySettle st), st, s)
      else
        (case admit w provider (ws_namespace st) (ws_workload st) s of (d, sfn, s) \<Rightarrow>
           let boundary = (\<lambda>event. emit (BudgetBoundary (mp_Name provider) (ws_namespace st) event));
               s = (if bd_MarginRaisedNow d then boundary ''margin_raised'' s else s)
           in if bd_Unavailable d
              then (Refused classBudgetUnavailable, observe classBudgetUnavailable st, boundary ''fail_closed'' s)
              else if bd_Throttled d
              then (Refused classBudget,
                    observe classBudget (if ws_maxRetryAfter st < 1 then st\<lparr>ws_maxRetryAfter := 1\<rparr> else st),
                    boundary ''throttled'' s)
              else if bd_Action d = BudgetActionBlock
              then (Refused classBudget,
                    observe classBudget (if bd_RetryAfter d > ws_maxRetryAfter st
                                         then st\<lparr>ws_maxRetryAfter := bd_RetryAfter d\<rparr> else st),
                    s)
              else (Granted sfn, st, if sfn \<noteq> None then boundary ''engaged'' s else s)))"

type_synonym attempt_fun = "ModelProvider \<Rightarrow> walkState \<Rightarrow> Server \<Rightarrow> forwardResult \<times> walkState \<times> Server"
type_synonym walk_result = "((forwardResult \<times> bool) \<times> walkState \<times> Server) option"

definition or_else :: "forwardResult \<Rightarrow> walk_result \<Rightarrow> walk_result" where
  "or_else res r =
     (case r of
        None \<Rightarrow> None
      | Some ((child, ok), st, s) \<Rightarrow> (if ok then Some ((child, True), st, s) else Some ((res, False), st, s)))"

definition success :: "forwardResult \<Rightarrow> bool" where
  "success res =
     (fr_class res = classNone \<and> fr_err res = None \<and>
      (case fr_resp res of None \<Rightarrow> False | Some resp \<Rightarrow> 200 \<le> hr_Status resp \<and> hr_Status resp \<le> 299))"

definition credential_event :: "ModelProvider \<Rightarrow> forwardResult \<Rightarrow> Server \<Rightarrow> Server" where
  "credential_event provider res s =
     (case fr_resp res of
        Some resp \<Rightarrow>
          (if fr_class res = classUpstream \<and> (hr_Status resp = 401 \<or> hr_Status resp = 403)
           then recordEvent provider ReasonCredentialsInvalid
                  (''upstream returned '' @ show_int (hr_Status resp) @ ''; credential rotation may be needed'') s
           else s)
      | None \<Rightarrow> s)"

definition edge_model :: "FallbackReference \<Rightarrow> string \<Rightarrow> string" where
  "edge_model ref parentModel =
     (case mlookup (fb_ModelMap ref) parentModel of
        Some mapped \<Rightarrow> (if mapped \<noteq> [] then mapped else parentModel)
      | None \<Rightarrow> parentModel)"

fun try_fuel :: "world \<Rightarrow> attempt_fun \<Rightarrow> nat \<Rightarrow> ModelProvider \<Rightarrow> walkState \<Rightarrow> Server \<Rightarrow> walk_result"
and children_fuel ::
  "world \<Rightarrow> attempt_fun \<Rightarrow> nat \<Rightarrow> string \<Rightarrow> FallbackReference list \<Rightarrow> walkState \<Rightarrow> Server \<Rightarrow> walk_result" where
  "try_fuel w attempt 0 provider st s = None"
| "try_fuel w attempt (Suc n) provider st s =
     (if mp_Name provider \<in> set (ws_visited st) then Some ((no_result, False), st, s)
      else
        (case staticallyIneligible provider (st\<lparr>ws_visited := mp_Name provider # ws_visited st\<rparr>) of (reason, st) \<Rightarrow>
           if reason \<noteq> [] then Some ((no_result, False), st, skip_event st (mp_Name provider) reason s)
           else if ws_attemptCount st \<ge> ws_maxDepth st then Some ((no_result, False), st, s)
           else
             (case admit_candidate w provider (st\<lparr>ws_attemptCount := ws_attemptCount st + 1\<rparr>) s of
                (Refused cls, st, s) \<Rightarrow>
                  or_else (no_result\<lparr>fr_class := cls\<rparr>)
                    (children_fuel w attempt n (candidateModel st provider) (mps_Fallback (mp_Spec provider)) st s)
              | (Granted slot, st, s) \<Rightarrow>
                  (case attempt provider st s of (res, st, s) \<Rightarrow>
                     let res = res\<lparr>fr_settle := slot\<rparr>
                     in if success res then Some ((res, True), st, s)
                        else if \<not> fr_fallilable res then Some ((res, True), st, s)
                        else or_else (res\<lparr>fr_settle := None\<rparr>)
                               (children_fuel w attempt n (candidateModel st provider) (mps_Fallback (mp_Spec provider)) st
                                  (credential_event provider res (settle_slot w slot 0 s)))))))"
| "children_fuel w attempt n parentModel [] st s = Some ((no_result, False), st, s)"
| "children_fuel w attempt n parentModel (ref # refs) st s =
     (case ProviderByName (sv_Store s) (fb_Name ref) of
        None \<Rightarrow>
          children_fuel w attempt n parentModel refs st (skip_event st (fb_Name ref) ''provider does not exist'' s)
      | Some nextp \<Rightarrow>
          (case try_fuel w attempt n nextp
                  (st\<lparr>ws_modelFor := mput (mp_Name nextp) (edge_model ref parentModel) (ws_modelFor st)\<rparr>) s of
             None \<Rightarrow> None
           | Some ((res, ok), st, s) \<Rightarrow>
               (if ok then Some ((res, True), st, s) else children_fuel w attempt n parentModel refs st s)))"

definition walk_fuel :: "walkState \<Rightarrow> nat" where
  "walk_fuel st = Suc (nat (ws_maxDepth st - ws_attemptCount st))"

definition walkChildren :: "world \<Rightarrow> attempt_fun \<Rightarrow> ModelProvider \<Rightarrow> walkState \<Rightarrow> Server \<Rightarrow> walk_result" where
  "walkChildren w attempt provider st s =
     children_fuel w attempt (walk_fuel st) (candidateModel st provider) (mps_Fallback (mp_Spec provider)) st s"

definition tryWithFallbacks :: "world \<Rightarrow> attempt_fun \<Rightarrow> ModelProvider \<Rightarrow> walkState \<Rightarrow> Server \<Rightarrow> walk_result" where
  "tryWithFallbacks w attempt provider st s = try_fuel w attempt (walk_fuel st) provider st s"

definition exhaustionError :: "failClass list \<Rightarrow> int \<Rightarrow> string \<Rightarrow> int \<times> errorBody \<times> int" where
  "exhaustionError observed maxRetryAfter providerName =
     (let budgetOnly = (length observed > 0 \<and> list_all (\<lambda>c. c = classBudget \<or> c = classBudgetUnavailable) observed)
      in if budgetOnly \<and> classBudgetUnavailable \<in> set observed
         then (503, \<lparr>eb_Type = errBudgetUnavailable,
                     eb_Message = ''budget state could not be verified for the provider and all fallbacks; failing closed'',
                     eb_Provider = providerName, eb_Retryable = True\<rparr>, 1)
         else if budgetOnly
         then (429, \<lparr>eb_Type = errBudgetExhausted, eb_Message = ''the provider and all fallbacks are budget-blocked'',
                     eb_Provider = providerName, eb_Retryable = True\<rparr>, maxRetryAfter)
         else if length observed = 1 \<and> classConnect \<in> set observed
         then (503, \<lparr>eb_Type = errProviderUnavailable, eb_Message = ''all providers were unreachable'',
                     eb_Provider = providerName, eb_Retryable = False\<rparr>, 0)
         else if length observed = 1 \<and> classTimeout \<in> set observed
         then (504, \<lparr>eb_Type = errProviderTimeout, eb_Message = ''all provider attempts timed out'',
                     eb_Provider = providerName, eb_Retryable = False\<rparr>, 0)
         else (502, \<lparr>eb_Type = errProviderError, eb_Message = ''the provider and all fallbacks failed'',
                     eb_Provider = providerName, eb_Retryable = False\<rparr>, 0))"

lemmas walk_defs [kaalm_eval] = ReasonFallbackIneligible_def ReasonCredentialsInvalid_def isFallbackable_def no_result_def
  candidateModel_def formatForType_def crosses_def canonicalPath_def maxOutputTokensOf_def offers_def translate_for_def
  staticallyIneligible_def skip_event_def observe_def admit_candidate_def or_else_def success_def credential_event_def
  edge_model_def walk_fuel_def walkChildren_def tryWithFallbacks_def exhaustionError_def

subsection \<open>The walk as a relation\<close>

definition visit :: "ModelProvider \<Rightarrow> walkState \<Rightarrow> walkState" where
  "visit p st = st\<lparr>ws_visited := mp_Name p # ws_visited st\<rparr>"

definition count_attempt :: "walkState \<Rightarrow> walkState" where
  "count_attempt st = st\<lparr>ws_attemptCount := ws_attemptCount st + 1\<rparr>"

definition follow :: "ModelProvider \<Rightarrow> FallbackReference \<Rightarrow> string \<Rightarrow> walkState \<Rightarrow> walkState" where
  "follow p ref parentModel st = st\<lparr>ws_modelFor := mput (mp_Name p) (edge_model ref parentModel) (ws_modelFor st)\<rparr>"

text \<open>What one visit of a candidate and one pass over its children can do, a rule per branch of the
  code.\<close>

inductive tries :: "world \<Rightarrow> attempt_fun \<Rightarrow> ModelProvider \<Rightarrow> walkState \<Rightarrow> Server \<Rightarrow> forwardResult \<Rightarrow> bool \<Rightarrow> walkState \<Rightarrow> Server \<Rightarrow> bool"
and descends :: "world \<Rightarrow> attempt_fun \<Rightarrow> string \<Rightarrow> FallbackReference list \<Rightarrow> walkState \<Rightarrow> Server \<Rightarrow> forwardResult \<Rightarrow> bool \<Rightarrow>
                 walkState \<Rightarrow> Server \<Rightarrow> bool"
for w attempt where
  visited: "mp_Name p \<in> set (ws_visited st) \<Longrightarrow> tries w attempt p st s no_result False st s"
| ineligible: "mp_Name p \<notin> set (ws_visited st) \<Longrightarrow> staticallyIneligible p (visit p st) = (reason, st1) \<Longrightarrow> reason \<noteq> [] \<Longrightarrow>
    tries w attempt p st s no_result False st1 (skip_event st1 (mp_Name p) reason s)"
| spent: "mp_Name p \<notin> set (ws_visited st) \<Longrightarrow> staticallyIneligible p (visit p st) = ([], st1) \<Longrightarrow>
    ws_attemptCount st1 \<ge> ws_maxDepth st1 \<Longrightarrow> tries w attempt p st s no_result False st1 s"
| refused: "mp_Name p \<notin> set (ws_visited st) \<Longrightarrow> staticallyIneligible p (visit p st) = ([], st1) \<Longrightarrow>
    ws_attemptCount st1 < ws_maxDepth st1 \<Longrightarrow> admit_candidate w p (count_attempt st1) s = (Refused cls, st2, s2) \<Longrightarrow>
    descends w attempt (candidateModel st2 p) (mps_Fallback (mp_Spec p)) st2 s2 r ok st' s' \<Longrightarrow>
    tries w attempt p st s (if ok then r else no_result\<lparr>fr_class := cls\<rparr>) ok st' s'"
| answered: "mp_Name p \<notin> set (ws_visited st) \<Longrightarrow> staticallyIneligible p (visit p st) = ([], st1) \<Longrightarrow>
    ws_attemptCount st1 < ws_maxDepth st1 \<Longrightarrow> admit_candidate w p (count_attempt st1) s = (Granted slot, st2, s2) \<Longrightarrow>
    attempt p st2 s2 = (res, st', s') \<Longrightarrow> success res \<or> \<not> fr_fallilable res \<Longrightarrow>
    tries w attempt p st s (res\<lparr>fr_settle := slot\<rparr>) True st' s'"
| failed: "mp_Name p \<notin> set (ws_visited st) \<Longrightarrow> staticallyIneligible p (visit p st) = ([], st1) \<Longrightarrow>
    ws_attemptCount st1 < ws_maxDepth st1 \<Longrightarrow> admit_candidate w p (count_attempt st1) s = (Granted slot, st2, s2) \<Longrightarrow>
    attempt p st2 s2 = (res, st3, s3) \<Longrightarrow> \<not> success res \<Longrightarrow> fr_fallilable res \<Longrightarrow>
    descends w attempt (candidateModel st3 p) (mps_Fallback (mp_Spec p)) st3 (credential_event p res (settle_slot w slot 0 s3)) r ok st' s' \<Longrightarrow>
    tries w attempt p st s (if ok then r else res\<lparr>fr_settle := None\<rparr>) ok st' s'"
| no_child: "descends w attempt m [] st s no_result False st s"
| missing_child: "ProviderByName (sv_Store s) (fb_Name ref) = None \<Longrightarrow>
    descends w attempt m refs st (skip_event st (fb_Name ref) ''provider does not exist'' s) r ok st' s' \<Longrightarrow>
    descends w attempt m (ref # refs) st s r ok st' s'"
| child_won: "ProviderByName (sv_Store s) (fb_Name ref) = Some p \<Longrightarrow> tries w attempt p (follow p ref m st) s r True st' s' \<Longrightarrow>
    descends w attempt m (ref # refs) st s r True st' s'"
| next_child: "ProviderByName (sv_Store s) (fb_Name ref) = Some p \<Longrightarrow> tries w attempt p (follow p ref m st) s r1 False st1 s1 \<Longrightarrow>
    descends w attempt m refs st1 s1 r ok st' s' \<Longrightarrow> descends w attempt m (ref # refs) st s r ok st' s'"

lemma success_settle [simp]: "success (res\<lparr>fr_settle := x\<rparr>) = success res"
  by (simp add: success_def)

lemma credential_event_settle [simp]: "credential_event p (res\<lparr>fr_settle := x\<rparr>) s = credential_event p res s"
  by (cases "fr_resp res") (simp_all add: credential_event_def)

lemma or_else_Some: "or_else res r = Some ((x, ok), st, s) \<longleftrightarrow> (\<exists>c. r = Some ((c, ok), st, s) \<and> x = (if ok then c else res))"
  by (auto simp: or_else_def split: option.splits)

lemma or_else_None [simp]: "or_else res r = None \<longleftrightarrow> r = None"
  by (auto simp: or_else_def split: option.splits)

lemma children_walk:
  assumes "\<And>p st s r ok st' s'. try_fuel w attempt n p st s = Some ((r, ok), st', s') \<Longrightarrow> tries w attempt p st s r ok st' s'"
  shows "children_fuel w attempt n m refs st s = Some ((r, ok), st', s') \<Longrightarrow> descends w attempt m refs st s r ok st' s'"
proof (induction refs arbitrary: st s)
  case (Cons ref refs)
  show ?case
  proof (cases "ProviderByName (sv_Store s) (fb_Name ref)")
    case None
    then show ?thesis using Cons by (auto intro: tries_descends.missing_child)
  next
    case (Some q)
    then obtain r1 ok1 st1 s1 where t: "try_fuel w attempt n q (follow q ref m st) s = Some ((r1, ok1), st1, s1)"
      "if ok1 then ((r, ok), st', s') = ((r1, True), st1, s1)
       else children_fuel w attempt n m refs st1 s1 = Some ((r, ok), st', s')"
      using Cons.prems by (auto simp: follow_def split: option.splits if_splits)
    then show ?thesis using Some assms [OF t(1)] Cons.IH [of st1 s1]
      by (cases ok1) (auto intro: tries_descends.child_won tries_descends.next_child)
  qed
qed (auto intro: tries_descends.no_child)

lemma try_fuel_Suc:
  "try_fuel w attempt (Suc n) p st s =
     (if mp_Name p \<in> set (ws_visited st) then Some ((no_result, False), st, s)
      else case staticallyIneligible p (visit p st) of (reason, st1) \<Rightarrow>
        if reason \<noteq> [] then Some ((no_result, False), st1, skip_event st1 (mp_Name p) reason s)
        else if ws_attemptCount st1 \<ge> ws_maxDepth st1 then Some ((no_result, False), st1, s)
        else case admit_candidate w p (count_attempt st1) s of (v, st2, s2) \<Rightarrow>
          (case v of
             Refused cls \<Rightarrow> or_else (no_result\<lparr>fr_class := cls\<rparr>)
               (children_fuel w attempt n (candidateModel st2 p) (mps_Fallback (mp_Spec p)) st2 s2)
           | Granted slot \<Rightarrow> (case attempt p st2 s2 of (res, st3, s3) \<Rightarrow>
               if success res \<or> \<not> fr_fallilable res then Some ((res\<lparr>fr_settle := slot\<rparr>, True), st3, s3)
               else or_else (res\<lparr>fr_settle := None\<rparr>)
                 (children_fuel w attempt n (candidateModel st3 p) (mps_Fallback (mp_Spec p)) st3
                    (credential_event p res (settle_slot w slot 0 s3))))))"
  by (auto simp: visit_def count_attempt_def Let_def split: prod.split admission.split)

lemma try_walk: "try_fuel w attempt n p st s = Some ((r, ok), st', s') \<Longrightarrow> tries w attempt p st s r ok st' s'"
proof (induction n arbitrary: p st s r ok st' s')
  case (Suc n)
  have IH: "descends w attempt m refs st s r ok st' s'" if "children_fuel w attempt n m refs st s = Some ((r, ok), st', s')"
    for m refs st s r ok st' s' by (rule children_walk [OF _ that]) (rule Suc.IH)
  show ?case
  proof (cases "mp_Name p \<in> set (ws_visited st)")
    case True
    then show ?thesis using Suc.prems by (auto intro: tries_descends.visited)
  next
    case new: False
    obtain reason st1 where st1: "staticallyIneligible p (visit p st) = (reason, st1)" by (cases "staticallyIneligible p (visit p st)")
    obtain v st2 s2 where a: "admit_candidate w p (count_attempt st1) s = (v, st2, s2)" by (cases "admit_candidate w p (count_attempt st1) s")
    obtain res st3 s3 where t: "attempt p st2 s2 = (res, st3, s3)" by (cases "attempt p st2 s2")
    consider "reason \<noteq> []" | "reason = []" "ws_attemptCount st1 \<ge> ws_maxDepth st1"
      | "reason = []" "ws_attemptCount st1 < ws_maxDepth st1" by fastforce
    then show ?thesis
    proof cases
      case 3
      show ?thesis
      proof (cases v)
        case (Refused cls)
        then show ?thesis using Suc.prems 3 new st1 a unfolding try_fuel_Suc
          by (auto simp: or_else_Some intro!: tries_descends.refused dest!: IH)
      next
        case (Granted slot)
        show ?thesis
        proof (cases "success res \<or> \<not> fr_fallilable res")
          case True
          then show ?thesis using Suc.prems 3 new st1 a t Granted unfolding try_fuel_Suc
            by (auto intro: tries_descends.answered)
        next
          case False
          then show ?thesis using Suc.prems 3 new st1 a t Granted unfolding try_fuel_Suc
            by (auto simp: or_else_Some intro!: tries_descends.failed dest!: IH)
        qed
      qed
    qed (use Suc.prems new st1 in \<open>auto simp: try_fuel_Suc simp del: try_fuel.simps intro: tries_descends.ineligible tries_descends.spent\<close>)
  qed
qed simp

subsection \<open>What a walk keeps\<close>

fun forwards :: "effect list \<Rightarrow> (ModelProvider \<times> string \<times> settleHandle list) list" where
  "forwards [] = []"
| "forwards (Forward p m rq held # es) = (p, m, held) # forwards es"
| "forwards (_ # es) = forwards es"

lemma forwards_append [simp]: "forwards (a @ b) = forwards a @ forwards b"
  by (induction a rule: forwards.induct) auto

definition same_walk :: "walkState \<Rightarrow> walkState \<Rightarrow> bool" where
  "same_walk st st' \<longleftrightarrow> ws_primary st' = ws_primary st \<and> ws_namespace st' = ws_namespace st \<and> ws_workload st' = ws_workload st \<and>
     ws_modelID st' = ws_modelID st \<and> ws_maxDepth st' = ws_maxDepth st \<and> ws_primarySettle st' = ws_primarySettle st \<and>
     ws_inboundFormat st' = ws_inboundFormat st \<and> ws_parsed st' = ws_parsed st"

definition eligible :: "walkState \<Rightarrow> ModelProvider \<Rightarrow> string \<Rightarrow> bool" where
  "eligible st p model \<longleftrightarrow>
     namespaceGlobAllowed (ws_namespace st) (mps_AllowedNamespaces (mp_Spec p)) \<and> offers p model \<and>
     (mp_Name p = mp_Name (ws_primary st) \<or>
      FallbackFormatCompatible (mps_Type (mp_Spec (ws_primary st))) (mps_Type (mp_Spec p)))"

text \<open>The progress of a walk between two of its points: the request stays the same, the attempt
  budget is respected, and what was forwarded in between went to eligible candidates, each new to the
  walk and visited once.\<close>

definition progress :: "walkState \<Rightarrow> Server \<Rightarrow> walkState \<Rightarrow> Server \<Rightarrow> bool" where
  "progress st s st' s' \<longleftrightarrow>
     same_walk st st' \<and> same_config s s' \<and> set (ws_visited st) \<subseteq> set (ws_visited st') \<and>
     set (ws_observed st) \<subseteq> set (ws_observed st') \<and>
     ws_attemptCount st \<le> ws_attemptCount st' \<and> ws_attemptCount st' \<le> max (ws_attemptCount st) (ws_maxDepth st) \<and>
     (\<exists>l. sv_Log s' = sv_Log s @ l \<and> distinct (map (mp_Name \<circ> fst) (forwards l)) \<and>
          mp_Name ` fst ` set (forwards l) \<subseteq> set (ws_visited st') - set (ws_visited st) \<and>
          int (length (forwards l)) \<le> ws_attemptCount st' - ws_attemptCount st \<and>
          (\<forall>(p, m, held)\<in>set (forwards l). eligible st p m))"

lemma same_walk_refl [simp]: "same_walk st st" by (simp add: same_walk_def)

lemma same_walk_trans: "same_walk a b \<Longrightarrow> same_walk b c \<Longrightarrow> same_walk a c" by (simp add: same_walk_def)

lemma eligible_same: "same_walk st st' \<Longrightarrow> eligible st' p m = eligible st p m" by (simp add: same_walk_def eligible_def)

text \<open>A step that forwards nothing.\<close>

lemma progress_silent:
  assumes "same_walk st st'" "same_config s s'" "set (ws_visited st) \<subseteq> set (ws_visited st')"
    "set (ws_observed st) \<subseteq> set (ws_observed st')" "ws_attemptCount st \<le> ws_attemptCount st'"
    "ws_attemptCount st' \<le> max (ws_attemptCount st) (ws_maxDepth st)" "sv_Log s' = sv_Log s @ l" "forwards l = []"
  shows "progress st s st' s'"
  unfolding progress_def using assms by (auto intro!: exI [of _ l])

lemma progress_refl [simp]: "progress st s st s"
  by (rule progress_silent [where l = "[]"]) auto

lemma progress_trans:
  assumes "progress a s b t" "progress b t c u"
  shows "progress a s c u"
proof -
  obtain l where l: "sv_Log t = sv_Log s @ l" "distinct (map (mp_Name \<circ> fst) (forwards l))"
    "mp_Name ` fst ` set (forwards l) \<subseteq> set (ws_visited b) - set (ws_visited a)"
    "int (length (forwards l)) \<le> ws_attemptCount b - ws_attemptCount a"
    "\<forall>(p, m, held)\<in>set (forwards l). eligible a p m"
    using assms(1) unfolding progress_def by blast
  obtain k where k: "sv_Log u = sv_Log t @ k" "distinct (map (mp_Name \<circ> fst) (forwards k))"
    "mp_Name ` fst ` set (forwards k) \<subseteq> set (ws_visited c) - set (ws_visited b)"
    "int (length (forwards k)) \<le> ws_attemptCount c - ws_attemptCount b"
    "\<forall>(p, m, held)\<in>set (forwards k). eligible b p m"
    using assms(2) unfolding progress_def by blast
  have w: "same_walk a b" "same_walk b c" "same_config s t" "same_config t u"
    "set (ws_visited a) \<subseteq> set (ws_visited b)" "set (ws_visited b) \<subseteq> set (ws_visited c)"
    "set (ws_observed a) \<subseteq> set (ws_observed b)" "set (ws_observed b) \<subseteq> set (ws_observed c)"
    "ws_attemptCount a \<le> ws_attemptCount b" "ws_attemptCount b \<le> max (ws_attemptCount a) (ws_maxDepth a)"
    "ws_attemptCount b \<le> ws_attemptCount c" "ws_attemptCount c \<le> max (ws_attemptCount b) (ws_maxDepth b)"
    using assms unfolding progress_def by simp_all
  have "sv_Log u = sv_Log s @ (l @ k)" using l(1) k(1) by simp
  moreover have "distinct (map (mp_Name \<circ> fst) (forwards (l @ k)))"
    using l(2,3) k(2,3) by (auto simp: image_comp)
  moreover have "mp_Name ` fst ` set (forwards (l @ k)) \<subseteq> set (ws_visited c) - set (ws_visited a)"
    unfolding forwards_append set_append image_Un using l(3) k(3) w(5,6) by blast
  moreover have "int (length (forwards (l @ k))) \<le> ws_attemptCount c - ws_attemptCount a" using l(4) k(4) by simp
  moreover have "\<forall>(p, m, held)\<in>set (forwards (l @ k)). eligible a p m"
    using l(5) k(5) eligible_same [OF w(1)] by auto
  moreover have "ws_maxDepth b = ws_maxDepth a" using w(1) by (simp add: same_walk_def)
  ultimately show ?thesis using w unfolding progress_def
    by (intro conjI exI [of _ "l @ k"]) (auto intro: same_walk_trans same_config_trans)
qed

lemma static_frame:
  assumes "staticallyIneligible p st = (reason, st')"
  shows "same_walk st st'" "ws_visited st' = ws_visited st" "ws_observed st' = ws_observed st"
    "ws_attemptCount st' = ws_attemptCount st" "ws_modelFor st' = ws_modelFor st" "reason = [] \<Longrightarrow> eligible st p (candidateModel st p)"
  using assms
  by (auto simp: staticallyIneligible_def translate_for_def Let_def same_walk_def eligible_def split: if_splits sum.splits)

lemma candidateModel_cong:
  "ws_modelFor st' = ws_modelFor st \<Longrightarrow> ws_modelID st' = ws_modelID st \<Longrightarrow> candidateModel st' p = candidateModel st p"
  by (auto simp: candidateModel_def split: option.split)

lemma skip_event_frame [server_frame]:
  "same_config s (skip_event st n r s)" "sv_Held (skip_event st n r s) = sv_Held s"
  by (simp_all add: skip_event_def server_frame)

lemma recordEvent_log: "\<exists>l. sv_Log (recordEvent p r m s) = sv_Log s @ l \<and> forwards l = []"
  by (auto simp: recordEvent_def server_frame)

lemma progress_skip: "progress st s st (skip_event st n r s)"
proof -
  obtain l where "sv_Log (skip_event st n r s) = sv_Log s @ l" "forwards l = []"
    using recordEvent_log unfolding skip_event_def by blast
  then show ?thesis by (intro progress_silent [where l = l]) (simp_all add: server_frame)
qed

lemma credential_event_frame:
  "same_config s (credential_event p r s)" "sv_Held (credential_event p r s) = sv_Held s"
  "\<exists>l. sv_Log (credential_event p r s) = sv_Log s @ l \<and> forwards l = []"
  using recordEvent_log [of p] by (auto simp: credential_event_def server_frame split: option.split)

definition slot_list :: "settleHandle option \<Rightarrow> settleHandle list" where
  "slot_list slot = (case slot of None \<Rightarrow> [] | Some h \<Rightarrow> [h])"

lemma slot_list_simps [simp]: "slot_list None = []" "slot_list (Some h) = [h]" by (simp_all add: slot_list_def)

definition settle_named :: "walkState \<Rightarrow> bool" where
  "settle_named st \<longleftrightarrow> (\<forall>h. ws_primarySettle st = Some h \<longrightarrow> sh_providerName h = mp_Name (ws_primary st))"

text \<open>Before a candidate is visited the request holds no slot, except that of the primary before its
  own visit.\<close>

definition slots_before :: "ModelProvider \<Rightarrow> walkState \<Rightarrow> Server \<Rightarrow> bool" where
  "slots_before p st s \<longleftrightarrow>
     (if mp_Name p = mp_Name (ws_primary st) \<and> mp_Name p \<notin> set (ws_visited st) then sv_Held s = slot_list (ws_primarySettle st)
      else mp_Name (ws_primary st) \<in> set (ws_visited st) \<and> sv_Held s = [])"

lemma observe_simps [simp]:
  "same_walk st (observe c st)" "ws_visited (observe c st) = ws_visited st" "ws_attemptCount (observe c st) = ws_attemptCount st"
  "ws_modelFor (observe c st) = ws_modelFor st" "set (ws_observed (observe c st)) = insert c (set (ws_observed st))"
  by (simp_all add: observe_def same_walk_def)

lemma Admit_granted:
  "Admit b now p ns wl = (d, Some h, b') \<Longrightarrow> \<not> bd_Unavailable d \<and> \<not> bd_Throttled d \<and> bd_Action d \<noteq> BudgetActionBlock"
  by (auto simp: Admit_def Let_def grant_slots_def decide_def no_decision_def split: if_splits prod.splits option.splits)

lemma admit_granted:
  "admit w p ns wl s = (d, Some h, s') \<Longrightarrow> \<not> bd_Unavailable d \<and> \<not> bd_Throttled d \<and> bd_Action d \<noteq> BudgetActionBlock"
  by (auto simp: admit_def Let_def split: prod.splits dest: Admit_granted)

lemma admit_candidate_frame:
  assumes "admit_candidate w p st s = (v, st', s')"
  shows "same_walk st st'" "same_config s s'" "ws_visited st' = ws_visited st" "ws_attemptCount st' = ws_attemptCount st"
    "ws_modelFor st' = ws_modelFor st" "set (ws_observed st) \<subseteq> set (ws_observed st')"
    "\<exists>l. sv_Log s' = sv_Log s @ l \<and> forwards l = []"
proof -
  obtain d h t where a: "admit w p (ws_namespace st) (ws_workload st) s = (d, h, t)" by (cases "admit w p (ws_namespace st) (ws_workload st) s")
  note f = admit_frame [OF a]
  show "same_walk st st'" "ws_visited st' = ws_visited st" "ws_attemptCount st' = ws_attemptCount st"
    "ws_modelFor st' = ws_modelFor st" "set (ws_observed st) \<subseteq> set (ws_observed st')"
    using assms by (auto simp: admit_candidate_def a Let_def observe_def same_walk_def split: if_splits)
  show "same_config s s'" using assms f(3) by (auto simp: admit_candidate_def a Let_def same_config_def server_frame split: if_splits)
  show "\<exists>l. sv_Log s' = sv_Log s @ l \<and> forwards l = []"
    using assms f(1) by (auto simp: admit_candidate_def a Let_def server_frame split: if_splits)
qed

lemma admit_candidate_held:
  assumes "admit_candidate w p st s = (v, st', s')" "settle_named st"
    "sv_Held s = (if mp_Name p = mp_Name (ws_primary st) then slot_list (ws_primarySettle st) else [])"
  shows "sv_Held s' = (case v of Granted slot \<Rightarrow> slot_list slot | Refused _ \<Rightarrow> [])"
    "h \<in> set (sv_Held s') \<Longrightarrow> sh_providerName h = mp_Name p"
    "v = Refused c \<Longrightarrow> mp_Name p \<noteq> mp_Name (ws_primary st)"
proof -
  obtain d k t where a: "admit w p (ws_namespace st) (ws_workload st) s = (d, k, t)" by (cases "admit w p (ws_namespace st) (ws_workload st) s")
  note f = admit_frame [OF a] admit_granted [of w p "ws_namespace st" "ws_workload st" s d]
  show "sv_Held s' = (case v of Granted slot \<Rightarrow> slot_list slot | Refused _ \<Rightarrow> [])" 
    using assms a f(4,6) by (cases k) (auto simp: admit_candidate_def Let_def server_frame split: if_splits)
  show "h \<in> set (sv_Held s') \<Longrightarrow> sh_providerName h = mp_Name p"
    using assms a f(4,5) by (cases k; cases "ws_primarySettle st")
      (auto simp: admit_candidate_def Let_def server_frame settle_named_def split: if_splits)
  show "v = Refused c \<Longrightarrow> mp_Name p \<noteq> mp_Name (ws_primary st)" using assms(1) by (auto simp: admit_candidate_def)
qed

lemma slots_before_child:
  "mp_Name (ws_primary st) \<in> set (ws_visited st) \<Longrightarrow> sv_Held s = [] \<Longrightarrow> slots_before p (follow p ref m st) s"
  by (auto simp: slots_before_def follow_def)

subsection \<open>Walks over any attempt\<close>

text \<open>Every request forwarded between two points was sent holding no slot of another provider.\<close>

definition tidy :: "Server \<Rightarrow> Server \<Rightarrow> bool" where
  "tidy s s' \<longleftrightarrow>
     (\<exists>l. sv_Log s' = sv_Log s @ l \<and> (\<forall>(p, m, held)\<in>set (forwards l). \<forall>h\<in>set held. sh_providerName h = mp_Name p))"

lemma tidy_silent: "sv_Log s' = sv_Log s @ l \<Longrightarrow> forwards l = [] \<Longrightarrow> tidy s s'"
  unfolding tidy_def by (intro exI [of _ l]) simp

lemma tidy_refl [simp]: "tidy s s"
  by (rule tidy_silent [where l = "[]"]) simp_all

lemma tidy_trans: "tidy a b \<Longrightarrow> tidy b c \<Longrightarrow> tidy a c"
  unfolding tidy_def by (elim exE conjE, rule exI, rule conjI, simp, auto)

lemma tidy_skip: "tidy s (skip_event st n r s)"
  using recordEvent_log tidy_silent unfolding skip_event_def by blast

text \<open>What the walk relies on in an attempt: it touches nothing of the walk's state but the observed
  classes, it forwards at most one request, to the candidate with its model, it settles nothing, a
  fallbackable failure is observed with a class that is not a budget class, and any other outcome has
  a response of the candidate.\<close>

locale candidate_attempt =
  fixes attempt :: attempt_fun
  assumes attempt_walk: "attempt p st s = (res, st', s') \<Longrightarrow>
      st' = st\<lparr>ws_observed := ws_observed st'\<rparr> \<and> set (ws_observed st) \<subseteq> set (ws_observed st')"
    and attempt_server: "attempt p st s = (res, st', s') \<Longrightarrow> same_config s s' \<and> sv_Held s' = sv_Held s"
    and attempt_forwards: "attempt p st s = (res, st', s') \<Longrightarrow>
      \<exists>l. sv_Log s' = sv_Log s @ l \<and> forwards l \<in> {[], [(p, candidateModel st p, sv_Held s)]}"
    and attempt_class: "attempt p st s = (res, st', s') \<Longrightarrow> fr_fallilable res \<Longrightarrow>
      fr_class res \<in> {classConnect, classTimeout, classUpstream} \<inter> set (ws_observed st')"
    and attempt_answer: "attempt p st s = (res, st', s') \<Longrightarrow> \<not> fr_fallilable res \<Longrightarrow>
      fr_resp res \<noteq> None \<and> fr_chosen res = Some p \<and> fr_provider res = mp_Name p"
begin

lemma attempt_frame:
  assumes "attempt p st s = (res, st', s')"
  shows "same_walk st st'" "ws_visited st' = ws_visited st" "ws_attemptCount st' = ws_attemptCount st"
    "set (ws_observed st) \<subseteq> set (ws_observed st')"
proof -
  note e = attempt_walk [OF assms]
  show "same_walk st st'" "ws_visited st' = ws_visited st" "ws_attemptCount st' = ws_attemptCount st"
    by (subst e [THEN conjunct1]; simp add: same_walk_def)+
  show "set (ws_observed st) \<subseteq> set (ws_observed st')" using e by simp
qed

text \<open>From the visit of an eligible candidate to the point where its children are walked or its
  answer is returned.\<close>

lemma progress_attempt:
  assumes "mp_Name p \<notin> set (ws_visited st)" "staticallyIneligible p (visit p st) = ([], st1)"
    "ws_attemptCount st1 < ws_maxDepth st1" "admit_candidate w p (count_attempt st1) s = (v, st2, s2)"
  shows "progress st s st2 s2" "attempt p st2 s2 = (res, st3, s3) \<Longrightarrow> progress st s st3 s3"
proof -
  note a = static_frame [OF assms(2)] and b = admit_candidate_frame [OF assms(4)]
  have sw: "same_walk st st2"
    using a(1) b(1) by (simp add: same_walk_def visit_def count_attempt_def)
  have at: "ws_attemptCount st2 = ws_attemptCount st + 1" "ws_attemptCount st < ws_maxDepth st"
    "set (ws_visited st2) = insert (mp_Name p) (set (ws_visited st))" "set (ws_observed st) \<subseteq> set (ws_observed st2)"
    using assms(3) a(1-4) b(3,4,6) by (auto simp: visit_def count_attempt_def same_walk_def)
  have model: "candidateModel st2 p = candidateModel (visit p st) p"
    using a(1,5) b(1,5) by (intro candidateModel_cong) (auto simp: count_attempt_def same_walk_def)
  have el: "eligible st p (candidateModel st2 p)" using a(6) unfolding model by (simp add: eligible_def visit_def)
  obtain l where l: "sv_Log s2 = sv_Log s @ l" "forwards l = []" using b(7) by blast
  show "progress st s st2 s2" using sw at l b(2) by (intro progress_silent [where l = l]) auto
  assume t: "attempt p st2 s2 = (res, st3, s3)"
  note c = attempt_frame [OF t]
  obtain k where k: "sv_Log s3 = sv_Log s2 @ k" "forwards k \<in> {[], [(p, candidateModel st2 p, sv_Held s2)]}"
    using attempt_forwards [OF t] by blast
  have "sv_Log s3 = sv_Log s @ (l @ k)" "set (forwards (l @ k)) \<subseteq> {(p, candidateModel st2 p, sv_Held s2)}"
    "length (forwards (l @ k)) \<le> 1"
    using k l by auto
  moreover have "distinct (map (mp_Name \<circ> fst) (forwards (l @ k)))" using k(2) l(2) by auto
  ultimately show "progress st s st3 s3"
    using same_walk_trans [OF sw c(1)] at c(2-4) same_config_trans [OF b(2)] attempt_server [OF t] el assms(1)
    unfolding progress_def by (intro conjI exI [of _ "l @ k"]) auto
qed

lemma progress_failed:
  assumes "attempt p st2 s2 = (res, st3, s3)" "progress st s st3 s3"
  shows "progress st s st3 (credential_event p res (settle_slot w slot 0 s3))"
proof -
  let ?s4 = "settle_slot w slot 0 s3"
  obtain l where l: "sv_Log (credential_event p res ?s4) = sv_Log s3 @ l" "forwards l = []"
    using credential_event_frame(3) [of p res ?s4] by (auto simp: server_frame)
  have "same_config s3 (credential_event p res ?s4)"
    by (rule same_config_trans [OF settle_slot_frame(4) credential_event_frame(1)])
  then have "progress st3 s3 st3 (credential_event p res ?s4)" using l by (intro progress_silent [where l = l]) auto
  then show ?thesis by (rule progress_trans [OF assms(2)])
qed

lemma progress_visit:
  assumes "staticallyIneligible p (visit p st) = (reason, st1)"
  shows "progress st s st1 s"
  using static_frame [OF assms] by (intro progress_silent [where l = "[]"]) (auto simp: visit_def same_walk_def)

lemma progress_follow: "progress (follow p ref m st) s st' s' \<Longrightarrow> progress st s st' s'"
  by (rule progress_trans [of _ _ "follow p ref m st"], rule progress_silent [where l = "[]"])
     (auto simp: follow_def same_walk_def)

lemma walk_progress:
  "tries w attempt p st s r ok st' s' \<Longrightarrow> progress st s st' s'"
  "descends w attempt m refs st s r ok st' s' \<Longrightarrow> progress st s st' s'"
proof (induction rule: tries_descends.inducts)
  case (ineligible p st reason st1 s)
  then show ?case using progress_trans [OF progress_visit progress_skip] by blast
next
  case (refused p st st1 s cls st2 s2 r ok st' s')
  then show ?case using progress_trans [OF progress_attempt(1)] by blast
next
  case (failed p st st1 s slot st2 s2 res st3 s3 r ok st' s')
  then show ?case using progress_trans [OF progress_failed [OF _ progress_attempt(2)]] by blast
next
  case (missing_child s ref m refs st r ok st' s')
  then show ?case using progress_trans [OF progress_skip] by blast
next
  case (next_child s ref p m st r1 st1 s1 refs r ok st' s')
  then show ?case using progress_trans progress_follow by blast
qed (auto intro: progress_visit progress_attempt(2) progress_follow)

lemma walk_monotone:
  assumes "tries w attempt p st s r ok st' s'"
  shows "ws_maxDepth st' = ws_maxDepth st" "ws_attemptCount st \<le> ws_attemptCount st'"
  using walk_progress(1) [OF assms] by (auto simp: progress_def same_walk_def)

subsubsection \<open>Termination\<close>

lemma children_enough:
  assumes "\<And>p st s. nat (ws_maxDepth st - ws_attemptCount st) < n \<Longrightarrow> try_fuel w attempt n p st s \<noteq> None"
  shows "nat (ws_maxDepth st - ws_attemptCount st) < n \<Longrightarrow> children_fuel w attempt n m refs st s \<noteq> None"
proof (induction refs arbitrary: st s)
  case (Cons ref refs)
  show ?case
  proof (cases "ProviderByName (sv_Store s) (fb_Name ref)")
    case None
    then show ?thesis using Cons by simp
  next
    case (Some q)
    have "try_fuel w attempt n q (follow q ref m st) s \<noteq> None" using Cons.prems by (intro assms) (simp add: follow_def)
    then obtain r ok st1 s1 where t: "try_fuel w attempt n q (follow q ref m st) s = Some ((r, ok), st1, s1)" by auto
    have "nat (ws_maxDepth st1 - ws_attemptCount st1) < n"
      using walk_monotone [OF try_walk [OF t]] Cons.prems by (simp add: follow_def)
    then show ?thesis using Some t Cons.IH [of st1 s1] by (auto simp: follow_def)
  qed
qed simp

lemma try_enough: "nat (ws_maxDepth st - ws_attemptCount st) < n \<Longrightarrow> try_fuel w attempt n p st s \<noteq> None"
proof (induction n arbitrary: p st s)
  case (Suc n)
  obtain reason st1 where st1: "staticallyIneligible p (visit p st) = (reason, st1)" by (cases "staticallyIneligible p (visit p st)")
  obtain v st2 s2 where a: "admit_candidate w p (count_attempt st1) s = (v, st2, s2)" by (cases "admit_candidate w p (count_attempt st1) s")
  obtain res st3 s3 where t: "attempt p st2 s2 = (res, st3, s3)" by (cases "attempt p st2 s2")
  show ?case
  proof (cases "ws_attemptCount st1 < ws_maxDepth st1")
    case True
    have "nat (ws_maxDepth st2 - ws_attemptCount st2) < n" "nat (ws_maxDepth st3 - ws_attemptCount st3) < n"
      using Suc.prems True static_frame(1,4) [OF st1] admit_candidate_frame(1,4) [OF a] attempt_frame(1,3) [OF t]
      by (auto simp: visit_def count_attempt_def same_walk_def)
    then have "children_fuel w attempt n m refs st2 s' \<noteq> None" "children_fuel w attempt n m refs st3 s' \<noteq> None" for m refs s'
      using children_enough [of n w, OF Suc.IH] by blast+
    then show ?thesis unfolding try_fuel_Suc using st1 a t by (simp del: not_None_eq split: admission.split)
  qed (use st1 in \<open>auto simp: try_fuel_Suc simp del: try_fuel.simps\<close>)
qed simp

lemma walk_returns: "\<exists>r ok st' s'. tryWithFallbacks w attempt p st s = Some ((r, ok), st', s')"
  using try_enough [of st "walk_fuel st" w p s] by (auto simp: tryWithFallbacks_def walk_fuel_def)

subsubsection \<open>Slots\<close>

lemma slots_attempt:
  assumes "settle_named st" "slots_before p st s" "mp_Name p \<notin> set (ws_visited st)"
    "staticallyIneligible p (visit p st) = ([], st1)" "admit_candidate w p (count_attempt st1) s = (v, st2, s2)"
  shows "sv_Held s2 = (case v of Granted slot \<Rightarrow> slot_list slot | Refused _ \<Rightarrow> [])" "tidy s s2"
    "settle_named st2" "mp_Name (ws_primary st2) \<in> set (ws_visited st2)"
    "attempt p st2 s2 = (res, st3, s3) \<Longrightarrow> tidy s s3" "attempt p st2 s2 = (res, st3, s3) \<Longrightarrow> sv_Held s3 = sv_Held s2"
    "attempt p st2 s2 = (res, st3, s3) \<Longrightarrow> settle_named st3 \<and> mp_Name (ws_primary st3) \<in> set (ws_visited st3)"
proof -
  note a = static_frame [OF assms(4)] and b = admit_candidate_frame [OF assms(5)]
  have sn: "settle_named (count_attempt st1)" "ws_primary (count_attempt st1) = ws_primary st"
    "ws_primarySettle (count_attempt st1) = ws_primarySettle st"
    using a(1) assms(1) by (auto simp: settle_named_def same_walk_def visit_def count_attempt_def)
  have held: "sv_Held s = (if mp_Name p = mp_Name (ws_primary (count_attempt st1)) then slot_list (ws_primarySettle (count_attempt st1)) else [])"
    using assms(2,3) sn by (auto simp: slots_before_def split: if_splits)
  note c = admit_candidate_held [OF assms(5) sn(1) held]
  show "sv_Held s2 = (case v of Granted slot \<Rightarrow> slot_list slot | Refused _ \<Rightarrow> [])" by (rule c(1))
  show 1: "tidy s s2" using b(7) tidy_silent by blast
  have 2: "same_walk st st2" using a(1) b(1) by (simp add: same_walk_def visit_def count_attempt_def)
  then show 3: "settle_named st2" using assms(1) by (auto simp: settle_named_def same_walk_def)
  show 4: "mp_Name (ws_primary st2) \<in> set (ws_visited st2)"
    using 2 a(2) b(3) assms(2) by (auto simp: slots_before_def visit_def count_attempt_def same_walk_def split: if_splits)
  assume t: "attempt p st2 s2 = (res, st3, s3)"
  obtain l where "sv_Log s3 = sv_Log s2 @ l" "forwards l \<in> {[], [(p, candidateModel st2 p, sv_Held s2)]}"
    using attempt_forwards [OF t] by blast
  then have "tidy s2 s3" using c(2) unfolding tidy_def by (intro exI [of _ l]) auto
  then show "tidy s s3" by (rule tidy_trans [OF 1])
  show "sv_Held s3 = sv_Held s2" using attempt_server [OF t] by simp
  show "settle_named st3 \<and> mp_Name (ws_primary st3) \<in> set (ws_visited st3)"
    using attempt_frame(1,2) [OF t] 3 4 by (auto simp: settle_named_def same_walk_def)
qed

lemma slots_failed:
  assumes "sv_Held s3 = slot_list slot"
  shows "sv_Held (credential_event p res (settle_slot w slot 0 s3)) = []" "tidy s3 (credential_event p res (settle_slot w slot 0 s3))"
proof -
  show "sv_Held (credential_event p res (settle_slot w slot 0 s3)) = []"
    using assms by (cases slot) (simp_all add: credential_event_frame settle_slot_held)
  show "tidy s3 (credential_event p res (settle_slot w slot 0 s3))"
    using credential_event_frame(3) [of p res "settle_slot w slot 0 s3"] tidy_silent unfolding settle_slot_frame by blast
qed

definition left :: "Server \<Rightarrow> forwardResult \<Rightarrow> bool \<Rightarrow> walkState \<Rightarrow> Server \<Rightarrow> bool" where
  "left s r ok st' s' \<longleftrightarrow> tidy s s' \<and>
     (if ok then sv_Held s' = slot_list (fr_settle r)
      else mp_Name (ws_primary st') \<in> set (ws_visited st') \<and> sv_Held s' \<in> {[], sv_Held s})"

lemma left_after: "tidy s t \<Longrightarrow> sv_Held t = [] \<Longrightarrow> left t r ok st' s' \<Longrightarrow> left s (if ok then r else r') ok st' s'"
  by (auto simp: left_def intro: tidy_trans)

lemma settle_named_walk:
  assumes "tries w attempt p st s r ok st' s'" "settle_named st"
  shows "settle_named st'"
  using walk_progress(1) [OF assms(1)] assms(2) by (auto simp: progress_def same_walk_def settle_named_def)

lemma walk_slots:
  "tries w attempt p st s r ok st' s' \<Longrightarrow> settle_named st \<Longrightarrow> slots_before p st s \<Longrightarrow> left s r ok st' s'"
  "descends w attempt m refs st s r ok st' s' \<Longrightarrow> settle_named st \<Longrightarrow> mp_Name (ws_primary st) \<in> set (ws_visited st) \<Longrightarrow>
   sv_Held s = [] \<Longrightarrow> left s r ok st' s'"
proof (induction rule: tries_descends.inducts)
  case (visited p st s)
  then show ?case by (auto simp: left_def slots_before_def split: if_splits)
next
  case (ineligible p st reason st1 s)
  then show ?case using static_frame(1,2) [OF ineligible(2)] tidy_skip
    by (auto simp: left_def slots_before_def server_frame visit_def same_walk_def split: if_splits)
next
  case (spent p st st1 s)
  then show ?case using static_frame(1,2) [OF spent(2)]
    by (auto simp: left_def slots_before_def visit_def same_walk_def split: if_splits)
next
  case (refused p st st1 s cls st2 s2 r ok st' s')
  note a = slots_attempt [OF refused.prems refused(1,2,4)]
  show ?case using left_after [OF a(2) _ refused(6)] a(1,3,4) by simp
next
  case (answered p st st1 s slot st2 s2 res st' s')
  note a = slots_attempt [OF answered.prems answered(1,2,5)]
  show ?case using a(1) a(5,6) [OF answered(6)] by (simp add: left_def)
next
  case (failed p st st1 s slot st2 s2 res st3 s3 r ok st' s')
  note a = slots_attempt [OF failed.prems failed(1,2,6)]
  have h: "sv_Held s3 = slot_list slot" using a(1) a(6) [OF failed(7)] by simp
  note b = slots_failed [OF h, of p res w]
  show ?case using left_after [OF tidy_trans [OF a(5) [OF failed(7)] b(2)] b(1) failed(9)] a(7) [OF failed(7)] b(1) by simp
next
  case (missing_child s ref m refs st r ok st' s')
  show ?case using left_after [OF tidy_skip _ missing_child(3), of r] missing_child.prems by (simp add: server_frame)
next
  case (child_won s ref p m st r st' s')
  have "settle_named (follow p ref m st)" using child_won.prems(1) by (simp add: settle_named_def follow_def)
  then show ?case using child_won(3) slots_before_child [OF child_won.prems(2,3)] by blast
next
  case (next_child s ref p m st r1 st1 s1 refs r ok st' s')
  have sn: "settle_named (follow p ref m st)" using next_child.prems(1) by (simp add: settle_named_def follow_def)
  note l = next_child(3) [OF sn slots_before_child [OF next_child.prems(2,3)]]
  have "left s1 r ok st' s'"
    using l next_child.prems(3) settle_named_walk [OF next_child(2) sn] by (intro next_child(5)) (auto simp: left_def)
  then show ?case using l next_child.prems(3) left_after [of s s1 r ok st' s' r] by (auto simp: left_def)
qed (auto simp: left_def)

subsubsection \<open>Exhaustion\<close>

lemma primary_exhausted:
  assumes "tries w attempt (ws_primary st) st s r False st' s'" "mp_Name (ws_primary st) \<notin> set (ws_visited st)" "ws_observed st = []"
  shows "ws_observed st' = [] \<or> (\<exists>c\<in>set (ws_observed st'). c \<in> {classConnect, classTimeout, classUpstream})"
  using assms(1)
proof (cases rule: tries.cases)
  case (ineligible reason)
  then show ?thesis using static_frame(3) assms(3) by (simp add: visit_def)
next
  case spent
  then show ?thesis using static_frame(3) assms(3) by (simp add: visit_def)
next
  case (refused st1 cls st2 s2 r)
  then show ?thesis using static_frame(1) [OF refused(3)] by (auto simp: admit_candidate_def visit_def count_attempt_def same_walk_def)
next
  case (failed st1 slot st2 s2 res st3 s3 r)
  then show ?thesis using attempt_class [OF failed(6,8)] walk_progress(2) [OF failed(9)] unfolding progress_def by blast
qed (use assms in auto)

lemma success_not_fallilable: "attempt p st s = (res, st', s') \<Longrightarrow> success res \<or> \<not> fr_fallilable res \<Longrightarrow> \<not> fr_fallilable res"
  using attempt_class [of p st s res st' s'] by (auto simp: success_def)

lemma walk_answer:
  "tries w attempt p st s r ok st' s' \<Longrightarrow> ok \<longrightarrow> (\<exists>resp q. fr_resp r = Some resp \<and> fr_chosen r = Some q \<and> fr_provider r = mp_Name q)"
  "descends w attempt m refs st s r ok st' s' \<Longrightarrow> ok \<longrightarrow> (\<exists>resp q. fr_resp r = Some resp \<and> fr_chosen r = Some q \<and> fr_provider r = mp_Name q)"
proof (induction rule: tries_descends.inducts)
  case (answered p st st1 s slot st2 s2 res st' s')
  then show ?case using attempt_answer [OF answered(6) success_not_fallilable [OF answered(6,4)]] by auto
qed auto

end

subsection \<open>What is sent\<close>

definition sent_ok :: "(ModelProvider \<Rightarrow> upstreamRequest \<Rightarrow> bool) \<Rightarrow> Server \<Rightarrow> bool" where
  "sent_ok sends s \<longleftrightarrow> (\<forall>p m rq held. Forward p m rq held \<in> set (sv_Log s) \<longrightarrow> sends p rq)"

lemma forwards_Nil: "forwards l = [] \<Longrightarrow> Forward p m rq held \<notin> set l"
  by (induction l rule: forwards.induct) auto

lemma sent_ok_silent: "sv_Log s' = sv_Log s @ l \<Longrightarrow> forwards l = [] \<Longrightarrow> sent_ok sends s \<Longrightarrow> sent_ok sends s'"
  by (auto simp: sent_ok_def dest: forwards_Nil)

text \<open>An attempt whose requests satisfy \<open>sends\<close> under a given store.\<close>

locale forwarding_attempt = candidate_attempt +
  fixes store :: Store and sends :: "ModelProvider \<Rightarrow> upstreamRequest \<Rightarrow> bool"
  assumes attempt_sends: "attempt p st s = (res, st', s') \<Longrightarrow> sv_Store s = store \<Longrightarrow> sent_ok sends s \<Longrightarrow> sent_ok sends s'"
begin

definition sending :: "Server \<Rightarrow> bool" where
  "sending s \<longleftrightarrow> sv_Store s = store \<and> sent_ok sends s"

lemma sending_silent:
  "sending s \<Longrightarrow> same_config s s' \<Longrightarrow> \<exists>l. sv_Log s' = sv_Log s @ l \<and> forwards l = [] \<Longrightarrow> sending s'"
  unfolding sending_def same_config_def using sent_ok_silent by metis

lemma sending_skip: "sending s \<Longrightarrow> sending (skip_event st n r s)"
  by (erule sending_silent) (simp_all add: server_frame skip_event_def recordEvent_log)

lemma sending_admit: "admit_candidate w p st s = (v, st', s') \<Longrightarrow> sending s \<Longrightarrow> sending s'"
  using admit_candidate_frame(2,7) sending_silent by blast

lemma sending_attempt: "attempt p st s = (res, st', s') \<Longrightarrow> sending s \<Longrightarrow> sending s'"
  using attempt_sends attempt_server unfolding sending_def same_config_def by metis

lemma sending_failed: "sending s \<Longrightarrow> sending (credential_event p res (settle_slot w slot 0 s))"
proof -
  assume "sending s"
  then have "sending (settle_slot w slot 0 s)" by (rule sending_silent) (simp_all add: server_frame)
  then show ?thesis by (rule sending_silent) (rule credential_event_frame)+
qed

lemma walk_sends:
  "tries w attempt p st s r ok st' s' \<Longrightarrow> sending s \<Longrightarrow> sending s'"
  "descends w attempt m refs st s r ok st' s' \<Longrightarrow> sending s \<Longrightarrow> sending s'"
  by (induction rule: tries_descends.inducts) (auto dest: sending_admit sending_attempt intro: sending_skip sending_failed)

end

end
