(* ===== verification/Llm_Proxy.thy ===== *)
theory Llm_Proxy
  imports Fallback_Walk
begin

text \<open>
  The LLM proxy (\<^verbatim>\<open>internal/gateway/proxy.go\<close>): the forwarded-header contract, one upstream attempt,
  the relay of buffered and streamed answers, and the whole handler. A handler gives \<open>None\<close> where the
  code would dereference a nil response. Tracing spans and debug logs are left out. The deferred calls
  of \<^verbatim>\<open>handleLLMProxy\<close> run, last first, on every exit after the point where they were deferred.
\<close>

subsection \<open>The code\<close>

paragraph \<open>Headers\<close>

definition hopByHopHeaders :: "string list" where
  "hopByHopHeaders = [''Connection'', ''TE'', ''Upgrade'', ''Proxy-Authorization'', ''Keep-Alive'', ''Trailer'', ''Transfer-Encoding'']"

definition authMaterialHeaders :: "string list" where
  "authMaterialHeaders = [''Authorization'', ''X-Api-Key'', ''Api-Key'']"

definition copyForwardedHeaders :: "Header \<Rightarrow> Header \<Rightarrow> Header" where
  "copyForwardedHeaders dst src =
     (let dst = fold (\<lambda>(name, vals). mput name vals) src dst;
          dst = fold hdr_Del authMaterialHeaders dst;
          dst = fold (\<lambda>name dst. let name = TrimSpace name in if name \<noteq> [] then hdr_Del name dst else dst)
                  (SplitByte (CHR '','') (hdr_Get src ''Connection'')) dst;
          dst = fold hdr_Del hopByHopHeaders dst;
          dst = hdr_Set ''Accept-Encoding'' ''identity'' dst
      in hdr_Del ''Content-Length'' (hdr_Del ''Host'' dst))"

definition copyDownstreamHeaders :: "Header \<Rightarrow> Header \<Rightarrow> Header" where
  "copyDownstreamHeaders dst src =
     fold (\<lambda>(name, vals) dst.
             if ToLower name \<in> {''connection'', ''transfer-encoding'', ''keep-alive''} then dst else mput name vals dst)
       src dst"

definition isSSE :: "httpResponse \<Rightarrow> bool" where
  "isSSE resp = HasPrefix (hdr_Get (hr_Header resp) ''Content-Type'') ''text/event-stream''"

definition workloadKey :: "caller \<Rightarrow> string" where
  "workloadKey c =
     (case cl_Workload c of
        None \<Rightarrow> UnattributedWorkload
      | Some wl \<Rightarrow> (if id_Kind wl = KindAgentTask then ''task/'' @ id_Name wl else ''agent/'' @ id_Name wl))"

paragraph \<open>One attempt\<close>

definition with_model :: "string \<Rightarrow> json gomap \<Rightarrow> json gomap" where
  "with_model model body = mput ''model'' (JStr model) body"

definition candidateRequest ::
  "walkState \<Rightarrow> ModelProvider \<Rightarrow> string \<Rightarrow> string \<Rightarrow> providerAdapter \<Rightarrow> providerAdapter \<Rightarrow>
   string \<times> string \<times> providerAdapter \<times> providerAdapter \<times> string" where
  "candidateRequest st cand outBody inboundPath adapter typeAdapter =
     (let model = candidateModel st cand;
          candAdapter = (case adapterForProviderType (mps_Type (mp_Spec cand)) of Some a \<Rightarrow> a | None \<Rightarrow> typeAdapter)
      in case (if crosses st cand then mlookup (ws_translated st) (mp_Name cand) else None) of
           Some translated \<Rightarrow>
             (print_json (JObj (fixupRequestBody candAdapter translated)),
              canonicalPath (formatForType (mps_Type (mp_Spec cand))), candAdapter, candAdapter, model)
         | None \<Rightarrow>
             (if model \<noteq> ws_modelID st
              then (print_json (JObj (with_model model (ws_parsed st))), inboundPath, adapter, candAdapter, model)
              else (outBody, inboundPath, adapter, candAdapter, model)))"

definition transport_failure :: "failClass \<Rightarrow> string \<Rightarrow> forwardResult" where
  "transport_failure cls err = no_result\<lparr>fr_fallilable := True, fr_class := cls, fr_err := Some err\<rparr>"

definition upstream_request ::
  "httpRequest \<Rightarrow> string \<Rightarrow> string \<Rightarrow> providerAdapter \<Rightarrow> string \<Rightarrow> upstreamRequest" where
  "upstream_request r url body typeAdapter credential =
     \<lparr>ur_Method = rq_Method r, ur_URL = url,
      ur_Header = hdr_Set ''Content-Type'' ''application/json''
                    (injectCredential typeAdapter credential (copyForwardedHeaders [] (rq_Header r))),
      ur_Body = body\<rparr>"

definition classify_response :: "ModelProvider \<Rightarrow> httpResponse \<Rightarrow> forwardResult" where
  "classify_response provider resp =
     (case isFallbackable (hr_Status resp) of (fallback, cls) \<Rightarrow>
        let fr = no_result\<lparr>fr_resp := Some resp, fr_fallilable := fallback, fr_class := cls,
                           fr_provider := mp_Name provider, fr_chosen := Some provider\<rparr>
        in if isSSE resp then fr
           else case hr_ReadErr resp of
                  Some err \<Rightarrow> transport_failure classConnect err
                | None \<Rightarrow> fr\<lparr>fr_body := hr_Data resp\<rparr>)"

definition forwardOnce ::
  "world \<Rightarrow> httpRequest \<Rightarrow> ModelProvider \<Rightarrow> string \<Rightarrow> string \<Rightarrow> providerAdapter \<Rightarrow> providerAdapter \<Rightarrow> string \<Rightarrow>
   Server \<Rightarrow> forwardResult \<times> Server" where
  "forwardOnce w r provider outBody inboundPath adapter typeAdapter modelID s =
     (case Credential (sv_Store s) provider of
        Inl err \<Rightarrow> (transport_failure classConnect err, s)
      | Inr credential \<Rightarrow>
          (let url = TrimSuffix (mps_Endpoint (mp_Spec provider)) ''/'' @ upstreamPath adapter inboundPath modelID
           in case wd_RequestErr w (rq_Method r) url of
                Some err \<Rightarrow> (transport_failure classConnect err, s)
              | None \<Rightarrow>
                  (let req = upstream_request r url outBody typeAdapter credential;
                       call = length (forwards (sv_Log s));
                       s = emit (Forward provider modelID req (sv_Held s)) s
                   in case wd_Upstream w call req of
                        Inl e \<Rightarrow>
                          (transport_failure
                             (if te_Deadline e \<or> Contains (te_Text e) ''context deadline exceeded'' then classTimeout else classConnect)
                             (te_Text e), s)
                      | Inr resp \<Rightarrow> (classify_response provider resp, s))))"

text \<open>The closure the handler passes to the walk.\<close>

definition llm_attempt :: "world \<Rightarrow> httpRequest \<Rightarrow> string \<Rightarrow> providerAdapter \<Rightarrow> providerAdapter \<Rightarrow> string \<Rightarrow> attempt_fun" where
  "llm_attempt w r outBody adapter typeAdapter primary cand st s =
     (case candidateRequest st cand outBody (rq_Path r) adapter typeAdapter of (body, path, pathAdapter, candAdapter, model) \<Rightarrow>
        (case forwardOnce w r cand body path pathAdapter candAdapter model s of (fr, s) \<Rightarrow>
           let fr = fr\<lparr>fr_model := model, fr_format := formatForType (mps_Type (mp_Spec cand))\<rparr>;
               st = (if fr_class fr \<noteq> classNone then observe (fr_class fr) st else st);
               s = (if mp_Name cand \<noteq> primary
                    then emit (Fallback primary (mp_Name cand)
                                 (if fr_class fr \<noteq> classNone then failClassName (fr_class fr) else ''success'')) s
                    else s)
           in (fr, st, s)))"

paragraph \<open>Relaying an answer\<close>

definition maxTokenSize :: nat where "maxTokenSize = 1024 * 1024"

definition scan_lines :: "string \<Rightarrow> string list" where
  "scan_lines data = ScanLines maxTokenSize data"

fun write_lines :: "world \<Rightarrow> string list \<Rightarrow> string list \<Rightarrow> string list \<times> bool" where
  "write_lines w [] written = (written, True)"
| "write_lines w (l # ls) written =
     (if wd_Accepts w (length written) then write_lines w ls (written @ [l]) else (written, False))"

definition line_usage :: "providerAdapter \<Rightarrow> string \<Rightarrow> Usage \<Rightarrow> Usage" where
  "line_usage adapter line usage =
     (case CutPrefix line ''data:'' of
        Some data \<Rightarrow> accumulateStreamUsage adapter (TrimSpace data) usage
      | None \<Rightarrow> usage)"

fun relay_lines ::
  "world \<Rightarrow> providerAdapter \<Rightarrow> string list \<Rightarrow> Stream option \<Rightarrow> Usage \<Rightarrow> string list \<Rightarrow> Usage \<times> string list" where
  "relay_lines w adapter [] translator usage written =
     (usage, case translator of None \<Rightarrow> written | Some t \<Rightarrow> fst (write_lines w (fst (Finish t)) written))"
| "relay_lines w adapter (line # lines) translator usage written =
     (let usage = line_usage adapter line usage
      in case translator of
           None \<Rightarrow>
             (case write_lines w [line] written of (written, ok) \<Rightarrow>
                if ok then relay_lines w adapter lines None usage written else (usage, written))
         | Some t \<Rightarrow>
             (case Feed line t of (outs, t) \<Rightarrow>
                (case write_lines w outs written of (written, ok) \<Rightarrow>
                   if ok then relay_lines w adapter lines (Some t) usage written else (usage, written))))"

definition settle_stream ::
  "world \<Rightarrow> ModelProvider \<Rightarrow> string \<Rightarrow> string \<Rightarrow> string \<Rightarrow> Usage \<Rightarrow> settleHandle option \<Rightarrow> Server \<Rightarrow> Server" where
  "settle_stream w provider namespace workload modelID usage slot s =
     (if \<not> isZero usage then settleUsage w provider namespace workload modelID usage slot s
      else settle_slot w slot 0 s)"

definition relayStream ::
  "world \<Rightarrow> httpResponse \<Rightarrow> providerAdapter \<Rightarrow> Stream option \<Rightarrow> string \<Rightarrow> string \<Rightarrow> ModelProvider \<Rightarrow> string \<Rightarrow>
   settleHandle option \<Rightarrow> Server \<Rightarrow> Reply \<times> Server" where
  "relayStream w resp adapter translator namespace workload provider modelID slot s =
     (case relay_lines w adapter (scan_lines (hr_Data resp)) translator no_usage [] of (usage, written) \<Rightarrow>
        (\<lparr>rp_Status = hr_Status resp, rp_Header = copyDownstreamHeaders [] (hr_Header resp), rp_Body = LinesBody written\<rparr>,
         settle_stream w provider namespace workload modelID usage slot s))"

definition settle_buffered ::
  "world \<Rightarrow> providerAdapter \<Rightarrow> forwardResult \<Rightarrow> ModelProvider \<Rightarrow> string \<Rightarrow> string \<Rightarrow> string \<Rightarrow> Server \<Rightarrow> Server" where
  "settle_buffered w adapter res provider namespace workload modelID s =
     (case extractUsage adapter (ParseJSON (fr_body res)) of
        Some usage \<Rightarrow> settleUsage w provider namespace workload modelID usage (fr_settle res) s
      | None \<Rightarrow> settle_slot w (fr_settle res) 0 s)"

definition writeWalkResult ::
  "world \<Rightarrow> forwardResult \<Rightarrow> providerAdapter \<Rightarrow> string \<Rightarrow> string \<Rightarrow> string \<Rightarrow> string \<Rightarrow> Server \<Rightarrow>
   (Reply \<times> string \<times> Server) option" where
  "writeWalkResult w res adapter inboundFormat namespace workload modelID s =
     (case (fr_resp res, fr_chosen res) of
        (Some resp, Some chosen) \<Rightarrow>
          (let modelID = (if fr_model res \<noteq> [] then fr_model res else modelID);
               servingAdapter = (case adapterForProviderType (mps_Type (mp_Spec chosen)) of Some a \<Rightarrow> a | None \<Rightarrow> adapter);
               crossing = (fr_format res \<noteq> [] \<and> inboundFormat \<noteq> [] \<and> fr_format res \<noteq> inboundFormat);
               h = copyDownstreamHeaders [] (hr_Header resp)
           in Some
             (if hr_Status resp < 200 \<or> hr_Status resp > 299 then
                (let s = emit (LLMRequest (fr_provider res) modelID namespace ''error'') (settle_slot w (fr_settle res) 0 s)
                 in if crossing
                    then (\<lparr>rp_Status = hr_Status resp, rp_Header = hdr_Del ''Content-Length'' h,
                           rp_Body = TextBody (translate_Error (fr_format res) inboundFormat (fr_body res))\<rparr>, modelID, s)
                    else (\<lparr>rp_Status = hr_Status resp, rp_Header = h, rp_Body = TextBody (fr_body res)\<rparr>, modelID, s))
              else
                (let s = emit (LLMRequest (fr_provider res) modelID namespace ''ok'') s
                 in if isSSE resp then
                      (let translator = (if crossing
                                         then NewStream (wd_Clock w (sv_Step s)) (fr_format res) inboundFormat modelID else None)
                       in case relayStream w resp servingAdapter translator namespace workload chosen modelID (fr_settle res) s of
                            (rep, s) \<Rightarrow> (rep, modelID, s))
                    else
                      (let s = settle_buffered w servingAdapter res chosen namespace workload modelID s
                       in if \<not> crossing
                          then (\<lparr>rp_Status = hr_Status resp, rp_Header = h, rp_Body = TextBody (fr_body res)\<rparr>, modelID, s)
                          else case Response (wd_Clock w (sv_Step s)) (fr_format res) inboundFormat (fr_body res) of
                                 None \<Rightarrow>
                                   (writeErrorTo h 502
                                      \<lparr>eb_Type = errProviderError,
                                       eb_Message = ''the fallback provider's response could not be translated: '' @
                                                    wd_DecodeErr w (fr_body res),
                                       eb_Provider = fr_provider res, eb_Retryable = False\<rparr> 0, modelID, s)
                               | Some translated \<Rightarrow>
                                   (\<lparr>rp_Status = hr_Status resp, rp_Header = hdr_Del ''Content-Length'' h,
                                     rp_Body = TextBody translated\<rparr>, modelID, s)))))
      | _ \<Rightarrow> None)"

paragraph \<open>The handler\<close>

definition budget_error :: "string \<Rightarrow> string \<Rightarrow> string \<Rightarrow> errorBody" where
  "budget_error typ providerName message =
     \<lparr>eb_Type = typ, eb_Message = message, eb_Provider = providerName, eb_Retryable = True\<rparr>"

definition applyBudgetDecision ::
  "budgetDecision \<Rightarrow> bool \<Rightarrow> string \<Rightarrow> string \<Rightarrow> string \<Rightarrow> Server \<Rightarrow> Reply option \<times> string \<times> Server" where
  "applyBudgetDecision d engaged providerName namespace modelID s =
     (let boundary = (\<lambda>event. emit (BudgetBoundary providerName namespace event));
          threshold = (\<lambda>action. emit (BudgetThreshold providerName namespace action));
          s = (if bd_MarginRaisedNow d then boundary ''margin_raised'' s else s)
      in if bd_Unavailable d then
           (Some (writeError 503 (budget_error errBudgetUnavailable providerName
              (''budget state for provider '' @ providerName @ '' cannot be verified inside the boundary region; failing closed'')) 1),
            modelID, boundary ''fail_closed'' s)
         else if bd_Throttled d then
           (Some (writeError 429 (budget_error errBudgetThrottled providerName
              (''boundary admission for namespace '' @ namespace @ '' on provider '' @ providerName @ '' is busy; retry shortly'')) 1),
            modelID, boundary ''throttled'' s)
         else if bd_Action d = BudgetActionBlock then
           (Some (writeError 429 (budget_error errBudgetExhausted providerName
              ((if bd_Ceiling d = ''cluster'' then ''cluster budget exhausted'' else ''namespace budget exhausted: '' @ namespace) @
               '' on provider '' @ providerName @ '' ('' @ show_int (bd_Percent d) @ ''% used)'')) (bd_RetryAfter d)),
            modelID, threshold BudgetActionBlock s)
         else
           (let s = (if bd_Action d = BudgetActionDegrade then threshold BudgetActionDegrade s
                     else if bd_Action d = BudgetActionWarn then threshold BudgetActionWarn s else s);
                modelID = (if bd_Action d = BudgetActionDegrade \<and> bd_DegradeTo d \<noteq> [] \<and> bd_DegradeTo d \<noteq> modelID
                           then bd_DegradeTo d else modelID)
            in (None, modelID, if engaged then boundary ''engaged'' s else s)))"

definition record_activity :: "world \<Rightarrow> caller \<Rightarrow> Server \<Rightarrow> Server" where
  "record_activity w c s =
     (case cl_Workload c of
        Some wl \<Rightarrow>
          (if id_Kind wl = KindAgent
           then s\<lparr>sv_Activity := RecordTraffic (wd_Clock w (sv_Step s)) (cl_Namespace c) (id_Name wl) (sv_Activity s)\<rparr>
           else s)
      | None \<Rightarrow> s)"

definition inbound_format :: "httpRequest \<Rightarrow> providerAdapter \<Rightarrow> string" where
  "inbound_format r adapter = (if rq_Path r = ''/v1/completions'' then [] else formatForType (formatName adapter))"

definition start_walk ::
  "Server \<Rightarrow> caller \<Rightarrow> ModelProvider \<Rightarrow> string \<Rightarrow> settleHandle option \<Rightarrow> json gomap \<Rightarrow> string \<Rightarrow> walkState" where
  "start_walk s c provider modelID primarySettle parsed inboundFormat =
     \<lparr>ws_primary = provider, ws_namespace = cl_Namespace c, ws_workload = workloadKey c, ws_modelID = modelID,
      ws_attemptCount = 0, ws_maxDepth = sv_MaxFallbackDepth s, ws_visited = [], ws_observed = [], ws_maxRetryAfter = 0,
      ws_primarySettle = primarySettle, ws_parsed = parsed, ws_inboundFormat = inboundFormat,
      ws_modelFor = [(mp_Name provider, modelID)], ws_translated = []\<rparr>"

text \<open>From the walk on: the answer, the provider and model that label the latency metric, and the
  server.\<close>

definition walk_and_write ::
  "world \<Rightarrow> httpRequest \<Rightarrow> caller \<Rightarrow> providerAdapter \<Rightarrow> providerAdapter \<Rightarrow> ModelProvider \<Rightarrow> string \<Rightarrow> string \<Rightarrow>
   settleHandle option \<Rightarrow> json gomap \<Rightarrow> Server \<Rightarrow> (Reply \<times> string \<times> string \<times> Server) option" where
  "walk_and_write w r c adapter typeAdapter provider providerName modelID primarySettle parsed s =
     (let inboundFormat = inbound_format r adapter;
          st = start_walk s c provider modelID primarySettle parsed inboundFormat
      in case tryWithFallbacks w (llm_attempt w r (print_json (JObj parsed)) adapter typeAdapter (mp_Name provider)) provider st s of
           None \<Rightarrow> None
         | Some ((res, ok), st, s) \<Rightarrow>
             (if \<not> ok then
                (case exhaustionError (ws_observed st) (ws_maxRetryAfter st) providerName of (status, body, retryAfter) \<Rightarrow>
                   Some (writeError status body retryAfter, providerName, modelID,
                         emit (LLMRequest providerName modelID (cl_Namespace c) ''error'') s))
              else
                map_option (\<lambda>(rep, modelID, s). (rep, fr_provider res, modelID, s))
                  (writeWalkResult w res adapter inboundFormat (cl_Namespace c) (workloadKey c) modelID s)))"

text \<open>From budget admission on, with the deferred release of the primary's slot at the end.\<close>

definition admitted_request ::
  "world \<Rightarrow> httpRequest \<Rightarrow> caller \<Rightarrow> providerAdapter \<Rightarrow> providerAdapter \<Rightarrow> ModelProvider \<Rightarrow> string \<Rightarrow> string \<Rightarrow> json gomap \<Rightarrow>
   Server \<Rightarrow> (Reply \<times> Server) option" where
  "admitted_request w r c adapter typeAdapter provider providerName modelID parsed s =
     (case admit w provider (cl_Namespace c) (workloadKey c) s of (decision, primarySettle, s) \<Rightarrow>
        (case applyBudgetDecision decision (primarySettle \<noteq> None) providerName (cl_Namespace c) modelID s of
           (Some denied, modelID, s) \<Rightarrow> Some (denied, settle_slot w primarySettle 0 s)
         | (None, modelID, s) \<Rightarrow>
             (case Allow (sv_RateLimiter s) (wd_Clock w (sv_Step s)) provider (cl_Namespace c) modelID of (allowed, rl) \<Rightarrow>
                let s = s\<lparr>sv_RateLimiter := rl\<rparr>
                in if \<not> allowed then
                     Some (writeError 429 (budget_error errRateLimited providerName
                             (''rate limit exceeded for namespace '' @ cl_Namespace c @ '' on model '' @ modelID)) 1,
                           settle_slot w primarySettle 0 (emit (LLMRequest providerName modelID (cl_Namespace c) ''rate_limited'') s))
                   else
                     (let parsed = fixupRequestBody adapter (with_model modelID parsed)
                      in case walk_and_write w r c adapter typeAdapter provider providerName modelID primarySettle parsed
                                (record_activity w c s) of
                           None \<Rightarrow> None
                         | Some (rep, answered, modelID, s) \<Rightarrow>
                             Some (rep, settle_slot w primarySettle 0 (emit (Duration answered modelID) s))))))"

definition handleLLMProxy :: "world \<Rightarrow> httpRequest \<Rightarrow> caller \<Rightarrow> Server \<Rightarrow> (Reply \<times> Server) option" where
  "handleLLMProxy w r c s =
     (case adapterForPath (rq_Path r) of
        None \<Rightarrow> Some (badRequest (''unrecognized LLM path '' @ rq_Path r), s)
      | Some adapter \<Rightarrow>
          (if int (length (rq_Body r)) > sv_MaxBodyBytes s then
             Some (writeError 413 (plain_error errRequestTooLarge
                     (''request body exceeds '' @ show_int (sv_MaxBodyBytes s) @ '' bytes'')) 0, s)
           else case rq_BodyErr r of
             Some err \<Rightarrow> Some (badRequest (''reading request body: '' @ err), s)
           | None \<Rightarrow>
               (case Unmarshal_any_map (ParseJSON (rq_Body r)) of
                  None \<Rightarrow> Some (badRequest ''request body is not valid JSON'', s)
                | Some parsed \<Rightarrow>
                    (case splitQualifiedModel (case mlookup parsed ''model'' of Some (JStr q) \<Rightarrow> q | _ \<Rightarrow> []) of
                       None \<Rightarrow>
                         Some (badRequest (''model must be a qualified '' @ show_quoted ''{providerRef}/{modelId}'' @ '' name''), s)
                     | Some (providerName, modelID) \<Rightarrow>
                         (case authorizeRoute (sv_Store s) c providerName modelID of
                            Inl d \<Rightarrow>
                              Some (writeError (rd_status d)
                                \<lparr>eb_Type = rd_errType d, eb_Message = rd_message d, eb_Provider = providerName, eb_Retryable = False\<rparr> 0, s)
                          | Inr provider \<Rightarrow>
                              (case adapterForProviderType (mps_Type (mp_Spec provider)) of
                                 None \<Rightarrow>
                                   Some (writeError 400
                                     \<lparr>eb_Type = errInvalidRequest,
                                      eb_Message = ''provider type '' @ show_quoted (mps_Type (mp_Spec provider)) @
                                                   '' is not supported by this gateway build'',
                                      eb_Provider = providerName, eb_Retryable = False\<rparr> 0, s)
                               | Some typeAdapter \<Rightarrow>
                                   admitted_request w r c adapter typeAdapter provider providerName modelID parsed s))))))"

lemmas proxy_defs [kaalm_eval] = hopByHopHeaders_def authMaterialHeaders_def copyForwardedHeaders_def copyDownstreamHeaders_def
  isSSE_def workloadKey_def with_model_def candidateRequest_def transport_failure_def upstream_request_def classify_response_def
  forwardOnce_def llm_attempt_def maxTokenSize_def scan_lines_def line_usage_def settle_stream_def relayStream_def
  settle_buffered_def writeWalkResult_def budget_error_def applyBudgetDecision_def record_activity_def inbound_format_def
  start_walk_def walk_and_write_def admitted_request_def handleLLMProxy_def

subsection \<open>The attempt keeps the walk's contract\<close>

lemma isFallbackable_class:
  "isFallbackable status = (fallback, cls) \<Longrightarrow> (if fallback then cls = classUpstream else cls \<in> {classNone, classNonFallle})"
  by (auto simp: isFallbackable_def split: if_splits)

lemma classify_response_cases:
  "fr_fallilable (classify_response p resp) \<and> fr_class (classify_response p resp) \<in> {classConnect, classUpstream} \<or>
   \<not> fr_fallilable (classify_response p resp) \<and> fr_resp (classify_response p resp) = Some resp \<and>
   fr_chosen (classify_response p resp) = Some p \<and> fr_provider (classify_response p resp) = mp_Name p"
  using isFallbackable_class [of "hr_Status resp"]
  by (cases "isFallbackable (hr_Status resp)")
     (auto simp: classify_response_def transport_failure_def no_result_def Let_def split: option.split if_splits)

lemma forwardOnce_cases:
  assumes "forwardOnce w r p body path a ta m s = (fr, s')"
  shows "s' = s \<or> (\<exists>rq. s' = emit (Forward p m rq (sv_Held s)) s)"
    "fr_fallilable fr \<and> fr_class fr \<in> {classConnect, classTimeout, classUpstream} \<or>
     \<not> fr_fallilable fr \<and> fr_resp fr \<noteq> None \<and> fr_chosen fr = Some p \<and> fr_provider fr = mp_Name p"
proof -
  show "s' = s \<or> (\<exists>rq. s' = emit (Forward p m rq (sv_Held s)) s)"
    using assms by (auto simp: forwardOnce_def Let_def split: sum.splits option.splits)
  show "fr_fallilable fr \<and> fr_class fr \<in> {classConnect, classTimeout, classUpstream} \<or>
     \<not> fr_fallilable fr \<and> fr_resp fr \<noteq> None \<and> fr_chosen fr = Some p \<and> fr_provider fr = mp_Name p"
    using assms classify_response_cases [of p]
    by (auto simp: forwardOnce_def transport_failure_def Let_def split: sum.splits option.splits if_splits)
qed

lemma candidateRequest_model: "candidateRequest st p body path a ta = (b, q, pa, ca, m) \<Longrightarrow> m = candidateModel st p"
  by (auto simp: candidateRequest_def Let_def split: option.splits if_splits)

lemma llm_attempt_cases:
  assumes "llm_attempt w r body a ta primary p st s = (res, st', s')"
  obtains b q pa ca fr s1 where
    "candidateRequest st p body (rq_Path r) a ta = (b, q, pa, ca, candidateModel st p)"
    "forwardOnce w r p b q pa ca (candidateModel st p) s = (fr, s1)"
    "res = fr\<lparr>fr_model := candidateModel st p, fr_format := formatForType (mps_Type (mp_Spec p))\<rparr>"
    "st' = (if fr_class fr \<noteq> classNone then observe (fr_class fr) st else st)"
    "s' = s1 \<or> (\<exists>reason. s' = emit (Fallback primary (mp_Name p) reason) s1)"
proof -
  obtain b q pa ca m where c: "candidateRequest st p body (rq_Path r) a ta = (b, q, pa, ca, m)" by (metis prod_cases5)
  have m: "m = candidateModel st p" using candidateRequest_model [OF c] .
  obtain fr s1 where f: "forwardOnce w r p b q pa ca m s = (fr, s1)" by fastforce
  show thesis
    using assms unfolding llm_attempt_def c f prod.case Let_def
    by (intro that [OF c [unfolded m] f [unfolded m]]) (auto simp: m split: if_splits)
qed

interpretation llm: candidate_attempt "llm_attempt w r body a ta primary" for w r body a ta primary
proof
  fix p st s res st' s'
  assume "llm_attempt w r body a ta primary p st s = (res, st', s')"
  then obtain b q pa ca fr s1 where
    f: "forwardOnce w r p b q pa ca (candidateModel st p) s = (fr, s1)" and
    e: "res = fr\<lparr>fr_model := candidateModel st p, fr_format := formatForType (mps_Type (mp_Spec p))\<rparr>"
      "st' = (if fr_class fr \<noteq> classNone then observe (fr_class fr) st else st)"
      "s' = s1 \<or> (\<exists>reason. s' = emit (Fallback primary (mp_Name p) reason) s1)"
    by (rule llm_attempt_cases)
  note c = forwardOnce_cases [OF f]
  show "st' = st\<lparr>ws_observed := ws_observed st'\<rparr> \<and> set (ws_observed st) \<subseteq> set (ws_observed st')"
    using e(2) by (auto simp: observe_def)
  show "same_config s s' \<and> sv_Held s' = sv_Held s" using e(3) c(1) by (auto simp: same_config_def server_frame)
  show "\<exists>l. sv_Log s' = sv_Log s @ l \<and> forwards l \<in> {[], [(p, candidateModel st p, sv_Held s)]}"
    using e(3) c(1) by (auto simp: server_frame)
  show "fr_class res \<in> {classConnect, classTimeout, classUpstream} \<inter> set (ws_observed st')" if "fr_fallilable res"
    using that e(1,2) c(2) by auto
  show "fr_resp res \<noteq> None \<and> fr_chosen res = Some p \<and> fr_provider res = mp_Name p" if "\<not> fr_fallilable res"
    using that e(1) c(2) by auto
qed

subsection \<open>The forwarded headers\<close>

lemma hdr_Values_Nil [simp]: "hdr_Values [] k = []"
  by (simp add: hdr_Values_def)

lemma hdr_Values_Dels:
  "hdr_Values (fold hdr_Del ks h) n = (if CanonicalHeaderKey n \<in> CanonicalHeaderKey ` set ks then [] else hdr_Values h n)"
  by (induction ks arbitrary: h) (auto simp: hdr_Values_Del)

lemma hdr_Values_named_Dels:
  "hdr_Values h n = [] \<Longrightarrow>
   hdr_Values (fold (\<lambda>name dst. let name = TrimSpace name in if name \<noteq> [] then hdr_Del name dst else dst) names h) n = []"
  by (induction names arbitrary: h) (auto simp: hdr_Values_Del Let_def)

lemmas canonical_eval = CanonicalHeaderKey_def upper_char_def lower_char_def is_alnum_def token_char_def char_of_def bit_0

lemma canonical_names:
  "map CanonicalHeaderKey authMaterialHeaders = authMaterialHeaders"
  "map CanonicalHeaderKey hopByHopHeaders = [''Connection'', ''Te'', ''Upgrade'', ''Proxy-Authorization'', ''Keep-Alive'', ''Trailer'', ''Transfer-Encoding'']"
  "CanonicalHeaderKey ''Accept-Encoding'' = ''Accept-Encoding''" "CanonicalHeaderKey ''Host'' = ''Host''"
  "CanonicalHeaderKey ''Content-Length'' = ''Content-Length''" "CanonicalHeaderKey ''Content-Type'' = ''Content-Type''"
  "CanonicalHeaderKey ''x-api-key'' = ''X-Api-Key''" "CanonicalHeaderKey ''Authorization'' = ''Authorization''"
  by (simp_all add: canonical_eval authMaterialHeaders_def hopByHopHeaders_def)

definition stripped :: "string list" where
  "stripped = authMaterialHeaders @ hopByHopHeaders @ [''Host'', ''Content-Length'']"

lemma canonical_stripped:
  "CanonicalHeaderKey ` set stripped = {''Authorization'', ''X-Api-Key'', ''Api-Key'', ''Connection'', ''Te'', ''Upgrade'',
     ''Proxy-Authorization'', ''Keep-Alive'', ''Trailer'', ''Transfer-Encoding'', ''Host'', ''Content-Length''}"
  by (simp add: stripped_def image_Un canonical_names set_map [symmetric] del: set_map)
     (simp add: authMaterialHeaders_def hopByHopHeaders_def canonical_eval insert_commute)

lemma copyForwardedHeaders_stripped:
  assumes "CanonicalHeaderKey k \<in> CanonicalHeaderKey ` set stripped"
  shows "hdr_Values (copyForwardedHeaders dst src) k = []"
proof -
  have "CanonicalHeaderKey k \<noteq> ''Accept-Encoding''" using assms unfolding canonical_stripped by auto
  then show ?thesis using assms
    by (auto simp: copyForwardedHeaders_def Let_def hdr_Values_Del hdr_Values_Set hdr_Values_Dels stripped_def canonical_names(3)
        intro!: hdr_Values_named_Dels [unfolded Let_def])
qed

lemma copyForwardedHeaders_identity: "hdr_Values (copyForwardedHeaders dst src) ''Accept-Encoding'' = [''identity'']"
  by (simp add: copyForwardedHeaders_def Let_def hdr_Values_Del hdr_Values_Set canonical_names)

text \<open>The headers of a forwarded request as far as the contract fixes them: the credential headers are
  those the provider's adapter sets with the provider's own credential, and none of the caller's.\<close>

definition header_contract :: "Store \<Rightarrow> ModelProvider \<Rightarrow> upstreamRequest \<Rightarrow> bool" where
  "header_contract store p rq \<longleftrightarrow>
     (\<exists>a cred. Credential store p = Inr cred \<and>
        (case adapterForProviderType (mps_Type (mp_Spec p)) of Some b \<Rightarrow> a = b | None \<Rightarrow> True) \<and>
        (\<forall>k. CanonicalHeaderKey k \<in> CanonicalHeaderKey ` set stripped \<longrightarrow>
             hdr_Values (ur_Header rq) k = hdr_Values (injectCredential a cred []) k)) \<and>
     hdr_Values (ur_Header rq) ''Accept-Encoding'' = [''identity''] \<and>
     hdr_Values (ur_Header rq) ''Content-Type'' = [''application/json'']"

lemma injectCredential_values:
  "hdr_Values (injectCredential a cred h) k =
   (if CanonicalHeaderKey k = (case a of anthropicAdapter \<Rightarrow> ''X-Api-Key'' | _ \<Rightarrow> ''Authorization'')
    then hdr_Values (injectCredential a cred []) k else hdr_Values h k)"
  by (cases a) (auto simp: hdr_Values_Set canonical_names)

lemma injectCredential_empty:
  "CanonicalHeaderKey k \<noteq> (case a of anthropicAdapter \<Rightarrow> ''X-Api-Key'' | _ \<Rightarrow> ''Authorization'') \<Longrightarrow>
   hdr_Values (injectCredential a cred []) k = []"
  by (cases a) (auto simp: hdr_Values_Set canonical_names)

lemma upstream_request_headers:
  assumes "Credential store p = Inr cred"
    "case adapterForProviderType (mps_Type (mp_Spec p)) of Some b \<Rightarrow> a = b | None \<Rightarrow> True"
  shows "header_contract store p (upstream_request r url body a cred)"
proof -
  have ct: "CanonicalHeaderKey ''Content-Type'' \<notin> CanonicalHeaderKey ` set stripped"
    unfolding canonical_stripped canonical_names(6) by simp
  have "hdr_Values (ur_Header (upstream_request r url body a cred)) k = hdr_Values (injectCredential a cred []) k"
    if k: "CanonicalHeaderKey k \<in> CanonicalHeaderKey ` set stripped" for k
    using ct k copyForwardedHeaders_stripped [OF k, of "[]" "rq_Header r"] injectCredential_empty [of k a cred]
      injectCredential_values [of a cred "copyForwardedHeaders [] (rq_Header r)" k]
    by (auto simp: upstream_request_def hdr_Values_Set)
  moreover have "hdr_Values (ur_Header (upstream_request r url body a cred)) ''Accept-Encoding'' = [''identity'']"
    using injectCredential_values [of a cred "copyForwardedHeaders [] (rq_Header r)" "''Accept-Encoding''"]
    by (cases a) (auto simp: upstream_request_def hdr_Values_Set canonical_names copyForwardedHeaders_identity)
  moreover have "hdr_Values (ur_Header (upstream_request r url body a cred)) ''Content-Type'' = [''application/json'']"
    by (simp add: upstream_request_def hdr_Values_Set)
  ultimately show ?thesis unfolding header_contract_def using assms by blast
qed

lemma candidateRequest_adapter:
  "candidateRequest st p body path a ta = (b, q, pa, ca, m) \<Longrightarrow>
   case adapterForProviderType (mps_Type (mp_Spec p)) of Some x \<Rightarrow> ca = x | None \<Rightarrow> True"
  by (auto simp: candidateRequest_def Let_def split: option.splits if_splits)

lemma forwardOnce_request:
  assumes "forwardOnce w r p body path a ta m s = (fr, s')" "s' \<noteq> s"
  obtains cred url where "Credential (sv_Store s) p = Inr cred"
    "s' = emit (Forward p m (upstream_request r url body ta cred) (sv_Held s)) s"
  using assms by (auto simp: forwardOnce_def Let_def split: sum.splits option.splits)

lemma sent_ok_emit:
  "sent_ok sends s \<Longrightarrow> (\<And>p m rq held. e = Forward p m rq held \<Longrightarrow> sends p rq) \<Longrightarrow> sent_ok sends (emit e s)"
  by (auto simp: sent_ok_def server_frame)

lemma forwardOnce_sends:
  assumes "forwardOnce w r p body path a ta m s = (fr, s')" "sent_ok (header_contract (sv_Store s)) s"
    "case adapterForProviderType (mps_Type (mp_Spec p)) of Some x \<Rightarrow> ta = x | None \<Rightarrow> True"
  shows "sent_ok (header_contract (sv_Store s)) s'"
proof (cases "s' = s")
  case False
  then obtain cred url where "Credential (sv_Store s) p = Inr cred"
    "s' = emit (Forward p m (upstream_request r url body ta cred) (sv_Held s)) s"
    using forwardOnce_request [OF assms(1)] by blast
  then show ?thesis using upstream_request_headers [OF _ assms(3)] assms(2) by (auto intro: sent_ok_emit)
qed (use assms(2) in simp)

interpretation llm_sends: forwarding_attempt "llm_attempt w r body a ta primary" store "header_contract store"
  for w r body a ta primary store
proof
  fix p st s res st' s'
  assume a: "llm_attempt w r body a ta primary p st s = (res, st', s')" and st: "sv_Store s = store"
    and ok: "sent_ok (header_contract store) s"
  obtain b q pa ca fr s1 where
    c: "candidateRequest st p body (rq_Path r) a ta = (b, q, pa, ca, candidateModel st p)" and
    f: "forwardOnce w r p b q pa ca (candidateModel st p) s = (fr, s1)" and
    e: "s' = s1 \<or> (\<exists>reason. s' = emit (Fallback primary (mp_Name p) reason) s1)"
    using a by (rule llm_attempt_cases)
  have "sent_ok (header_contract store) s1"
    using forwardOnce_sends [OF f _ candidateRequest_adapter [OF c]] ok st by simp
  then show "sent_ok (header_contract store) s'" using e by (auto intro: sent_ok_emit)
qed

subsection \<open>The steps of the handler around the walk\<close>

text \<open>A step that forwards nothing.\<close>

definition silent :: "Server \<Rightarrow> Server \<Rightarrow> bool" where
  "silent s s' \<longleftrightarrow> same_config s s' \<and> (\<exists>l. sv_Log s' = sv_Log s @ l \<and> forwards l = [])"

lemma silent_same: "same_config s s' \<Longrightarrow> sv_Log s' = sv_Log s \<Longrightarrow> silent s s'"
  by (simp add: silent_def)

lemma silent_refl [simp]: "silent s s"
  by (simp add: silent_def)

lemma silent_trans: "silent a b \<Longrightarrow> silent b c \<Longrightarrow> silent a c"
  unfolding silent_def by (elim conjE exE) (rule conjI, erule same_config_trans, simp, simp)

lemma silent_emit: "silent s t \<Longrightarrow> forwards [e] = [] \<Longrightarrow> silent s (emit e t)"
  by (auto simp: silent_def same_config_def server_frame)

lemma silent_settle_slot: "silent s (settle_slot w h c s)"
  by (rule silent_same) (simp_all add: server_frame)

lemma silent_admit: "admit w p ns wl s = (d, h, s') \<Longrightarrow> silent s s'"
  by (rule silent_same) (simp_all add: admit_frame)

lemma silent_tool_use: "silent s (metric_ServerToolUse p ns tc s)" "sv_Held (metric_ServerToolUse p ns tc s) = sv_Held s"
  by (auto simp: metric_ServerToolUse_def server_frame intro!: silent_emit split: prod.split)

lemma tool_uses:
  "silent s (fold (metric_ServerToolUse p ns) tcs s)" "sv_Held (fold (metric_ServerToolUse p ns) tcs s) = sv_Held s"
  by (induction tcs arbitrary: s) (auto simp: silent_tool_use intro: silent_trans [OF silent_tool_use(1)])

lemma settleUsage_effect:
  "silent s (settleUsage w p ns wl m u slot s)"
  "sv_Held (settleUsage w p ns wl m u slot s) = (case slot of None \<Rightarrow> sv_Held s | Some k \<Rightarrow> remove1 k (sv_Held s))"
proof -
  define t where "t = (let s1 = s\<lparr>sv_Spend := Record ns (mp_Name p) m u (sv_Spend s)\<rparr>
    in if slot \<noteq> None then settle_slot w slot (costOf p m u) s1 else budget_op w (OpAdd p ns wl (costOf p m u)) s1)"
  have t: "settleUsage w p ns wl m u slot s = fold (metric_ServerToolUse (mp_Name p) ns) (ServerTools u)
      (metric_Spend (mp_Name p) ns (costOf p m u) (emit (Tokens (mp_Name p) m ns u) t))"
    by (simp add: settleUsage_def t_def Let_def)
  have "same_config s t" "sv_Log t = sv_Log s"
    using settle_slot_frame(4) [of "s\<lparr>sv_Spend := Record ns (mp_Name p) m u (sv_Spend s)\<rparr>" w slot "costOf p m u"]
    by (auto simp: t_def Let_def same_config_def server_frame)
  then have "silent s t" by (rule silent_same)
  moreover have "silent t (metric_Spend (mp_Name p) ns (costOf p m u) (emit (Tokens (mp_Name p) m ns u) t))"
    by (auto simp: metric_Spend_def intro!: silent_emit)
  ultimately show "silent s (settleUsage w p ns wl m u slot s)"
    unfolding t by (blast intro: silent_trans tool_uses(1))
  have "sv_Held t = (case slot of None \<Rightarrow> sv_Held s | Some k \<Rightarrow> remove1 k (sv_Held s))"
    by (cases slot) (simp_all add: t_def Let_def settle_slot_held server_frame)
  then show "sv_Held (settleUsage w p ns wl m u slot s) = (case slot of None \<Rightarrow> sv_Held s | Some k \<Rightarrow> remove1 k (sv_Held s))"
    unfolding t tool_uses(2) by (simp add: metric_Spend_def server_frame)
qed

lemma settle_effect:
  "silent s (settle_buffered w a res p ns wl m s)" "silent s (settle_stream w p ns wl m u slot s)"
  "sv_Held s = slot_list (fr_settle res) \<Longrightarrow> sv_Held (settle_buffered w a res p ns wl m s) = []"
  "sv_Held s = slot_list slot \<Longrightarrow> sv_Held (settle_stream w p ns wl m u slot s) = []"
  by (auto simp: settle_buffered_def settle_stream_def settleUsage_effect silent_settle_slot settle_slot_held slot_list_def
      split: option.split)

lemma writeWalkResult_effect:
  assumes "writeWalkResult w res a f ns wl m s = Some (rep, m', s')"
  shows "silent s s'" "sv_Held s = slot_list (fr_settle res) \<Longrightarrow> sv_Held s' = []"
proof -
  let ?e = "\<lambda>m x. emit (LLMRequest (fr_provider res) m ns x)"
  obtain resp p where rp: "fr_resp res = Some resp" "fr_chosen res = Some p"
    using assms by (auto simp: writeWalkResult_def split: option.splits)
  have "\<exists>mm. s' = ?e mm ''error'' (settle_slot w (fr_settle res) 0 s) \<or>
     (\<exists>u. s' = settle_stream w p ns wl mm u (fr_settle res) (?e mm ''ok'' s)) \<or>
     (\<exists>b. s' = settle_buffered w b res p ns wl mm (?e mm ''ok'' s))"
    using assms unfolding writeWalkResult_def rp
    by (auto simp: Let_def relayStream_def split: if_splits prod.splits option.splits)
  then obtain mm u b where "s' = ?e mm ''error'' (settle_slot w (fr_settle res) 0 s) \<or>
     s' = settle_stream w p ns wl mm u (fr_settle res) (?e mm ''ok'' s) \<or> s' = settle_buffered w b res p ns wl mm (?e mm ''ok'' s)"
    by blast
  then show "silent s s'" "sv_Held s = slot_list (fr_settle res) \<Longrightarrow> sv_Held s' = []"
    using silent_emit [OF silent_settle_slot] silent_trans [OF silent_emit [OF silent_refl] settle_effect(1)]
      silent_trans [OF silent_emit [OF silent_refl] settle_effect(2)]
    by (auto simp: settle_effect(3,4) server_frame settle_slot_held slot_list_def split: option.splits)
qed

lemma writeWalkResult_answers:
  assumes "fr_resp res = Some resp" "fr_chosen res = Some p"
  shows "\<exists>rep m' s'. writeWalkResult w res a f ns wl m s = Some (rep, m', s')"
  unfolding writeWalkResult_def assms option.case prod.case Let_def by (metis prod_cases3)

lemma applyBudgetDecision_effect:
  assumes "applyBudgetDecision d eng pn ns m s = (ans, m', s')"
  shows "silent s s'" "sv_Held s' = sv_Held s"
  using assms by (auto simp: applyBudgetDecision_def Let_def server_frame intro!: silent_emit split: if_splits)

lemma record_activity_effect: "silent s (record_activity w c s)" "sv_Held (record_activity w c s) = sv_Held s"
  by (auto simp: record_activity_def same_config_def intro!: silent_same split: option.split)

subsection \<open>The whole handler\<close>

text \<open>What a request may have forwarded, and what it has left, once it is answered.\<close>

definition forwards_ok :: "int \<Rightarrow> string \<Rightarrow> Server \<Rightarrow> Server \<Rightarrow> bool" where
  "forwards_ok depth ns s s' \<longleftrightarrow>
     (\<exists>l. sv_Log s' = sv_Log s @ l \<and> length (forwards l) \<le> nat depth \<and> distinct (map (mp_Name \<circ> fst) (forwards l)) \<and>
        (\<forall>(p, m, held)\<in>set (forwards l).
           namespaceGlobAllowed ns (mps_AllowedNamespaces (mp_Spec p)) \<and> offers p m \<and> (\<forall>h\<in>set held. sh_providerName h = mp_Name p)))"

lemma forwards_ok_silent_left: "silent s t \<Longrightarrow> forwards_ok d ns t u \<Longrightarrow> forwards_ok d ns s u"
  unfolding silent_def forwards_ok_def by (elim conjE exE) (rule exI, rule conjI, simp, simp)

lemma forwards_ok_silent_right: "forwards_ok d ns s t \<Longrightarrow> silent t u \<Longrightarrow> forwards_ok d ns s u"
  unfolding silent_def forwards_ok_def by (elim conjE exE) (rule exI, rule conjI, simp, simp)

lemma forwards_ok_silent: "silent s t \<Longrightarrow> forwards_ok d ns s t"
  unfolding silent_def forwards_ok_def by force

definition started :: "settleHandle option \<Rightarrow> ModelProvider \<Rightarrow> Server \<Rightarrow> bool" where
  "started slot provider s \<longleftrightarrow> sv_Held s = slot_list slot \<and> (\<forall>h. slot = Some h \<longrightarrow> sh_providerName h = mp_Name provider)"

lemma start_walk_simps:
  "ws_attemptCount (start_walk s c p m ps parsed f) = 0" "ws_maxDepth (start_walk s c p m ps parsed f) = sv_MaxFallbackDepth s"
  "ws_namespace (start_walk s c p m ps parsed f) = cl_Namespace c" "ws_visited (start_walk s c p m ps parsed f) = []"
  "ws_observed (start_walk s c p m ps parsed f) = []" "ws_primary (start_walk s c p m ps parsed f) = p"
  "ws_primarySettle (start_walk s c p m ps parsed f) = ps"
  by (simp_all add: start_walk_def)

lemma started_walk:
  "started ps p s \<Longrightarrow> settle_named (start_walk s c p m ps parsed f) \<and> slots_before p (start_walk s c p m ps parsed f) s"
  by (auto simp: started_def settle_named_def slots_before_def start_walk_def)

lemma walk_effect:
  assumes "tryWithFallbacks w (llm_attempt w r body a ta primary) p (start_walk s c p m ps parsed f) s = Some ((res, ok), st', s')"
    "started ps p s"
  shows "forwards_ok (sv_MaxFallbackDepth s) (cl_Namespace c) s s'" "same_config s s'"
    "sv_Held s' = (if ok then slot_list (fr_settle res) else sv_Held s') \<and> (\<not> ok \<longrightarrow> sv_Held s' \<in> {[], slot_list ps})"
proof -
  let ?st = "start_walk s c p m ps parsed f"
  have t: "tries w (llm_attempt w r body a ta primary) p ?st s res ok st' s'"
    using assms(1) try_walk unfolding tryWithFallbacks_def by blast
  note pr = llm.walk_progress(1) [OF t, unfolded progress_def start_walk_simps]
  note sl = llm.walk_slots(1) [OF t conjunct1 [OF started_walk [OF assms(2)]] conjunct2 [OF started_walk [OF assms(2)]], unfolded llm.left_def]
  show "same_config s s'" using pr by simp
  show "sv_Held s' = (if ok then slot_list (fr_settle res) else sv_Held s') \<and> (\<not> ok \<longrightarrow> sv_Held s' \<in> {[], slot_list ps})"
    using sl assms(2) by (auto simp: started_def split: if_splits)
  obtain l where l: "sv_Log s' = sv_Log s @ l" "distinct (map (mp_Name \<circ> fst) (forwards l))"
    "int (length (forwards l)) \<le> ws_attemptCount st'" "\<forall>(p, m, held)\<in>set (forwards l). eligible ?st p m"
    using pr by auto
  have "\<forall>(p, m, held)\<in>set (forwards l). \<forall>h\<in>set held. sh_providerName h = mp_Name p"
    using conjunct1 [OF sl] l(1) by (auto simp: tidy_def)
  moreover have "length (forwards l) \<le> nat (sv_MaxFallbackDepth s)" using l(3) pr by auto
  ultimately show "forwards_ok (sv_MaxFallbackDepth s) (cl_Namespace c) s s'"
    unfolding forwards_ok_def using l(1,2,4) by (intro exI [of _ l]) (auto simp: eligible_def start_walk_simps)
qed

lemma walk_and_write_effect:
  assumes "started ps p s"
  obtains rep answered m' s' where "walk_and_write w r c a ta p pn m ps parsed s = Some (rep, answered, m', s')"
    "forwards_ok (sv_MaxFallbackDepth s) (cl_Namespace c) s s'" "sv_Held s' \<in> {[], slot_list ps}"
proof -
  let ?body = "print_json (JObj parsed)" and ?f = "inbound_format r a"
  let ?st = "start_walk s c p m ps parsed ?f"
  obtain res ok st' s1 where t: "tryWithFallbacks w (llm_attempt w r ?body a ta (mp_Name p)) p ?st s = Some ((res, ok), st', s1)"
    using llm.walk_returns by blast
  note e = walk_effect [OF t assms]
  show thesis
  proof (cases ok)
    case True
    obtain resp q where "fr_resp res = Some resp" "fr_chosen res = Some q"
      using llm.walk_answer(1) try_walk t True unfolding tryWithFallbacks_def by metis
    then obtain rep m' s2 where wr: "writeWalkResult w res a ?f (cl_Namespace c) (workloadKey c) m s1 = Some (rep, m', s2)"
      using writeWalkResult_answers by blast
    show thesis
    proof (rule that)
      show "walk_and_write w r c a ta p pn m ps parsed s = Some (rep, fr_provider res, m', s2)"
        using t True wr by (simp add: walk_and_write_def Let_def)
      show "forwards_ok (sv_MaxFallbackDepth s) (cl_Namespace c) s s2"
        by (rule forwards_ok_silent_right [OF e(1) writeWalkResult_effect(1) [OF wr]])
      show "sv_Held s2 \<in> {[], slot_list ps}" using writeWalkResult_effect(2) [OF wr] e(3) True by simp
    qed
  next
    case False
    obtain status b ra where x: "exhaustionError (ws_observed st') (ws_maxRetryAfter st') pn = (status, b, ra)" by (metis prod_cases3)
    let ?s2 = "emit (LLMRequest pn m (cl_Namespace c) ''error'') s1"
    show thesis
    proof (rule that)
      show "walk_and_write w r c a ta p pn m ps parsed s = Some (writeError status b ra, pn, m, ?s2)"
        using t False x by (simp add: walk_and_write_def Let_def)
      show "forwards_ok (sv_MaxFallbackDepth s) (cl_Namespace c) s ?s2"
        by (rule forwards_ok_silent_right [OF e(1)]) (auto intro: silent_emit)
      show "sv_Held ?s2 \<in> {[], slot_list ps}" using e(3) False by (simp add: server_frame)
    qed
  qed
qed

lemma settle_last: "sv_Held s \<in> {[], slot_list ps} \<Longrightarrow> sv_Held (settle_slot w ps c s) = []"
  by (auto simp: settle_slot_held slot_list_def split: option.splits)

lemma admitted_request_effect:
  assumes "sv_Held s = []"
  obtains rep s' where "admitted_request w r c a ta p pn m parsed s = Some (rep, s')"
    "forwards_ok (sv_MaxFallbackDepth s) (cl_Namespace c) s s'" "sv_Held s' = []"
proof -
  obtain d ps s1 where ad: "admit w p (cl_Namespace c) (workloadKey c) s = (d, ps, s1)" by (metis prod_cases3)
  obtain ans m1 s2 where bu: "applyBudgetDecision d (ps \<noteq> None) pn (cl_Namespace c) m s1 = (ans, m1, s2)" by (metis prod_cases3)
  obtain ok rl where al: "Allow (sv_RateLimiter s2) (wd_Clock w (sv_Step s2)) p (cl_Namespace c) m1 = (ok, rl)" by fastforce
  let ?s3 = "s2\<lparr>sv_RateLimiter := rl\<rparr>" and ?parsed = "fixupRequestBody a (with_model m1 parsed)"
  have h2: "sv_Held s2 = slot_list ps" using admit_frame(4) [OF ad] applyBudgetDecision_effect(2) [OF bu] assms
    by (simp add: slot_list_def)
  have q2: "silent s s2" using silent_admit [OF ad] applyBudgetDecision_effect(1) [OF bu] by (rule silent_trans)
  have "silent s2 ?s3" by (rule silent_same) (simp_all add: same_config_def)
  then have q3: "silent s ?s3" by (rule silent_trans [OF q2])
  show thesis
  proof (cases ans)
    case (Some denied)
    show thesis
      by (rule that [of denied "settle_slot w ps 0 s2"])
         (use ad bu Some h2 in \<open>auto simp: admitted_request_def intro!: forwards_ok_silent silent_trans [OF q2] silent_settle_slot settle_last\<close>)
  next
    case None
    show thesis
    proof (cases ok)
      case False
      let ?s4 = "emit (LLMRequest pn m1 (cl_Namespace c) ''rate_limited'') ?s3"
      have "silent s (settle_slot w ps 0 ?s4)" by (rule silent_trans [OF silent_emit [OF q3] silent_settle_slot]) simp
      then show thesis
        by (intro that [of _ "settle_slot w ps 0 ?s4"])
           (use ad bu None al False h2 in \<open>auto simp: admitted_request_def Let_def server_frame intro!: forwards_ok_silent settle_last\<close>)
    next
      case True
      let ?s4 = "record_activity w c ?s3"
      have q4: "silent s ?s4" by (rule silent_trans [OF q3 record_activity_effect(1)])
      have "started ps p ?s4" using h2 admit_frame(5) [OF ad] by (auto simp: started_def record_activity_effect)
      then obtain rep answered m' s5 where ww: "walk_and_write w r c a ta p pn m1 ps ?parsed ?s4 = Some (rep, answered, m', s5)"
        "forwards_ok (sv_MaxFallbackDepth ?s4) (cl_Namespace c) ?s4 s5" "sv_Held s5 \<in> {[], slot_list ps}"
        by (rule walk_and_write_effect)
      have "silent s5 (settle_slot w ps 0 (emit (Duration answered m') s5))"
        by (rule silent_trans [OF silent_emit [OF silent_refl] silent_settle_slot]) simp
      moreover have "sv_MaxFallbackDepth ?s4 = sv_MaxFallbackDepth s" using q4 by (simp add: silent_def same_config_def)
      ultimately have "forwards_ok (sv_MaxFallbackDepth s) (cl_Namespace c) s (settle_slot w ps 0 (emit (Duration answered m') s5))"
        using forwards_ok_silent_left [OF q4] forwards_ok_silent_right ww(2) by metis
      then show thesis
        by (intro that [of rep "settle_slot w ps 0 (emit (Duration answered m') s5)"])
           (use ad bu None al True ww(1,3) in \<open>auto simp: admitted_request_def Let_def server_frame intro!: settle_last\<close>)
    qed
  qed
qed

lemma handler_cases:
  obtains rep where "handleLLMProxy w r c s = Some (rep, s)"
  | a ta p pn m parsed where "handleLLMProxy w r c s = admitted_request w r c a ta p pn m parsed s"
      "authorizeRoute (sv_Store s) c pn m = Inr p"
proof -
  let ?q = "\<lambda>parsed. splitQualifiedModel (case mlookup parsed ''model'' of Some (JStr q) \<Rightarrow> q | _ \<Rightarrow> [])"
  note h = handleLLMProxy_def [of w r c s]
  consider "adapterForPath (rq_Path r) = None \<or> sv_MaxBodyBytes s < int (length (rq_Body r)) \<or> rq_BodyErr r \<noteq> None \<or>
      Unmarshal_any_map (ParseJSON (rq_Body r)) = None"
    | a parsed where "adapterForPath (rq_Path r) = Some a" "\<not> sv_MaxBodyBytes s < int (length (rq_Body r))" "rq_BodyErr r = None"
      "Unmarshal_any_map (ParseJSON (rq_Body r)) = Some parsed"
    by (cases "adapterForPath (rq_Path r)"; cases "Unmarshal_any_map (ParseJSON (rq_Body r))") blast+
  then show thesis
  proof cases
    case 1
    then have "\<exists>rep. handleLLMProxy w r c s = Some (rep, s)" unfolding h by (force split: option.split)
    then show thesis using that(1) by blast
  next
    case (2 a parsed)
    show thesis
    proof (cases "?q parsed")
      case None
      then show thesis using 2 h by (intro that(1)) simp
    next
      case (Some pm)
      obtain pn m where pm: "pm = (pn, m)" by (cases pm)
      show thesis
      proof (cases "authorizeRoute (sv_Store s) c pn m")
        case (Inl d)
        then show thesis using 2 Some pm h by (intro that(1)) simp
      next
        case (Inr p)
        show thesis
        proof (cases "adapterForProviderType (mps_Type (mp_Spec p))")
          case None
          then show thesis using 2 Some pm Inr h by (intro that(1)) simp
        next
          case (Some ta)
          then show thesis using 2 \<open>?q parsed = Some pm\<close> pm Inr h by (intro that(2) [OF _ Inr]) simp
        qed
      qed
    qed
  qed
qed

lemma handler_effect:
  assumes "sv_Held s = []"
  obtains rep s' where "handleLLMProxy w r c s = Some (rep, s')" "forwards_ok (sv_MaxFallbackDepth s) (cl_Namespace c) s s'" "sv_Held s' = []"
  by (rule handler_cases [of w r c s])
     (use assms that forwards_ok_silent [OF silent_refl] admitted_request_effect [OF assms] in metis)+

text \<open>The requests sent by the handler.\<close>

lemma sent_silent: "silent s t \<Longrightarrow> sent_ok sends s \<Longrightarrow> sent_ok sends t"
  unfolding silent_def using sent_ok_silent by blast

lemma walk_and_write_sends:
  assumes "walk_and_write w r c a ta p pn m ps parsed s = Some (rep, answered, m', s')" "sent_ok (header_contract (sv_Store s)) s"
  shows "sent_ok (header_contract (sv_Store s)) s'"
proof -
  let ?st = "start_walk s c p m ps parsed (inbound_format r a)"
  obtain res ok st' s1 where t: "tryWithFallbacks w (llm_attempt w r (print_json (JObj parsed)) a ta (mp_Name p)) p ?st s = Some ((res, ok), st', s1)"
    using llm.walk_returns by blast
  have "llm_sends.sending (sv_Store s) s1"
    using llm_sends.walk_sends(1) try_walk t assms(2) unfolding tryWithFallbacks_def llm_sends.sending_def by metis
  then have "sent_ok (header_contract (sv_Store s)) s1" by (simp add: llm_sends.sending_def)
  moreover have "silent s1 s'"
    using assms(1) t by (auto simp: walk_and_write_def Let_def intro!: silent_emit dest: writeWalkResult_effect(1) split: if_splits prod.splits)
  ultimately show ?thesis by (rule sent_silent [rotated])
qed

lemma admitted_request_sends:
  assumes "admitted_request w r c a ta p pn m parsed s = Some (rep, s')" "sent_ok (header_contract (sv_Store s)) s"
  shows "sent_ok (header_contract (sv_Store s)) s'"
proof -
  obtain d ps s1 where ad: "admit w p (cl_Namespace c) (workloadKey c) s = (d, ps, s1)" by (metis prod_cases3)
  obtain ans m1 s2 where bu: "applyBudgetDecision d (ps \<noteq> None) pn (cl_Namespace c) m s1 = (ans, m1, s2)" by (metis prod_cases3)
  obtain ok rl where al: "Allow (sv_RateLimiter s2) (wd_Clock w (sv_Step s2)) p (cl_Namespace c) m1 = (ok, rl)" by fastforce
  let ?s3 = "s2\<lparr>sv_RateLimiter := rl\<rparr>"
  let ?s4 = "record_activity w c ?s3"
  have "silent s s2" using silent_admit [OF ad] applyBudgetDecision_effect(1) [OF bu] by (rule silent_trans)
  moreover have "silent s2 ?s3" by (rule silent_same) (simp_all add: same_config_def)
  ultimately have q: "silent s s2" "silent s ?s3" "silent s ?s4"
    using record_activity_effect(1) silent_trans by blast+
  have ok4: "sent_ok (header_contract (sv_Store ?s4)) ?s4" "sv_Store ?s4 = sv_Store s"
    using sent_silent [OF q(3) assms(2)] q(3) by (simp_all add: silent_def same_config_def)
  consider "s' = settle_slot w ps 0 s2" | "s' = settle_slot w ps 0 (emit (LLMRequest pn m1 (cl_Namespace c) ''rate_limited'') ?s3)"
    | rep answered m' s5 where "walk_and_write w r c a ta p pn m1 ps (fixupRequestBody a (with_model m1 parsed)) ?s4 = Some (rep, answered, m', s5)"
        "s' = settle_slot w ps 0 (emit (Duration answered m') s5)"
    using assms(1) ad bu al by (auto simp: admitted_request_def Let_def split: option.splits if_splits)
  then show ?thesis
  proof cases
    case 1
    then show ?thesis using sent_silent [OF silent_trans [OF q(1) silent_settle_slot] assms(2)] by simp
  next
    case 2
    then show ?thesis using sent_silent [OF silent_trans [OF silent_emit [OF q(2)] silent_settle_slot] assms(2)] by simp
  next
    case 3
    then show ?thesis
      using sent_silent [OF silent_trans [OF silent_emit [OF silent_refl] silent_settle_slot] walk_and_write_sends [OF 3(1) ok4(1)]] ok4(2)
      by simp
  qed
qed

subsection \<open>A concrete request\<close>

definition sample_llm_request :: httpRequest where
  "sample_llm_request = sample_request\<lparr>rq_Header := [(''Authorization'', [''Bearer caller''])],
     rq_Body := ''{'' @ [dquote] @ ''model'' @ [dquote] @ '':'' @ [dquote] @ ''main/big'' @ [dquote] @ ''}''\<rparr>"

text \<open>A replica whose ledger has 97 of the 100 dollars of the namespace spent, in front of an upstream
  that refuses connections.\<close>

definition sample_server :: Server where
  "sample_server =
     \<lparr>sv_Store = sample_store, sv_MaxBodyBytes = 1000, sv_MaxFallbackDepth = 3, sv_MCPMaxBodyBytes = 0, sv_SessionKey = ''key'', sv_Recorder = True,
      sv_Budget = fold (apply_op 0) (butlast sample_ops) \<lparr>as_ledger = NewBudgetLedger, as_inflight = [], as_now = 0\<rparr>,
      sv_Held = [], sv_Step = 0, sv_Spend = [], sv_RateLimiter = NewRateLimiter None, sv_Activity = NewActivityStore 0, sv_Log = []\<rparr>"

definition sample_world :: world where
  "sample_world =
     \<lparr>wd_Upstream = (\<lambda>n rq. Inl \<lparr>te_Text = ''connection refused'', te_Deadline = False, te_Context = False\<rparr>), wd_Clock = (\<lambda>n. 0),
      wd_Others = (\<lambda>n. []), wd_RequestErr = (\<lambda>m u. None), wd_Accepts = (\<lambda>n. True), wd_DecodeErr = (\<lambda>b. [])\<rparr>"

lemma sample_parse: "Unmarshal_any_map (ParseJSON (rq_Body sample_llm_request)) = Some [(''model'', JStr ''main/big'')]"
  by (simp add: sample_llm_request_def kaalm_eval Let_def eval_nat_numeral)

lemma sample_authorized: "authorizeRoute sample_store sample_caller ''main'' ''big'' = Inr sample_provider"
  by (simp add: sample_store_def kaalm_eval Let_def eval_nat_numeral)

definition sample_slot :: settleHandle where
  "sample_slot = sample_handle\<lparr>sh_workload := ''agent/bot''\<rparr>"

lemma sample_route:
  "handleLLMProxy sample_world sample_llm_request sample_caller sample_server =
   admitted_request sample_world sample_llm_request sample_caller anthropicAdapter anthropicAdapter sample_provider ''main'' ''big''
     [(''model'', JStr ''main/big'')] sample_server"
proof -
  have "adapterForPath (rq_Path sample_llm_request) = Some anthropicAdapter" "rq_BodyErr sample_llm_request = None"
    "\<not> sv_MaxBodyBytes sample_server < int (length (rq_Body sample_llm_request))" "sv_Store sample_server = sample_store"
    "adapterForProviderType (mps_Type (mp_Spec sample_provider)) = Some anthropicAdapter"
    "splitQualifiedModel ''main/big'' = Some (''main'', ''big'')"
    by (simp_all add: sample_llm_request_def sample_server_def kaalm_eval Let_def)
  then show ?thesis using sample_parse sample_authorized by (simp add: handleLLMProxy_def)
qed

lemma sample_admit:
  "\<exists>d s1. admit sample_world sample_provider ''team'' ''agent/bot'' sample_server = (d, Some sample_slot, s1) \<and>
     bd_Action d = BudgetActionDegrade \<and> bd_DegradeTo d = ''small'' \<and> sv_RateLimiter s1 = NewRateLimiter None"
  by (simp add: sample_slot_def sample_handle_def sample_ops_def sample_server_def sample_world_def kaalm_eval Let_def tracked_scheme_def)

lemma sample_attempt:
  assumes "sv_Store s = sample_store" "ws_modelID st = ''small''" "ws_modelFor st = [(''main'', ''small'')]" "ws_inboundFormat st = ''anthropic''"
  shows "\<exists>res rq. llm_attempt sample_world r body anthropicAdapter anthropicAdapter ''main'' sample_provider st s =
     (res, observe classConnect st, emit (Forward sample_provider ''small'' rq (sv_Held s)) s) \<and> \<not> success res \<and> fr_fallilable res \<and> fr_resp res = None"
proof -
  have "\<not> crosses st sample_provider" "candidateModel st sample_provider = ''small''"
    using assms by (simp_all add: crosses_def formatForType_def ProviderFormat_def sample_provider_def candidateModel_def ProviderTypeAnthropic_def FormatAnthropic_def ProviderTypeOpenAICompatible_def)
  moreover have "adapterForProviderType (mps_Type (mp_Spec sample_provider)) = Some anthropicAdapter" "mp_Name sample_provider = ''main''"
    by (simp_all add: sample_provider_def adapterForProviderType_def)
  moreover have "\<not> Contains ''connection refused'' ''context deadline exceeded''" by (simp add: kaalm_eval)
  ultimately show ?thesis using assms
    by (simp add: llm_attempt_def candidateRequest_def forwardOnce_def sample_world_def sample_store_def Let_def transport_failure_def no_result_def success_def)
      blast
qed

lemma sample_walk:
  assumes "sv_Store s = sample_store" "sv_Held s = [sample_slot]" "sv_MaxFallbackDepth s = 3"
  shows "\<exists>res st' rq. tryWithFallbacks sample_world (llm_attempt sample_world r body anthropicAdapter anthropicAdapter ''main'') sample_provider
      (start_walk s sample_caller sample_provider ''small'' (Some sample_slot) parsed ''anthropic'') s =
     Some ((res, False), st', settle_slot sample_world (Some sample_slot) 0 (emit (Forward sample_provider ''small'' rq [sample_slot]) s)) \<and>
     ws_observed st' = [classConnect]"
proof -
  let ?st = "start_walk s sample_caller sample_provider ''small'' (Some sample_slot) parsed ''anthropic''"
  let ?v = "visit sample_provider ?st"
  have st: "staticallyIneligible sample_provider ?v = ([], ?v)"
  proof -
    have "\<not> crosses ?v sample_provider" "candidateModel ?v sample_provider = ''small''" "offers sample_provider ''small''"
      by (simp_all add: crosses_def formatForType_def ProviderFormat_def sample_provider_def candidateModel_def ProviderTypeAnthropic_def
         FormatAnthropic_def ProviderTypeOpenAICompatible_def visit_def start_walk_def offers_def)
    moreover have "Match ''team'' ''team''" by (simp add: Match_plain plain_char_def backslash_def)
    then have "namespaceGlobAllowed (ws_namespace ?v) (mps_AllowedNamespaces (mp_Spec sample_provider))"
      by (simp add: namespaceGlobAllowed_def visit_def start_walk_def sample_caller_def sample_provider_def)
    ultimately show ?thesis by (simp add: staticallyIneligible_def translate_for_def Let_def visit_def start_walk_def)
  qed
  have ad: "admit_candidate sample_world sample_provider (count_attempt ?v) s = (Granted (Some sample_slot), count_attempt ?v, s)"
    by (simp add: admit_candidate_def count_attempt_def visit_def start_walk_def)
  obtain res rq where at: "llm_attempt sample_world r body anthropicAdapter anthropicAdapter ''main'' sample_provider (count_attempt ?v) s =
     (res, observe classConnect (count_attempt ?v), emit (Forward sample_provider ''small'' rq (sv_Held s)) s)"
     "\<not> success res" "fr_fallilable res" "fr_resp res = None"
    using sample_attempt [of s "count_attempt ?v" r body] assms(1) by (auto simp: count_attempt_def visit_def start_walk_def sample_provider_def)
  have f: "walk_fuel ?st = Suc 3" "ws_visited ?st = []" "mps_Fallback (mp_Spec sample_provider) = []"
    "ws_attemptCount ?v < ws_maxDepth ?v"
    using assms(3) by (simp_all add: walk_fuel_def start_walk_def sample_provider_def visit_def)
  show ?thesis
    unfolding tryWithFallbacks_def f(1) try_fuel_Suc using st ad at f assms(2)
    by (auto simp: or_else_def credential_event_def observe_def count_attempt_def visit_def start_walk_def)
qed

lemma sample_answer:
  "\<exists>rep s' rq. handleLLMProxy sample_world sample_llm_request sample_caller sample_server = Some (rep, s') \<and>
     Forward sample_provider ''small'' rq [sample_slot] \<in> set (sv_Log s') \<and> rp_Status rep = 503"
proof -
  obtain d s1 where ad: "admit sample_world sample_provider ''team'' ''agent/bot'' sample_server = (d, Some sample_slot, s1)"
    "bd_Action d = BudgetActionDegrade" "bd_DegradeTo d = ''small''" "sv_RateLimiter s1 = NewRateLimiter None"
    using sample_admit by blast
  have d: "\<not> bd_Unavailable d" "\<not> bd_Throttled d" using admit_granted [OF ad(1)] by simp_all
  obtain s2 where bu: "applyBudgetDecision d True ''main'' ''team'' ''big'' s1 = (None, ''small'', s2)" "sv_RateLimiter s2 = sv_RateLimiter s1"
    using ad(2,3) d by (auto simp: applyBudgetDecision_def Let_def budget_action_defs server_frame)
  obtain rl where al: "Allow (sv_RateLimiter s2) (wd_Clock sample_world (sv_Step s2)) sample_provider ''team'' ''small'' = (True, rl)"
    by (simp add: bu(2) ad(4) sample_world_def kaalm_eval Let_def)
  let ?s3 = "record_activity sample_world sample_caller (s2\<lparr>sv_RateLimiter := rl\<rparr>)"
  have cf: "same_config sample_server s1" "same_config s1 s2" "same_config (s2\<lparr>sv_RateLimiter := rl\<rparr>) ?s3"
    using admit_frame(3) [OF ad(1)] applyBudgetDecision_effect(1) [OF bu(1)] record_activity_effect(1) [of "s2\<lparr>sv_RateLimiter := rl\<rparr>"]
    by (simp_all add: silent_def)
  have w3: "sv_Store ?s3 = sample_store" "sv_MaxFallbackDepth ?s3 = 3"
    using cf by (auto simp: same_config_def sample_server_def)
  have "sv_Held ?s3 = [sample_slot]"
    using admit_frame(4) [OF ad(1)] applyBudgetDecision_effect(2) [OF bu(1)] by (simp add: record_activity_effect sample_server_def)
  from sample_walk [OF w3(1) this w3(2)] obtain res st' rq where wk:
    "tryWithFallbacks sample_world (llm_attempt sample_world sample_llm_request
        (print_json (JObj (fixupRequestBody anthropicAdapter (with_model ''small'' [(''model'', JStr ''main/big'')])))) anthropicAdapter anthropicAdapter ''main'')
       sample_provider (start_walk ?s3 sample_caller sample_provider ''small'' (Some sample_slot)
          (fixupRequestBody anthropicAdapter (with_model ''small'' [(''model'', JStr ''main/big'')])) ''anthropic'') ?s3 =
     Some ((res, False), st', settle_slot sample_world (Some sample_slot) 0 (emit (Forward sample_provider ''small'' rq [sample_slot]) ?s3))"
    "ws_observed st' = [classConnect]" by blast
  have e: "cl_Namespace sample_caller = ''team''" "workloadKey sample_caller = ''agent/bot''" "mp_Name sample_provider = ''main''"
    "inbound_format sample_llm_request anthropicAdapter = ''anthropic''"
    by (simp_all add: sample_caller_def workloadKey_def KindAgent_def KindAgentTask_def sample_provider_def inbound_format_def sample_llm_request_def
        sample_request_def formatForType_def ProviderFormat_def ProviderTypeAnthropic_def FormatAnthropic_def ProviderTypeOpenAICompatible_def)
  show ?thesis
    unfolding sample_route admitted_request_def walk_and_write_def Let_def e
    using ad(1) bu(1) al wk by (auto simp: exhaustionError_def server_frame)
qed

subsection \<open>Streams\<close>

lemma write_lines_accepted: "\<forall>k. wd_Accepts w k \<Longrightarrow> write_lines w ls written = (written @ ls, True)"
  by (induction ls arbitrary: written) auto

subsection \<open>Properties\<close>

text \<open>The state in which a request starts: nothing held and nothing logged.\<close>

definition fresh :: "Server \<Rightarrow> bool" where
  "fresh s \<longleftrightarrow> sv_Held s = [] \<and> sv_Log s = []"

text \<open>Property C2. The proxy answers every request: whatever the providers' fallback references look
  like (cycles and diamonds included), whatever the upstreams answer and whatever other requests do to
  the ledger in the meantime, the handler writes a reply, and it has released every boundary admission
  it was granted.\<close>
theorem proxy_answers_and_releases:
  assumes "sv_Held s = []"
  shows "\<exists>rep s'. handleLLMProxy w r c s = Some (rep, s') \<and> sv_Held s' = []"
  using handler_effect [OF assms, of w r c] by metis

theorem proxy_answers_and_releases_witness:
  "\<exists>rep s'. handleLLMProxy sample_world sample_llm_request sample_caller sample_server = Some (rep, s') \<and> sv_Held s' = []"
  by (rule proxy_answers_and_releases) (simp add: sample_server_def)

text \<open>Property C5. The attempt budget bounds the whole walk: a request is forwarded at most
  \<^verbatim>\<open>MaxFallbackDepth\<close> times and never twice to the same provider, and each provider it was forwarded to
  admits the caller's namespace and offers the model it was asked for.\<close>
theorem proxy_forwards_bounded:
  assumes "fresh s" "handleLLMProxy w r c s = Some (rep, s')"
  shows "length (forwards (sv_Log s')) \<le> nat (sv_MaxFallbackDepth s) \<and> distinct (map (mp_Name \<circ> fst) (forwards (sv_Log s'))) \<and>
    (\<forall>(p, m, held)\<in>set (forwards (sv_Log s')). namespaceGlobAllowed (cl_Namespace c) (mps_AllowedNamespaces (mp_Spec p)) \<and> offers p m)"
proof -
  have "forwards_ok (sv_MaxFallbackDepth s) (cl_Namespace c) s s'"
    using handler_effect [of s w r c] assms by (metis fresh_def option.inject prod.inject)
  then show ?thesis using assms(1) by (auto simp: forwards_ok_def fresh_def)
qed

lemma sample_fresh: "fresh sample_server"
  by (simp add: fresh_def sample_server_def)

theorem proxy_forwards_bounded_witness:
  "\<exists>rep s' rq. handleLLMProxy sample_world sample_llm_request sample_caller sample_server = Some (rep, s') \<and>
     Forward sample_provider ''small'' rq [sample_slot] \<in> set (sv_Log s') \<and> length (forwards (sv_Log s')) \<le> 3"
proof -
  obtain rep s' rq where h: "handleLLMProxy sample_world sample_llm_request sample_caller sample_server = Some (rep, s')"
    "Forward sample_provider ''small'' rq [sample_slot] \<in> set (sv_Log s')"
    using sample_answer by blast
  have "sv_MaxFallbackDepth sample_server = 3" by (simp add: sample_server_def)
  then show ?thesis using h proxy_forwards_bounded [OF sample_fresh h(1)] by auto
qed

text \<open>Property C6. No admission slot is held across another provider's upstream call: whenever a
  request is forwarded, every boundary slot it holds at that moment is one of the provider it is
  forwarded to.\<close>
theorem proxy_holds_no_foreign_slot:
  assumes "fresh s" "handleLLMProxy w r c s = Some (rep, s')" "Forward p m rq held \<in> set (sv_Log s')" "h \<in> set held"
  shows "sh_providerName h = mp_Name p"
proof -
  have "forwards_ok (sv_MaxFallbackDepth s) (cl_Namespace c) s s'"
    using handler_effect [of s w r c] assms by (metis fresh_def option.inject prod.inject)
  moreover have "(p, m, held) \<in> set (forwards l)" if "Forward p m rq held \<in> set l" for l
    using that by (induction l rule: forwards.induct) auto
  ultimately show ?thesis using assms(1,3,4) by (fastforce simp: forwards_ok_def fresh_def)
qed

theorem proxy_holds_no_foreign_slot_witness:
  "\<exists>rep s' rq. handleLLMProxy sample_world sample_llm_request sample_caller sample_server = Some (rep, s') \<and>
     Forward sample_provider ''small'' rq [sample_slot] \<in> set (sv_Log s') \<and> sh_providerName sample_slot = mp_Name sample_provider"
proof -
  obtain rep s' rq where h: "handleLLMProxy sample_world sample_llm_request sample_caller sample_server = Some (rep, s')"
    "Forward sample_provider ''small'' rq [sample_slot] \<in> set (sv_Log s')"
    using sample_answer by blast
  have "sh_providerName sample_slot = mp_Name sample_provider"
    by (rule proxy_holds_no_foreign_slot [OF sample_fresh h]) simp
  then show ?thesis using h by blast
qed



text \<open>Property C38. The budget answers of an exhausted walk are never given: the primary is not
  admitted again during the walk, so a walk that tried anything has seen an upstream failure, and the
  caller gets 502, 503 or 504 with a provider error that is not retryable. The branches of
  \<^verbatim>\<open>exhaustionError\<close> for budget-only walks are dead.\<close>
theorem exhausted_walk_is_provider_error:
  assumes "tryWithFallbacks w (llm_attempt w r body a ta primary) p (start_walk s c p m ps parsed f) s = Some ((res, False), st', s')"
    "exhaustionError (ws_observed st') (ws_maxRetryAfter st') pn = (status, b, ra)"
  shows "(status, eb_Type b) \<in> {(502, errProviderError), (503, errProviderUnavailable), (504, errProviderTimeout)} \<and>
    \<not> eb_Retryable b \<and> ra = 0"
proof -
  let ?st = "start_walk s c p m ps parsed f"
  have "tries w (llm_attempt w r body a ta primary) p ?st s res False st' s'"
    using assms(1) try_walk unfolding tryWithFallbacks_def by blast
  then have "ws_observed st' = [] \<or> (\<exists>x\<in>set (ws_observed st'). x \<in> {classConnect, classTimeout, classUpstream})"
    using llm.primary_exhausted [of w _ _ _ _ _ _ ?st] by (simp add: start_walk_simps)
  then have "\<not> (0 < length (ws_observed st') \<and> list_all (\<lambda>c. c = classBudget \<or> c = classBudgetUnavailable) (ws_observed st'))"
    by (auto simp: list_all_iff)
  then show ?thesis using assms(2) by (auto simp: exhaustionError_def Let_def split: if_splits)
qed

theorem exhausted_walk_is_provider_error_witness:
  "\<exists>res st' s' b. tryWithFallbacks sample_world (llm_attempt sample_world sample_llm_request [] anthropicAdapter anthropicAdapter ''main'')
      sample_provider (start_walk (sample_server\<lparr>sv_Held := [sample_slot]\<rparr>) sample_caller sample_provider ''small'' (Some sample_slot) [] ''anthropic'')
      (sample_server\<lparr>sv_Held := [sample_slot]\<rparr>) = Some ((res, False), st', s') \<and>
    exhaustionError (ws_observed st') (ws_maxRetryAfter st') ''main'' = (503, b, 0) \<and> \<not> eb_Retryable b"
proof -
  let ?s = "sample_server\<lparr>sv_Held := [sample_slot]\<rparr>"
  obtain res st' rq where h: "tryWithFallbacks sample_world (llm_attempt sample_world sample_llm_request [] anthropicAdapter anthropicAdapter ''main'')
      sample_provider (start_walk ?s sample_caller sample_provider ''small'' (Some sample_slot) [] ''anthropic'') ?s =
      Some ((res, False), st', settle_slot sample_world (Some sample_slot) 0 (emit (Forward sample_provider ''small'' rq [sample_slot]) ?s))"
    "ws_observed st' = [classConnect]"
    using sample_walk [of ?s sample_llm_request "[]" "[]"] by (auto simp: sample_server_def)
  obtain b where x: "exhaustionError (ws_observed st') (ws_maxRetryAfter st') ''main'' = (503, b, 0)"
    using h(2) by (simp add: exhaustionError_def)
  then show ?thesis using h(1) exhausted_walk_is_provider_error [OF h(1) x] by blast
qed



end
