(* ===== verification/Mcp_Session.thy ===== *)
theory Mcp_Session
  imports Identity_Auth
begin

text \<open>
  Session ownership in the tool broker (\<^verbatim>\<open>internal/gateway/mcpsession.go\<close>): an upstream session id is
  handed out bound to the caller by a message authentication code. \<open>mac key message\<close> stands for
  HMAC-SHA256.
\<close>

subsection \<open>Base64\<close>

text \<open>\<^verbatim>\<open>base64.RawURLEncoding.EncodeToString\<close>.\<close>

definition base64_char :: "nat \<Rightarrow> char" where
  "base64_char n =
     char_of (if n < 26 then n + 65 else if n < 52 then n + 71 else if n < 62 then n - 4 else if n = 62 then 45 else 95)"

fun byte_groups :: "nat list \<Rightarrow> nat list" where
  "byte_groups (x # y # z # r) = [x div 4, x mod 4 * 16 + y div 16, y mod 16 * 4 + z div 64, z mod 64] @ byte_groups r"
| "byte_groups [x, y] = [x div 4, x mod 4 * 16 + y div 16, y mod 16 * 4]"
| "byte_groups [x] = [x div 4, x mod 4 * 16]"
| "byte_groups [] = []"

definition EncodeToString :: "string \<Rightarrow> string" where
  "EncodeToString s = map base64_char (byte_groups (map of_char s))"

text \<open>\<^verbatim>\<open>base64.StdEncoding.DecodeString\<close>: the other two characters for 62 and 63, and padding.\<close>

definition std_digit :: "char \<Rightarrow> nat option" where
  "std_digit c =
     (if c = CHR ''+'' then Some 62 else if c = CHR ''/'' then Some 63
      else if c = CHR ''-'' \<or> c = CHR ''_'' then None else base64_val c)"

fun std_digits :: "string \<Rightarrow> nat list option" where
  "std_digits [] = Some []"
| "std_digits (c # cs) = (case std_digit c of None \<Rightarrow> None | Some d \<Rightarrow> map_option ((#) d) (std_digits cs))"

definition StdDecodeString :: "string \<Rightarrow> string option" where
  "StdDecodeString s =
     (let s = filter (\<lambda>c. c \<noteq> CHR 0x0A \<and> c \<noteq> CHR 0x0D) s;
          t = (if HasSuffix s ''=='' then take (length s - 2) s else if HasSuffix s ''='' then take (length s - 1) s else s)
      in if length s mod 4 \<noteq> 0 then None else Option.bind (std_digits t) base64_groups)"

subsection \<open>The code\<close>

definition callerIdentity :: "caller \<Rightarrow> string" where
  "callerIdentity c =
     (case cl_Workload c of
        Some wl \<Rightarrow> cl_Namespace c @ ''/'' @ id_Kind wl @ ''/'' @ id_Name wl
      | None \<Rightarrow> ''ns/'' @ cl_Namespace c)"

definition sessionMAC :: "(string \<Rightarrow> string \<Rightarrow> string) \<Rightarrow> string \<Rightarrow> string \<Rightarrow> string \<Rightarrow> string" where
  "sessionMAC mac key upstreamID ident = mac key (upstreamID @ [CHR 0x00] @ ident)"

definition wrapSessionID :: "(string \<Rightarrow> string \<Rightarrow> string) \<Rightarrow> string \<Rightarrow> string \<Rightarrow> string \<Rightarrow> string" where
  "wrapSessionID mac key upstreamID ident =
     EncodeToString upstreamID @ ''.'' @ EncodeToString (sessionMAC mac key upstreamID ident)"

definition unwrapSessionID :: "(string \<Rightarrow> string \<Rightarrow> string) \<Rightarrow> string \<Rightarrow> string \<Rightarrow> string \<Rightarrow> string option" where
  "unwrapSessionID mac key wrapped ident =
     (case Cut wrapped ''.'' of (idPart, macPart, found) \<Rightarrow>
        if \<not> found then None
        else case DecodeString idPart of
               None \<Rightarrow> None
             | Some upstreamID \<Rightarrow>
                 (case DecodeString macPart of
                    None \<Rightarrow> None
                  | Some m \<Rightarrow> (if m \<noteq> sessionMAC mac key upstreamID ident then None else Some upstreamID)))"

lemmas session_defs [kaalm_eval] = base64_char_def EncodeToString_def std_digit_def StdDecodeString_def callerIdentity_def
  sessionMAC_def wrapSessionID_def unwrapSessionID_def

subsection \<open>Lemmas\<close>

lemma base64_val_char: "n < 64 \<Longrightarrow> base64_val (base64_char n) = Some n"
proof -
  assume n: "n < 64"
  define k where "k = (if n < 26 then n + 65 else if n < 52 then n + 71 else if n < 62 then n - 4 else if n = 62 then 45 else 95)"
  have k: "of_char (base64_char n) = k" "k < 256" using n by (auto simp: base64_char_def k_def)
  show ?thesis using n unfolding base64_val_def k(1) by (auto simp: k_def Let_def)
qed

lemma base64_char_newline: "n < 64 \<Longrightarrow> base64_char n \<noteq> CHR 0x0A \<and> base64_char n \<noteq> CHR 0x0D \<and> base64_char n \<noteq> CHR ''.''"
  using base64_val_char [of n] by (auto simp: base64_val_def)

lemma base64_digits_chars: "\<forall>n\<in>set ns. n < 64 \<Longrightarrow> base64_digits (map base64_char ns) = Some ns"
  by (induction ns) (simp_all add: base64_val_char base64_char_newline)

lemma byte_groups_range: "\<forall>x\<in>set xs. x < 256 \<Longrightarrow> n \<in> set (byte_groups xs) \<Longrightarrow> n < 64"
  by (induction xs rule: byte_groups.induct) (auto simp: less_mult_imp_div_less)

lemma group_values:
  fixes x y z :: nat
  assumes "x < 256" "y < 256" "z < 256"
  shows "x div 4 * 4 + (x mod 4 * 16 + y div 16) div 16 = x"
    "(x mod 4 * 16 + y div 16) mod 16 * 16 + (y mod 16 * 4 + z div 64) div 4 = y"
    "(y mod 16 * 4 + z div 64) mod 4 * 64 + z mod 64 = z"
proof -
  have "y div 16 < 16" "z div 64 < 4" using assms by (simp_all add: less_mult_imp_div_less)
  then show "x div 4 * 4 + (x mod 4 * 16 + y div 16) div 16 = x"
    "(x mod 4 * 16 + y div 16) mod 16 * 16 + (y mod 16 * 4 + z div 64) div 4 = y"
    "(y mod 16 * 4 + z div 64) mod 4 * 64 + z mod 64 = z"
    by simp_all
qed

lemma base64_groups_bytes: "\<forall>x\<in>set xs. x < 256 \<Longrightarrow> base64_groups (byte_groups xs) = Some (map char_of xs)"
proof (induction xs rule: byte_groups.induct)
  case (1 x y z r)
  then show ?case using group_values [of x y z] by simp
next
  case (2 x y)
  then show ?case using group_values [of x y 0] by simp
next
  case (3 x)
  then show ?case using group_values [of x 0 0] by simp
qed simp

lemma DecodeString_EncodeToString: "DecodeString (EncodeToString s) = Some s"
proof -
  have r: "\<forall>x\<in>set (map of_char s). x < (256 :: nat)" by auto
  then have "\<forall>n\<in>set (byte_groups (map of_char s)). n < 64" using byte_groups_range by blast
  then show ?thesis using base64_groups_bytes [OF r] by (simp add: DecodeString_def EncodeToString_def base64_digits_chars comp_def)
qed

lemma EncodeToString_no_dot: "CHR ''.'' \<notin> set (EncodeToString s)"
proof -
  have "\<forall>n\<in>set (byte_groups (map of_char s)). n < 64" using byte_groups_range [of "map of_char s"] by auto
  then show ?thesis unfolding EncodeToString_def using base64_char_newline by (metis (no_types, lifting) ex_map_conv in_set_conv_nth list.set_map imageE)
qed

lemma Cut_dot: "CHR ''.'' \<notin> set a \<Longrightarrow> Cut (a @ ''.'' @ b) ''.'' = (a, b, True)"
proof -
  assume "CHR ''.'' \<notin> set a"
  then have "Index (a @ ''.'' @ b) ''.'' = Some (length a)" by (induction a) (auto simp: HasPrefix_def)
  then show ?thesis by (simp add: Cut_def)
qed

lemma unwrap_wrap:
  "unwrapSessionID mac key (wrapSessionID mac key sid a) b =
   (if sessionMAC mac key sid a = sessionMAC mac key sid b then Some sid else None)"
  by (simp add: unwrapSessionID_def wrapSessionID_def Cut_dot [OF EncodeToString_no_dot, simplified] DecodeString_EncodeToString)

text \<open>A caller as the authentication regimes produce it: its namespace and names have no slash.\<close>

definition proper_caller :: "caller \<Rightarrow> bool" where
  "proper_caller c \<longleftrightarrow> CHR ''/'' \<notin> set (cl_Namespace c) \<and>
     (\<forall>wl. cl_Workload c = Some wl \<longrightarrow> id_Namespace wl = cl_Namespace c \<and> id_Kind wl \<in> {KindAgent, KindAgentTask} \<and> CHR ''/'' \<notin> set (id_Name wl))"

lemma callerIdentity_split:
  assumes "proper_caller c"
  shows "SplitByte (CHR ''/'') (callerIdentity c) =
    (case cl_Workload c of Some wl \<Rightarrow> [cl_Namespace c, id_Kind wl, id_Name wl] | None \<Rightarrow> [''ns'', cl_Namespace c])"
proof -
  have k: "CHR ''/'' \<notin> set KindAgent" "CHR ''/'' \<notin> set KindAgentTask" by (simp_all add: KindAgent_def KindAgentTask_def)
  show ?thesis
    using assms k by (auto simp: callerIdentity_def proper_caller_def SplitByte_append SplitByte_none split: option.split)
qed

lemma callerIdentity_inj:
  assumes "proper_caller c" "proper_caller c'" "callerIdentity c = callerIdentity c'"
  shows "c = c'"
proof -
  have e: "(case cl_Workload c of Some wl \<Rightarrow> [cl_Namespace c, id_Kind wl, id_Name wl] | None \<Rightarrow> [''ns'', cl_Namespace c]) =
    (case cl_Workload c' of Some wl \<Rightarrow> [cl_Namespace c', id_Kind wl, id_Name wl] | None \<Rightarrow> [''ns'', cl_Namespace c'])"
    using callerIdentity_split [OF assms(1)] callerIdentity_split [OF assms(2)] assms(3) by simp
  show ?thesis
  proof (cases "cl_Workload c")
    case None
    then show ?thesis using e by (cases "cl_Workload c'") (auto intro: caller.equality)
  next
    case (Some wl)
    then obtain wl' where wl': "cl_Workload c' = Some wl'" using e by (cases "cl_Workload c'") auto
    then have "wl = wl'" using e Some assms(1,2) by (auto simp: proper_caller_def intro!: Identity.equality)
    then show ?thesis using e Some wl' by (auto intro: caller.equality)
  qed
qed

text \<open>A wrapped session id resumes its session for its owner and for nobody else: the
  caller it was wrapped for gets the upstream id back, and, as far as the code is free of collisions
  on the two messages involved, any other caller is refused.\<close>

lemma session_owner_only:
  assumes "inj_on (mac key) {sid @ [CHR 0x00] @ callerIdentity c, sid @ [CHR 0x00] @ callerIdentity c'}"
    and "proper_caller c" "proper_caller c'"
  shows "unwrapSessionID mac key (wrapSessionID mac key sid (callerIdentity c)) (callerIdentity c') =
    (if c' = c then Some sid else None)"
proof -
  have "sessionMAC mac key sid (callerIdentity c) = sessionMAC mac key sid (callerIdentity c') \<longleftrightarrow> c = c'"
    using assms callerIdentity_inj by (auto simp: sessionMAC_def inj_on_def)
  then show ?thesis unfolding unwrap_wrap by auto
qed

lemma wrapSessionID_not_empty: "wrapSessionID mac key sid i \<noteq> []"
  by (simp add: wrapSessionID_def)

end
