(* ===== verification/Mcp_Wire.thy ===== *)
theory Mcp_Wire
  imports Http_Header
begin

text \<open>
  The wire types of the tool protocol (\<^verbatim>\<open>internal/mcp/types.go\<close>, the response parser of \<^verbatim>\<open>client.go\<close> and
  the revision test of \<^verbatim>\<open>modern.go\<close>), shared by the tool broker and the health probe. A
  \<^verbatim>\<open>json.RawMessage\<close> is a \<open>doc\<close>, \<open>None\<close> when empty. Numeric ids are compared as exact values, so
  two integers that only differ beyond the precision of a float are different here.
\<close>

definition TrimPrefix :: "string \<Rightarrow> string \<Rightarrow> string" where
  "TrimPrefix s p = (if HasPrefix s p then drop (length p) s else s)"

subsection \<open>The code\<close>

definition protocolVersion :: string where "protocolVersion = ''2025-03-26''"
definition jsonrpcVersion :: string where "jsonrpcVersion = ''2.0''"
definition maxResponseBytes :: nat where "maxResponseBytes = 1024 * 1024"
definition ModernRevision :: string where "ModernRevision = ''2026-07-28''"

definition IsModern :: "string \<Rightarrow> bool" where
  "IsModern revision = (revision \<ge> ModernRevision)"

definition CodeHeaderMismatch :: int where "CodeHeaderMismatch = - 32020"
definition CodeMissingRequiredClientCapability :: int where "CodeMissingRequiredClientCapability = - 32021"
definition CodeUnsupportedProtocolVersion :: int where "CodeUnsupportedProtocolVersion = - 32022"

record RPCError =
  re_Code :: int
  re_Message :: string

record rpcResponse =
  rs_JSONRPC :: string
  rs_ID :: doc
  rs_Result :: doc
  rs_Error :: "RPCError option"

definition RPCError_dec :: "RPCError dec" where
  "RPCError_dec = decode_struct [(''code'', decode_int64 re_Code_update), (''message'', decode_string re_Message_update)]"

definition zero_response :: rpcResponse where
  "zero_response = \<lparr>rs_JSONRPC = [], rs_ID = None, rs_Result = None, rs_Error = None\<rparr>"

definition rpcResponse_dec :: "rpcResponse dec" where
  "rpcResponse_dec = decode_struct
     [(''jsonrpc'', decode_string rs_JSONRPC_update), (''id'', decode_raw rs_ID_update), (''result'', decode_raw rs_Result_update),
      (''error'', decode_ptr \<lparr>re_Code = 0, re_Message = []\<rparr> RPCError_dec rs_Error rs_Error_update)]"

definition IDEqual :: "doc \<Rightarrow> doc \<Rightarrow> bool" where
  "IDEqual a b =
     (case (a, b) of
        (Some (JStr at'), Some (JStr bt)) \<Rightarrow> at' = bt
      | (Some (JNum at'), Some (JNum bt)) \<Rightarrow> at' = bt
      | _ \<Rightarrow> False)"

text \<open>What a reader gives: the bytes, and the error that ends them when it is not the end of file.\<close>

type_synonym reader = "string \<times> string option"

definition flush_event :: "doc \<Rightarrow> string \<Rightarrow> rpcResponse option" where
  "flush_event rawID data =
     (if length data = 0 then None
      else case Unmarshal rpcResponse_dec zero_response (ParseJSON data) of
             None \<Rightarrow> None
           | Some resp \<Rightarrow> (if \<not> IDEqual (rs_ID resp) rawID then None else Some resp))"

text \<open>The scan of the lines: the response found, or the data of the event the stream ended in.\<close>

fun scan_events :: "doc \<Rightarrow> string list \<Rightarrow> string \<Rightarrow> rpcResponse option \<times> string" where
  "scan_events rawID [] data = (None, data)"
| "scan_events rawID (line # lines) data =
     (if line = [] then
        (case flush_event rawID data of
           Some resp \<Rightarrow> (Some resp, [])
         | None \<Rightarrow> scan_events rawID lines [])
      else if HasPrefix line ''data:'' then
        scan_events rawID lines (data @ TrimPrefix (TrimPrefix line ''data:'') '' '')
      else scan_events rawID lines data)"

definition readSSEResponse :: "reader \<Rightarrow> doc \<Rightarrow> rpcResponse option" where
  "readSSEResponse r rawID =
     (case scan_events rawID (ScanLines maxResponseBytes (fst r)) [] of
        (Some resp, _) \<Rightarrow> Some resp
      | (None, data) \<Rightarrow>
          (if ScanTooLong maxResponseBytes (fst r) \<or> snd r \<noteq> None then None else flush_event rawID data))"

definition ParseResponse :: "string \<Rightarrow> reader \<Rightarrow> doc \<Rightarrow> rpcResponse option" where
  "ParseResponse contentType r rawID =
     (if HasPrefix contentType ''text/event-stream'' then readSSEResponse r rawID
      else case snd r of
             Some err \<Rightarrow> None
           | None \<Rightarrow> Unmarshal rpcResponse_dec zero_response (ParseJSON (fst r)))"

lemmas wire_defs [kaalm_eval] = TrimPrefix_def protocolVersion_def jsonrpcVersion_def maxResponseBytes_def ModernRevision_def IsModern_def
  CodeHeaderMismatch_def CodeMissingRequiredClientCapability_def CodeUnsupportedProtocolVersion_def RPCError_dec_def
  zero_response_def rpcResponse_dec_def IDEqual_def flush_event_def readSSEResponse_def ParseResponse_def

subsection \<open>Lemmas\<close>

lemma flush_event_id: "flush_event rawID data = Some resp \<Longrightarrow> IDEqual (rs_ID resp) rawID"
  by (auto simp: flush_event_def split: if_splits option.splits)

lemma scan_events_id: "scan_events rawID lines data = (Some resp, d) \<Longrightarrow> IDEqual (rs_ID resp) rawID"
  by (induction rawID lines data rule: scan_events.induct) (auto split: if_splits option.splits dest: flush_event_id)

text \<open>A response taken from an event stream answers the request it was read for.\<close>

lemma readSSEResponse_id: "readSSEResponse r rawID = Some resp \<Longrightarrow> IDEqual (rs_ID resp) rawID"
  by (auto simp: readSSEResponse_def split: prod.splits option.splits if_splits dest: scan_events_id flush_event_id)

lemma IDEqual_iff:
  "IDEqual a b \<longleftrightarrow> a = b \<and> ((\<exists>t. a = Some (JStr t)) \<or> (\<exists>q. a = Some (JNum q)))"
proof (cases a; cases b)
  fix v u
  assume "a = Some v" "b = Some u"
  then show ?thesis by (cases v; cases u) (auto simp: IDEqual_def)
qed (auto simp: IDEqual_def split: json.splits)

end
