(* ===== verification/Mcp_Broker.thy ===== *)
theory Mcp_Broker
  imports Llm_Proxy Mcp_Session Mcp_Wire
begin

text \<open>
  The tool broker (\<^verbatim>\<open>internal/gateway/mcpbroker.go\<close>): the grant chain, the filter on tools, the relay of
  answers and the whole handler. \<open>mac\<close> stands for HMAC-SHA256. A handler gives \<open>None\<close> where the code
  panics. Tracing spans and debug logs are left out; of the audit record and the latency metric
  the durations and the response size are left out. Re-encoding decoded JSON does not fail, so the
  branch of \<^verbatim>\<open>relayFilteredToolsList\<close> for that has no counterpart.
\<close>

subsection \<open>The code\<close>

paragraph \<open>Messages\<close>

definition methodToolsCall :: string where "methodToolsCall = ''tools/call''"

record mcpRequest =
  mq_JSONRPC :: string
  mq_ID :: doc
  mq_Method :: string
  mq_Params :: doc

definition mcpRequest_dec :: "mcpRequest dec" where
  "mcpRequest_dec = decode_struct
     [(''jsonrpc'', decode_string mq_JSONRPC_update), (''id'', decode_raw mq_ID_update),
      (''method'', decode_string mq_Method_update), (''params'', decode_raw mq_Params_update)]"

definition zero_request :: mcpRequest where
  "zero_request = \<lparr>mq_JSONRPC = [], mq_ID = None, mq_Method = [], mq_Params = None\<rparr>"

definition isJSONBatch :: "string \<Rightarrow> bool" where
  "isJSONBatch body =
     (let trimmed = dropWhile (\<lambda>c. c \<in> {CHR '' '', CHR 0x09, CHR 0x0D, CHR 0x0A}) body
      in trimmed \<noteq> [] \<and> hd trimmed = CHR ''['')"

text \<open>Decoding into a struct with the one field \<^verbatim>\<open>name\<close>, its error ignored: a value of the wrong kind
  is skipped and the rest is still decoded.\<close>

fun decode_name :: "(string \<times> json) list \<Rightarrow> string \<Rightarrow> string" where
  "decode_name [] name = name"
| "decode_name ((k, v) # es) name =
     decode_name es (if EqualFold ''name'' k then (case v of JStr t \<Rightarrow> t | _ \<Rightarrow> name) else name)"

definition governedToolName :: "mcpRequest \<Rightarrow> string" where
  "governedToolName msg =
     (if mq_Method msg \<noteq> methodToolsCall then []
      else case mq_Params msg of Some (JObj es) \<Rightarrow> decode_name es [] | _ \<Rightarrow> [])"

definition mcpAllowedMethod :: "string \<Rightarrow> bool" where
  "mcpAllowedMethod m =
     (m \<in> {''server/discover'', ''tools/list'', methodToolsCall, ''initialize'', ''ping''} \<or> HasPrefix m ''notifications/'')"

definition decodeMCPHeaderValue :: "string \<Rightarrow> string" where
  "decodeMCPHeaderValue v =
     (let pre = ''=?base64?''; suf = ''?=''
      in if HasPrefix v pre \<and> HasSuffix v suf \<and> length v > length pre + length suf
         then (case StdDecodeString (drop (length pre) (take (length v - length suf) v)) of
                 Some raw \<Rightarrow> raw
               | None \<Rightarrow> v)
         else v)"

definition modernHeaderRejection :: "bool \<Rightarrow> httpRequest \<Rightarrow> mcpRequest \<Rightarrow> string \<Rightarrow> string" where
  "modernHeaderRejection modern r msg toolName =
     (if \<not> modern then []
      else let m = hdr_Get (rq_Header r) ''Mcp-Method''
           in if m = [] then ''Mcp-Method header is required on this protocol revision''
              else if m \<noteq> mq_Method msg then
                ''Mcp-Method header '' @ show_quoted m @ '' does not match body method '' @ show_quoted (mq_Method msg)
              else if mq_Method msg = methodToolsCall then
                (let n = decodeMCPHeaderValue (hdr_Get (rq_Header r) ''Mcp-Name'')
                 in if n = [] then ''Mcp-Name header is required on tools/call''
                    else if n \<noteq> toolName then
                      ''Mcp-Name header '' @ show_quoted n @ '' does not match body tool '' @ show_quoted toolName
                    else [])
              else [])"

definition writeJSONRPCError :: "doc \<Rightarrow> int \<Rightarrow> string \<Rightarrow> Reply" where
  "writeJSONRPCError ident code message =
     \<lparr>rp_Status = 400, rp_Header = hdr_Set ''Content-Type'' ''application/json'' [],
      rp_Body = JsonBody (JObj [(''jsonrpc'', JStr ''2.0''), (''id'', case ident of None \<Rightarrow> JNull | Some v \<Rightarrow> v),
        (''error'', JObj [(''code'', JNum (of_int code)), (''message'', JStr message)])])\<rparr>"

paragraph \<open>Grants\<close>

record toolFilter =
  tf_allow :: "bool gomap option"

definition permits :: "toolFilter \<Rightarrow> string \<Rightarrow> bool" where
  "permits f name = (case tf_allow f of None \<Rightarrow> True | Some allow \<Rightarrow> mget False allow name)"

definition newToolFilter :: "string list \<Rightarrow> string list \<Rightarrow> toolFilter" where
  "newToolFilter grantTools catalog =
     (let catalogSet = fold (\<lambda>t. mput t True) catalog []
      in if length grantTools = 0 \<and> length catalogSet = 0 then \<lparr>tf_allow = None\<rparr>
         else if length grantTools = 0 then \<lparr>tf_allow = Some catalogSet\<rparr>
         else \<lparr>tf_allow = Some (fold (\<lambda>t allow. if length catalogSet = 0 \<or> mget False catalogSet t then mput t True allow else allow)
                                 grantTools [])\<rparr>)"

definition workload_tools :: "Store \<Rightarrow> string \<Rightarrow> Identity \<Rightarrow> routeDenial + (AgentToolGrant list \<times> string)" where
  "workload_tools s namespace wl =
     (if id_Kind wl = KindAgent then
        (case AgentByName s namespace (id_Name wl) of
           None \<Rightarrow> Inl (denial 403 errAccessDenied ''workload not found'')
         | Some agent \<Rightarrow> Inr (ag_Tools agent, ag_AgentClassRef agent))
      else if id_Kind wl = KindAgentTask then
        (case TaskByName s namespace (id_Name wl) of
           None \<Rightarrow> Inl (denial 403 errAccessDenied ''workload not found'')
         | Some task \<Rightarrow> Inr (at_Tools task, at_AgentClassRef task))
      else Inl (denial 403 errAccessDenied ''unrecognized workload kind''))"

definition authorizeToolRoute :: "Store \<Rightarrow> caller \<Rightarrow> ToolProvider \<Rightarrow> routeDenial + toolFilter" where
  "authorizeToolRoute s c tp =
     (if \<not> namespaceGlobAllowed (cl_Namespace c) (tp_AllowedNamespaces tp) then
        Inl (denial 403 errAccessDenied
          (''namespace '' @ show_quoted (cl_Namespace c) @ '' is not allowed to use tool provider '' @ show_quoted (tp_Name tp)))
      else case cl_Workload c of
        None \<Rightarrow> Inr (newToolFilter [] (tp_Tools tp))
      | Some wl \<Rightarrow>
          (case workload_tools s (cl_Namespace c) wl of
             Inl d \<Rightarrow> Inl d
           | Inr (grants, className) \<Rightarrow>
               (case find (\<lambda>g. tg_ProviderRef g = tp_Name tp) grants of
                  None \<Rightarrow> Inl (denial 403 errAccessDenied (''workload has no tool grant for provider '' @ show_quoted (tp_Name tp)))
                | Some grant \<Rightarrow>
                    (case ClassByName s className of
                       None \<Rightarrow> Inl (denial 403 errAccessDenied (''AgentClass '' @ show_quoted className @ '' not found''))
                     | Some class \<Rightarrow>
                         (if \<not> list_ex (\<lambda>ref. ref = tp_Name tp) (ac_AllowedToolProviders class) then
                            Inl (denial 403 errAccessDenied
                              (''tool provider '' @ show_quoted (tp_Name tp) @ '' is not in AgentClass '' @ show_quoted className @ '' allowedToolProviders''))
                          else Inr (newToolFilter (tg_Tools grant) (tp_Tools tp)))))))"

paragraph \<open>Audit\<close>

definition boundedToolLabel :: "ToolProvider option \<Rightarrow> string \<Rightarrow> string" where
  "boundedToolLabel tp tool =
     (if tool = [] then []
      else case tp of
             Some tp \<Rightarrow> (if list_ex (\<lambda>t. t = tool) (tp_Tools tp) then tool else ''uncataloged'')
           | None \<Rightarrow> ''uncataloged'')"

definition mcpResult ::
  "caller \<Rightarrow> ToolProvider option \<Rightarrow> string \<Rightarrow> string \<Rightarrow> string \<Rightarrow> int \<Rightarrow> string \<Rightarrow> string \<Rightarrow> int \<Rightarrow> bool \<Rightarrow> Server \<Rightarrow> Server" where
  "mcpResult c tp provider m tool status errType detail reqBytes forwarded s =
     (let s = emit (McpCall c provider m tool status errType detail reqBytes) s;
          statusLabel = (if errType = [] then (if status \<ge> 200 \<and> status < 300 then ''ok'' else ''upstream_error'') else errType);
          toolLabel = boundedToolLabel tp tool;
          s = emit (ToolCall provider (cl_Namespace c) toolLabel statusLabel) s
      in if forwarded then emit (ToolCallDuration provider toolLabel) s else s)"

text \<open>The closure \<^verbatim>\<open>deny\<close> of the handler, with the variables it captures.\<close>

definition mcp_deny ::
  "caller \<Rightarrow> ToolProvider option \<Rightarrow> string \<Rightarrow> int \<Rightarrow> bool \<Rightarrow> int \<Rightarrow> string \<Rightarrow> string \<Rightarrow> int \<Rightarrow> string \<Rightarrow> string \<Rightarrow>
   Server \<Rightarrow> (Reply \<times> Server) option" where
  "mcp_deny c tp providerName reqBytes forwarded status errType message retryAfter m tool s =
     Some (writeError status
             \<lparr>eb_Type = errType, eb_Message = message, eb_Provider = providerName, eb_Retryable = (retryAfter > 0 \<or> status = 503)\<rparr> retryAfter,
           mcpResult c tp providerName m tool status errType message reqBytes forwarded s)"

paragraph \<open>Forwarding and relaying\<close>

definition mcpMaxBodyBytes :: "Server \<Rightarrow> int" where
  "mcpMaxBodyBytes s = (if sv_MCPMaxBodyBytes s > 0 then sv_MCPMaxBodyBytes s else sv_MaxBodyBytes s)"

definition set_if :: "bool \<Rightarrow> string \<Rightarrow> string \<Rightarrow> Header \<Rightarrow> Header" where
  "set_if b k v h = (if b then hdr_Set k v h else h)"

definition copyMCPHeaders :: "httpRequest \<Rightarrow> string \<Rightarrow> string \<Rightarrow> bool \<Rightarrow> Header" where
  "copyMCPHeaders r upstreamSession credential modern =
     (let get = hdr_Get (rq_Header r);
          h = hdr_Set ''Content-Type'' (if get ''Content-Type'' \<noteq> [] then get ''Content-Type'' else ''application/json'') [];
          h = hdr_Set ''Accept'' (if get ''Accept'' \<noteq> [] then get ''Accept'' else ''application/json, text/event-stream'') h;
          h = set_if (get ''MCP-Protocol-Version'' \<noteq> []) ''MCP-Protocol-Version'' (get ''MCP-Protocol-Version'') h;
          h = set_if (upstreamSession \<noteq> []) ''Mcp-Session-Id'' upstreamSession h;
          h = set_if (credential \<noteq> []) ''Authorization'' (''Bearer '' @ credential) h
      in if \<not> modern then h
         else let h = set_if (get ''Mcp-Method'' \<noteq> []) ''Mcp-Method'' (get ''Mcp-Method'') h;
                  h = set_if (get ''Mcp-Name'' \<noteq> []) ''Mcp-Name'' (get ''Mcp-Name'') h
              in fold (\<lambda>(name, vals) h. if HasPrefix name ''Mcp-Param-'' then mput name vals h else h) (rq_Header r) h)"

text \<open>\<^verbatim>\<open>io.LimitReader\<close>: a broken transfer is noticed only when it breaks below the limit.\<close>

definition LimitReader :: "int \<Rightarrow> httpResponse \<Rightarrow> reader" where
  "LimitReader n resp =
     (take (nat n) (hr_Data resp), if int (length (hr_Data resp)) < n then hr_ReadErr resp else None)"

definition tool_unavailable :: "string \<Rightarrow> string \<Rightarrow> errorBody" where
  "tool_unavailable message provider =
     \<lparr>eb_Type = errToolUnavailable, eb_Message = message, eb_Provider = provider, eb_Retryable = True\<rparr>"

definition keeps_tool :: "toolFilter \<Rightarrow> json \<Rightarrow> bool" where
  "keeps_tool f raw =
     (case decode_struct [(''name'', decode_string (\<lambda>u. u))] raw [] of None \<Rightarrow> False | Some name \<Rightarrow> permits f name)"

text \<open>The result object with its tools filtered; \<open>None\<close> is the assignment into a nil map.\<close>

definition filter_result :: "toolFilter \<Rightarrow> json \<Rightarrow> json option" where
  "filter_result f result =
     (case result of
        JNull \<Rightarrow> None
      | JObj es \<Rightarrow>
          (let result = fold (\<lambda>(k, v). mput k v) es [];
               tools = (case mlookup result ''tools'' of Some (JArr ts) \<Rightarrow> ts | _ \<Rightarrow> []);
               kept = filter (keeps_tool f) tools;
               result = mput ''tools'' (JArr kept) result;
               result = (if mhas result ''cacheScope'' then mput ''cacheScope'' (JStr ''private'') result else result)
           in Some (JObj (sort_key fst result)))
      | v \<Rightarrow> Some v)"

definition response_json :: "rpcResponse \<Rightarrow> json" where
  "response_json p =
     JObj [(''jsonrpc'', JStr (rs_JSONRPC p)), (''id'', case rs_ID p of None \<Rightarrow> JNull | Some v \<Rightarrow> v),
       (''result'', case rs_Result p of None \<Rightarrow> JNull | Some v \<Rightarrow> v),
       (''error'', case rs_Error p of
          None \<Rightarrow> JNull
        | Some e \<Rightarrow> JObj [(''code'', JNum (of_int (re_Code e))), (''message'', JStr (re_Message e))])]"

text \<open>The relays give the reply, the status and the error type for the audit record; \<open>h\<close> is what the
  handler has put into the headers before.\<close>

definition relayFilteredToolsList ::
  "Header \<Rightarrow> httpResponse \<Rightarrow> mcpRequest \<Rightarrow> toolFilter \<Rightarrow> string \<Rightarrow> int \<Rightarrow> (Reply \<times> int \<times> string) option" where
  "relayFilteredToolsList h resp msg f providerName maxBytes =
     (case ParseResponse (hdr_Get (hr_Header resp) ''Content-Type'') (LimitReader maxBytes resp) (mq_ID msg) of
        None \<Rightarrow>
          Some (writeErrorTo h 503 (tool_unavailable ''tool provider returned an unparseable tools/list response'' providerName) 0,
                503, errToolUnavailable)
      | Some parsed \<Rightarrow>
          (case (if rs_Error parsed = None then
                   (case rs_Result parsed of
                      Some result \<Rightarrow> map_option (\<lambda>v. parsed\<lparr>rs_Result := Some v\<rparr>) (filter_result f result)
                    | None \<Rightarrow> Some parsed)
                 else Some parsed) of
             None \<Rightarrow> None
           | Some parsed \<Rightarrow>
               Some (\<lparr>rp_Status = 200, rp_Header = hdr_Set ''Content-Type'' ''application/json'' h,
                      rp_Body = JsonBody (response_json parsed)\<rparr>, 200, [])))"

definition relayMCPBuffered :: "Header \<Rightarrow> httpResponse \<Rightarrow> int \<Rightarrow> Reply \<times> int \<times> string" where
  "relayMCPBuffered h resp maxBytes =
     (case LimitReader (maxBytes + 1) resp of
        (body, Some err) \<Rightarrow>
          (writeErrorTo h 503 (tool_unavailable (''reading tool provider response: '' @ err) []) 0, 503, errToolUnavailable)
      | (body, None) \<Rightarrow>
          (if int (length body) > maxBytes then
             (writeErrorTo h 413 (plain_error errResponseTooLarge
                (''tool provider response exceeds '' @ show_int maxBytes @ '' bytes'')) 0, 413, errResponseTooLarge)
           else
             (let ct = hdr_Get (hr_Header resp) ''Content-Type'';
                  h = (if ct \<noteq> [] then hdr_Set ''Content-Type'' ct h else h)
              in (\<lparr>rp_Status = hr_Status resp, rp_Header = h, rp_Body = TextBody body\<rparr>, hr_Status resp, []))))"

definition relayMCPStream :: "world \<Rightarrow> Header \<Rightarrow> httpResponse \<Rightarrow> int \<Rightarrow> Reply \<times> int \<times> string" where
  "relayMCPStream w h resp maxBytes =
     (let lines = ScanLines (max (nat maxBytes) (64 * 1024)) (fst (LimitReader maxBytes resp))
      in (\<lparr>rp_Status = hr_Status resp, rp_Header = hdr_Set ''Content-Type'' (hdr_Get (hr_Header resp) ''Content-Type'') h,
           rp_Body = LinesBody (fst (write_lines w lines []))\<rparr>, hr_Status resp, []))"

definition relay_answer ::
  "world \<Rightarrow> Header \<Rightarrow> httpResponse \<Rightarrow> mcpRequest \<Rightarrow> toolFilter \<Rightarrow> string \<Rightarrow> int \<Rightarrow> (Reply \<times> int \<times> string) option" where
  "relay_answer w h resp msg f providerName maxBytes =
     (if mq_Method msg = ''tools/list'' \<and> hr_Status resp < 300 then relayFilteredToolsList h resp msg f providerName maxBytes
      else if HasPrefix (hdr_Get (hr_Header resp) ''Content-Type'') ''text/event-stream'' then Some (relayMCPStream w h resp maxBytes)
      else Some (relayMCPBuffered h resp maxBytes))"

paragraph \<open>The handler\<close>

definition mcp_forwards :: "effect list \<Rightarrow> effect list" where
  "mcp_forwards l = filter (\<lambda>e. case e of McpForward _ _ _ _ \<Rightarrow> True | _ \<Rightarrow> False) l"

text \<open>From the upstream call on.\<close>

definition forward_mcp ::
  "(string \<Rightarrow> string \<Rightarrow> string) \<Rightarrow> world \<Rightarrow> caller \<Rightarrow> ToolProvider \<Rightarrow> string \<Rightarrow> mcpRequest \<Rightarrow> string \<Rightarrow> toolFilter \<Rightarrow>
   upstreamRequest \<Rightarrow> int \<Rightarrow> Server \<Rightarrow> (Reply \<times> Server) option" where
  "forward_mcp mac w c tp providerName msg toolName f upReq reqBytes s =
     (let deny = (\<lambda>status errType message retryAfter.
            mcp_deny c (Some tp) providerName reqBytes True status errType message retryAfter (mq_Method msg) toolName);
          call = length (mcp_forwards (sv_Log s));
          s = emit (McpForward tp (mq_Method msg) toolName upReq) s
      in case wd_Upstream w call upReq of
           Inl err \<Rightarrow>
             (if te_Context err
              then deny 504 errToolTimeout (''tool provider '' @ show_quoted (tp_Name tp) @ '' did not answer within the upstream timeout'') 0 s
              else deny 503 errToolUnavailable (''tool provider '' @ show_quoted (tp_Name tp) @ '' is unreachable: '' @ te_Text err) 1 s)
         | Inr resp \<Rightarrow>
             (if hr_Status resp = 401 \<or> hr_Status resp = 403 then
                deny 503 errToolUnavailable (''tool provider '' @ show_quoted (tp_Name tp) @ '' rejected the gateway credential'') 0 s
              else if hr_Status resp \<ge> 500 then
                deny 503 errToolUnavailable
                  (''tool provider '' @ show_quoted (tp_Name tp) @ '' returned HTTP '' @ show_int (hr_Status resp)) 1 s
              else
                (let sid = hdr_Get (hr_Header resp) ''Mcp-Session-Id'';
                     h = (if sid \<noteq> [] then hdr_Set ''Mcp-Session-Id'' (wrapSessionID mac (sv_SessionKey s) sid (callerIdentity c)) [] else [])
                 in case relay_answer w h resp msg f providerName (mcpMaxBodyBytes s) of
                      None \<Rightarrow> None
                    | Some (rep, relayStatus, relayErrType) \<Rightarrow>
                        Some (rep, mcpResult c (Some tp) providerName (mq_Method msg) toolName relayStatus relayErrType [] reqBytes True s))))"

text \<open>From the decoded message on.\<close>

definition broker_message ::
  "(string \<Rightarrow> string \<Rightarrow> string) \<Rightarrow> world \<Rightarrow> httpRequest \<Rightarrow> caller \<Rightarrow> ToolProvider \<Rightarrow> string \<Rightarrow> toolFilter \<Rightarrow> mcpRequest \<Rightarrow>
   Server \<Rightarrow> (Reply \<times> Server) option" where
  "broker_message mac w r c tp providerName f msg s =
     (let reqBytes = int (length (rq_Body r));
          deny = mcp_deny c (Some tp) providerName reqBytes False;
          toolName = governedToolName msg;
          modernEra = IsModern (hdr_Get (rq_Header r) ''MCP-Protocol-Version'');
          reject = modernHeaderRejection modernEra r msg toolName;
          wrapped = hdr_Get (rq_Header r) ''Mcp-Session-Id''
      in if \<not> mcpAllowedMethod (mq_Method msg) then
           deny 403 errToolDenied
             (''method '' @ show_quoted (mq_Method msg) @ '' is not brokered in this version; the tool plane governs the tool surface'')
             0 (mq_Method msg) [] s
         else if reject \<noteq> [] then
           Some (writeJSONRPCError (mq_ID msg) CodeHeaderMismatch reject,
                 mcpResult c (Some tp) providerName (mq_Method msg) toolName 400 errHeaderMismatch reject reqBytes False s)
         else if mq_Method msg = methodToolsCall \<and> \<not> permits f toolName then
           deny 403 errToolDenied (''tool '' @ show_quoted toolName @ '' is not granted to this workload'') 0 (mq_Method msg) toolName s
         else
           (case (if wrapped \<noteq> [] \<and> \<not> modernEra then unwrapSessionID mac (sv_SessionKey s) wrapped (callerIdentity c) else Some []) of
              None \<Rightarrow> deny 403 errAccessDenied ''session id is not owned by this caller'' 0 (mq_Method msg) toolName s
            | Some upstreamSession \<Rightarrow>
                (case ToolCredential (sv_Store s) tp of
                   Inl err \<Rightarrow> deny 503 errToolUnavailable ''tool provider credential is unavailable'' 0 (mq_Method msg) toolName s
                 | Inr credential \<Rightarrow>
                     (case wd_RequestErr w ''POST'' (tp_Endpoint tp) of
                        Some err \<Rightarrow> deny 400 errInvalidRequest (''building upstream request: '' @ err) 0 (mq_Method msg) toolName s
                      | None \<Rightarrow>
                          forward_mcp mac w c tp providerName msg toolName f
                            \<lparr>ur_Method = ''POST'', ur_URL = tp_Endpoint tp,
                             ur_Header = copyMCPHeaders r upstreamSession credential modernEra, ur_Body = rq_Body r\<rparr>
                            reqBytes s))))"

text \<open>From the authorised route on.\<close>

definition broker_body ::
  "(string \<Rightarrow> string \<Rightarrow> string) \<Rightarrow> world \<Rightarrow> httpRequest \<Rightarrow> caller \<Rightarrow> ToolProvider \<Rightarrow> string \<Rightarrow> toolFilter \<Rightarrow>
   Server \<Rightarrow> (Reply \<times> Server) option" where
  "broker_body mac w r c tp providerName f s =
     (let deny = (\<lambda>reqBytes status errType message retryAfter.
            mcp_deny c (Some tp) providerName reqBytes False status errType message retryAfter [] [])
      in case AllowTool (sv_RateLimiter s) (wd_Clock w (sv_Step s)) tp (cl_Namespace c) of (allowed, rl) \<Rightarrow>
         let s = s\<lparr>sv_RateLimiter := rl\<rparr>
         in if \<not> allowed then
              deny 0 429 errRateLimited
                (''rate limit exceeded for namespace '' @ cl_Namespace c @ '' on tool provider '' @ tp_Name tp) 1 s
            else if int (length (rq_Body r)) > mcpMaxBodyBytes s then
              deny 0 413 errRequestTooLarge (''request body exceeds '' @ show_int (mcpMaxBodyBytes s) @ '' bytes'') 0 s
            else case rq_BodyErr r of
              Some err \<Rightarrow> deny 0 400 errInvalidRequest (''reading request body: '' @ err) 0 s
            | None \<Rightarrow>
                (if isJSONBatch (rq_Body r) then
                   deny (int (length (rq_Body r))) 400 errInvalidRequest ''JSON-RPC batch requests are not supported'' 0 s
                 else case Unmarshal mcpRequest_dec zero_request (ParseJSON (rq_Body r)) of
                   None \<Rightarrow> deny (int (length (rq_Body r))) 400 errInvalidRequest ''request body is not a JSON-RPC message'' 0 s
                 | Some msg \<Rightarrow> broker_message mac w r c tp providerName f msg s))"

definition handleMCPBroker ::
  "(string \<Rightarrow> string \<Rightarrow> string) \<Rightarrow> world \<Rightarrow> httpRequest \<Rightarrow> caller \<Rightarrow> Server \<Rightarrow> (Reply \<times> Server) option" where
  "handleMCPBroker mac w r c s =
     (let providerName = TrimPrefix (rq_Path r) ''/v1/mcp/'';
          deny = (\<lambda>tp status errType message. mcp_deny c tp providerName 0 False status errType message 0 [] [])
      in if rq_Method r \<noteq> ''POST'' then deny None 405 errInvalidRequest ''MCP broker accepts POST only'' s
         else if providerName = [] \<or> Contains providerName ''/'' then
           deny None 400 errInvalidRequest ''path must be /v1/mcp/{toolProvider}'' s
         else case ToolProviderByName (sv_Store s) providerName of
           None \<Rightarrow> deny None 400 errInvalidRequest (''unknown tool provider '' @ show_quoted providerName) s
         | Some tp \<Rightarrow>
             (case authorizeToolRoute (sv_Store s) c tp of
                Inl d \<Rightarrow> deny (Some tp) (rd_status d) (rd_errType d) (rd_message d) s
              | Inr f \<Rightarrow> broker_body mac w r c tp providerName f s))"

lemmas broker_defs [kaalm_eval] = methodToolsCall_def mcpRequest_dec_def zero_request_def isJSONBatch_def governedToolName_def
  mcpAllowedMethod_def decodeMCPHeaderValue_def modernHeaderRejection_def writeJSONRPCError_def permits_def newToolFilter_def
  workload_tools_def authorizeToolRoute_def boundedToolLabel_def mcpResult_def mcp_deny_def mcpMaxBodyBytes_def
  set_if_def copyMCPHeaders_def LimitReader_def tool_unavailable_def keeps_tool_def filter_result_def response_json_def
  relayFilteredToolsList_def relayMCPBuffered_def relayMCPStream_def relay_answer_def mcp_forwards_def forward_mcp_def
  broker_message_def broker_body_def handleMCPBroker_def

subsection \<open>The grant chain\<close>

text \<open>What the resources say: whether the provider is open to the caller at all, and which of its
  tools the caller may call.\<close>

definition tool_route_open :: "Store \<Rightarrow> caller \<Rightarrow> ToolProvider \<Rightarrow> bool" where
  "tool_route_open s c tp \<longleftrightarrow>
     (\<exists>pattern\<in>set (tp_AllowedNamespaces tp). Match pattern (cl_Namespace c)) \<and>
     (\<forall>wl. cl_Workload c = Some wl \<longrightarrow>
        (\<exists>grants className class. workload_tools s (cl_Namespace c) wl = Inr (grants, className) \<and>
           tp_Name tp \<in> tg_ProviderRef ` set grants \<and> ClassByName s className = Some class \<and>
           tp_Name tp \<in> set (ac_AllowedToolProviders class)))"

definition granted_tools :: "Store \<Rightarrow> caller \<Rightarrow> ToolProvider \<Rightarrow> string list" where
  "granted_tools s c tp =
     (case cl_Workload c of
        None \<Rightarrow> []
      | Some wl \<Rightarrow>
          (case workload_tools s (cl_Namespace c) wl of
             Inl d \<Rightarrow> []
           | Inr (grants, className) \<Rightarrow>
               (case find (\<lambda>g. tg_ProviderRef g = tp_Name tp) grants of None \<Rightarrow> [] | Some g \<Rightarrow> tg_Tools g)))"

definition tool_granted :: "Store \<Rightarrow> caller \<Rightarrow> ToolProvider \<Rightarrow> string \<Rightarrow> bool" where
  "tool_granted s c tp tool \<longleftrightarrow> tool_route_open s c tp \<and>
     (granted_tools s c tp = [] \<or> tool \<in> set (granted_tools s c tp)) \<and> (tp_Tools tp = [] \<or> tool \<in> set (tp_Tools tp))"

lemma mget_mark: "mget False (fold (\<lambda>t. mput t True) ts m) k \<longleftrightarrow> k \<in> set ts \<or> mget False m k"
  by (induction ts arbitrary: m) (auto simp: mget_def)

lemma mark_empty: "length (fold (\<lambda>t. mput t True) ts []) = 0 \<longleftrightarrow> ts = []"
proof (cases ts)
  case (Cons t r)
  have "mget False (fold (\<lambda>t. mput t True) ts []) t" by (simp add: mget_mark Cons)
  then show ?thesis by (auto simp: Cons mget_def)
qed simp

lemma mget_mark_if:
  "mget False (fold (\<lambda>t allow. if P t then mput t True allow else allow) ts m) k \<longleftrightarrow> (k \<in> set ts \<and> P k) \<or> mget False m k"
  by (induction ts arbitrary: m) (auto simp: mget_def)

lemma permits_newToolFilter:
  "permits (newToolFilter g cat) t \<longleftrightarrow> (g = [] \<or> t \<in> set g) \<and> (cat = [] \<or> t \<in> set cat)"
  unfolding newToolFilter_def Let_def mark_empty
  by (auto simp: permits_def mget_mark mget_mark_if)

lemma find_grant: "tp_Name tp \<in> tg_ProviderRef ` set grants \<longleftrightarrow> find (\<lambda>g. tg_ProviderRef g = tp_Name tp) grants \<noteq> None"
  by (auto simp: find_None_iff image_iff) metis+

lemma authorizeToolRoute_iff:
  "authorizeToolRoute s c tp = Inr f \<longleftrightarrow> tool_route_open s c tp \<and> f = newToolFilter (granted_tools s c tp) (tp_Tools tp)"
  by (auto simp: authorizeToolRoute_def tool_route_open_def granted_tools_def find_grant namespaceGlobAllowed_def list_ex_iff
      split: option.splits sum.splits if_splits)

lemma authorized_permits: "authorizeToolRoute s c tp = Inr f \<Longrightarrow> permits f t \<longleftrightarrow> tool_granted s c tp t"
  by (simp add: authorizeToolRoute_iff permits_newToolFilter tool_granted_def)

subsection \<open>What a request leaves behind\<close>

text \<open>The log of a finished request: the upstream calls \<open>fw\<close>, then one audit record with the status of
  the reply, the call counter, and the latency metric when there was an upstream call.\<close>

definition audited :: "caller \<Rightarrow> effect list \<Rightarrow> Server \<Rightarrow> Reply \<Rightarrow> Server \<Rightarrow> bool" where
  "audited c fw s rep s' \<longleftrightarrow> same_config s s' \<and>
     (\<exists>tp p m t et d n lbl. sv_Log s' = sv_Log s @ fw @
        [McpCall c p m t (rp_Status rep) et d n, ToolCall p (cl_Namespace c) (boundedToolLabel tp t) lbl] @
        (if fw = [] then [] else [ToolCallDuration p (boundedToolLabel tp t)]))"

lemma mcpResult_audited:
  assumes "rp_Status rep = status" "forwarded \<longleftrightarrow> fw \<noteq> []" "same_config s s1" "sv_Log s1 = sv_Log s @ fw"
  shows "audited c fw s rep (mcpResult c tp p m t status et d n forwarded s1)"
  using assms by (simp add: audited_def mcpResult_def Let_def server_frame same_config_def) blast

lemma mcp_deny_audited:
  assumes "mcp_deny c tp p n forwarded status et message ra m t s1 = Some (rep, s')"
    "forwarded \<longleftrightarrow> fw \<noteq> []" "same_config s s1" "sv_Log s1 = sv_Log s @ fw"
  shows "audited c fw s rep s'" "hdr_Values (rp_Header rep) ''Mcp-Session-Id'' = []"
proof -
  show "audited c fw s rep s'" using assms mcpResult_audited [OF _ assms(2-4)] by (auto simp: mcp_deny_def)
  show "hdr_Values (rp_Header rep) ''Mcp-Session-Id'' = []"
    using assms(1) by (auto simp: mcp_deny_def writeError_def writeErrorTo_def Let_def hdr_Values_def hdr_Set_def kaalm_eval)
qed

lemma writeErrorTo_simps:
  "rp_Status (writeErrorTo h st b ra) = st"
  "hdr_Values (rp_Header (writeErrorTo h st b ra)) ''Mcp-Session-Id'' = hdr_Values h ''Mcp-Session-Id''"
  by (auto simp: writeErrorTo_def Let_def) (simp_all add: kaalm_eval)

lemma relay_answer_simps:
  assumes "relay_answer w h resp msg f p n = Some (rep, status, et)"
  shows "rp_Status rep = status" "hdr_Values (rp_Header rep) ''Mcp-Session-Id'' = hdr_Values h ''Mcp-Session-Id''"
proof -
  have c: "CanonicalHeaderKey ''Mcp-Session-Id'' \<noteq> CanonicalHeaderKey ''Content-Type''" by (simp add: kaalm_eval)
  show "rp_Status rep = status"
    using assms by (auto simp: relay_answer_def relayFilteredToolsList_def relayMCPStream_def relayMCPBuffered_def Let_def writeErrorTo_simps
        split: if_splits option.splits prod.splits)
  show "hdr_Values (rp_Header rep) ''Mcp-Session-Id'' = hdr_Values h ''Mcp-Session-Id''"
    using assms c by (auto simp: relay_answer_def relayFilteredToolsList_def relayMCPStream_def relayMCPBuffered_def Let_def writeErrorTo_simps
        split: if_splits option.splits prod.splits)
qed

text \<open>What makes a forwarded request legitimate: the route and the tool are granted, and the request is
  the caller's body under the headers the broker builds.\<close>

definition brokered :: "(string \<Rightarrow> string \<Rightarrow> string) \<Rightarrow> httpRequest \<Rightarrow> caller \<Rightarrow> Server \<Rightarrow> ToolProvider \<Rightarrow> mcpRequest \<Rightarrow> upstreamRequest \<Rightarrow> bool" where
  "brokered mac r c s tp msg q \<longleftrightarrow>
     ToolProviderByName (sv_Store s) (TrimPrefix (rq_Path r) ''/v1/mcp/'') = Some tp \<and> tool_route_open (sv_Store s) c tp \<and>
     Unmarshal mcpRequest_dec zero_request (ParseJSON (rq_Body r)) = Some msg \<and> mcpAllowedMethod (mq_Method msg) \<and>
     (mq_Method msg = methodToolsCall \<longrightarrow> tool_granted (sv_Store s) c tp (governedToolName msg)) \<and>
     (\<exists>session cred modern. ToolCredential (sv_Store s) tp = Inr cred \<and>
        modern = IsModern (hdr_Get (rq_Header r) ''MCP-Protocol-Version'') \<and>
        (if hdr_Get (rq_Header r) ''Mcp-Session-Id'' \<noteq> [] \<and> \<not> modern
         then unwrapSessionID mac (sv_SessionKey s) (hdr_Get (rq_Header r) ''Mcp-Session-Id'') (callerIdentity c) = Some session
         else session = []) \<and>
        q = \<lparr>ur_Method = ''POST'', ur_URL = tp_Endpoint tp, ur_Header = copyMCPHeaders r session cred modern, ur_Body = rq_Body r\<rparr>)"

definition own_session :: "(string \<Rightarrow> string \<Rightarrow> string) \<Rightarrow> string \<Rightarrow> caller \<Rightarrow> Reply \<Rightarrow> bool" where
  "own_session mac key c rep \<longleftrightarrow> hdr_Values (rp_Header rep) ''Mcp-Session-Id'' = [] \<or>
     (\<exists>sid. hdr_Values (rp_Header rep) ''Mcp-Session-Id'' = [wrapSessionID mac key sid (callerIdentity c)])"

definition outcome :: "(string \<Rightarrow> string \<Rightarrow> string) \<Rightarrow> httpRequest \<Rightarrow> caller \<Rightarrow> Server \<Rightarrow> Reply \<Rightarrow> Server \<Rightarrow> bool" where
  "outcome mac r c s rep s' \<longleftrightarrow> own_session mac (sv_SessionKey s) c rep \<and>
     (audited c [] s rep s' \<or>
      (\<exists>tp msg q. audited c [McpForward tp (mq_Method msg) (governedToolName msg) q] s rep s' \<and> brokered mac r c s tp msg q))"

lemma denied_outcome: "mcp_deny c tp p n False st et message ra m t s = Some (rep, s') \<Longrightarrow> outcome mac r c s rep s'"
  using mcp_deny_audited [of c tp p n False st et message ra m t s rep s' "[]" s] by (auto simp: outcome_def own_session_def)

lemma forward_mcp_audited:
  assumes "forward_mcp mac w c tp p msg t f q n s = Some (rep, s')"
  shows "audited c [McpForward tp (mq_Method msg) t q] s rep s' \<and> own_session mac (sv_SessionKey s) c rep"
proof -
  define s1 where "s1 = emit (McpForward tp (mq_Method msg) t q) s"
  have s1: "same_config s s1" "sv_Log s1 = sv_Log s @ [McpForward tp (mq_Method msg) t q]" "sv_SessionKey s1 = sv_SessionKey s"
    by (simp_all add: s1_def server_frame same_config_def)
  have d: "audited c [McpForward tp (mq_Method msg) t q] s rep s' \<and> own_session mac (sv_SessionKey s) c rep"
    if "mcp_deny c (Some tp) p n True st et message ra (mq_Method msg) t s1 = Some (rep, s')" for st et message ra
    using mcp_deny_audited [OF that _ s1(1,2)] by (simp add: own_session_def)
  show ?thesis
  proof (cases "\<exists>st et message ra. mcp_deny c (Some tp) p n True st et message ra (mq_Method msg) t s1 = Some (rep, s')")
    case True
    then show ?thesis using d by blast
  next
    case False
    then obtain resp h status et where
      h: "h = [] \<or> (\<exists>sid. h = hdr_Set ''Mcp-Session-Id'' (wrapSessionID mac (sv_SessionKey s) sid (callerIdentity c)) [])" and
      a: "relay_answer w h resp msg f p (mcpMaxBodyBytes s1) = Some (rep, status, et)" and
      s': "s' = mcpResult c (Some tp) p (mq_Method msg) t status et [] n True s1"
      using assms unfolding forward_mcp_def Let_def s1_def [symmetric] s1(3)
      by (auto split: sum.splits if_splits option.splits prod.splits) blast
    have "audited c [McpForward tp (mq_Method msg) t q] s rep s'"
      using mcpResult_audited [OF relay_answer_simps(1) [OF a] _ s1(1,2)] s' by simp
    moreover have "own_session mac (sv_SessionKey s) c rep"
      using h relay_answer_simps(2) [OF a] by (auto simp: own_session_def)
    ultimately show ?thesis by blast
  qed
qed

lemma outcome_forward:
  assumes "forward_mcp mac w c tp p msg (governedToolName msg) f q n s = Some (rep, s')" "brokered mac r c s tp msg q"
  shows "outcome mac r c s rep s'"
  using forward_mcp_audited [OF assms(1)] assms(2) by (auto simp: outcome_def)

lemma broker_message_cases:
  assumes "broker_message mac w r c tp p f msg s = x"
  obtains (denied) n st et message ra m t where "mcp_deny c (Some tp) p n False st et message ra m t s = x"
    | (mismatch) reject where "x = Some (writeJSONRPCError (mq_ID msg) CodeHeaderMismatch reject,
          mcpResult c (Some tp) p (mq_Method msg) (governedToolName msg) 400 errHeaderMismatch reject (int (length (rq_Body r))) False s)"
    | (sent) session cred modern where
        "mcpAllowedMethod (mq_Method msg)" "mq_Method msg = methodToolsCall \<longrightarrow> permits f (governedToolName msg)"
        "ToolCredential (sv_Store s) tp = Inr cred" "modern = IsModern (hdr_Get (rq_Header r) ''MCP-Protocol-Version'')"
        "if hdr_Get (rq_Header r) ''Mcp-Session-Id'' \<noteq> [] \<and> \<not> modern
         then unwrapSessionID mac (sv_SessionKey s) (hdr_Get (rq_Header r) ''Mcp-Session-Id'') (callerIdentity c) = Some session
         else session = []"
        "forward_mcp mac w c tp p msg (governedToolName msg) f \<lparr>ur_Method = ''POST'', ur_URL = tp_Endpoint tp,
           ur_Header = copyMCPHeaders r session cred modern, ur_Body = rq_Body r\<rparr> (int (length (rq_Body r))) s = x"
  using assms unfolding broker_message_def Let_def by (auto split: if_splits option.splits sum.splits)

lemma broker_cases:
  assumes "handleMCPBroker mac w r c s = x"
  obtains (denied) tp n st et message ra rl where "mcp_deny c tp (TrimPrefix (rq_Path r) ''/v1/mcp/'') n False st et message ra [] []
          (s\<lparr>sv_RateLimiter := rl\<rparr>) = x"
    | (message) tp f msg rl where "ToolProviderByName (sv_Store s) (TrimPrefix (rq_Path r) ''/v1/mcp/'') = Some tp"
        "authorizeToolRoute (sv_Store s) c tp = Inr f" "Unmarshal mcpRequest_dec zero_request (ParseJSON (rq_Body r)) = Some msg"
        "broker_message mac w r c tp (TrimPrefix (rq_Path r) ''/v1/mcp/'') f msg (s\<lparr>sv_RateLimiter := rl\<rparr>) = x"
proof -
  let ?p = "TrimPrefix (rq_Path r) ''/v1/mcp/''"
  have same: "s = s\<lparr>sv_RateLimiter := sv_RateLimiter s\<rparr>" by simp
  consider (early) tp st et message where "mcp_deny c tp ?p 0 False st et message 0 [] [] s = x"
    | (body) tp f where "ToolProviderByName (sv_Store s) ?p = Some tp" "authorizeToolRoute (sv_Store s) c tp = Inr f"
        "broker_body mac w r c tp ?p f s = x"
    using assms unfolding handleMCPBroker_def Let_def by (auto split: if_splits option.splits sum.splits)
  then show thesis
  proof cases
    case early
    then show thesis using denied [of tp 0 st et message 0 "sv_RateLimiter s"] by simp
  next
    case body
    show thesis using body(3) denied message [OF body(1,2)] unfolding broker_body_def Let_def
      by (auto split: if_splits option.splits prod.splits)
  qed
qed

lemma broker_message_outcome:
  assumes run: "broker_message mac w r c tp p f msg s = Some (rep, s')"
    and store: "ToolProviderByName (sv_Store s) (TrimPrefix (rq_Path r) ''/v1/mcp/'') = Some tp"
      "authorizeToolRoute (sv_Store s) c tp = Inr f" "Unmarshal mcpRequest_dec zero_request (ParseJSON (rq_Body r)) = Some msg"
  shows "outcome mac r c s rep s'"
  using run
proof (cases rule: broker_message_cases)
  case denied
  then show ?thesis by (rule denied_outcome)
next
  case (mismatch reject)
  then have "audited c [] s rep s'" using mcpResult_audited [of rep 400 False "[]" s s] by (simp add: writeJSONRPCError_def)
  moreover have "hdr_Values (rp_Header rep) ''Mcp-Session-Id'' = []" using mismatch by (simp add: writeJSONRPCError_def kaalm_eval)
  ultimately show ?thesis by (simp add: outcome_def own_session_def)
next
  case (sent session cred modern)
  have "tool_route_open (sv_Store s) c tp" using store(2) by (simp add: authorizeToolRoute_iff)
  moreover have "mq_Method msg = methodToolsCall \<longrightarrow> tool_granted (sv_Store s) c tp (governedToolName msg)"
    using sent(2) authorized_permits [OF store(2)] by simp
  ultimately show ?thesis
    using sent(1,3-5) store by (intro outcome_forward [OF sent(6)]) (auto simp: brokered_def split: if_splits)
qed

lemma outcome_rate_limiter: "outcome mac r c (s\<lparr>sv_RateLimiter := rl\<rparr>) rep s' \<Longrightarrow> outcome mac r c s rep s'"
proof -
  have "audited c fw (s\<lparr>sv_RateLimiter := rl\<rparr>) rep s' = audited c fw s rep s'" for fw by (simp add: audited_def same_config_def)
  moreover have "brokered mac r c (s\<lparr>sv_RateLimiter := rl\<rparr>) = brokered mac r c s" by (simp add: brokered_def fun_eq_iff)
  ultimately show "outcome mac r c (s\<lparr>sv_RateLimiter := rl\<rparr>) rep s' \<Longrightarrow> outcome mac r c s rep s'" by (simp add: outcome_def)
qed

lemma handler_outcome:
  assumes "handleMCPBroker mac w r c s = Some (rep, s')"
  shows "outcome mac r c s rep s'"
  using assms
proof (cases rule: broker_cases)
  case denied
  then show ?thesis by (rule outcome_rate_limiter [OF denied_outcome])
next
  case (message tp f msg rl)
  then have "outcome mac r c (s\<lparr>sv_RateLimiter := rl\<rparr>) rep s'" using broker_message_outcome [OF message(4)] by simp
  then show ?thesis by (rule outcome_rate_limiter)
qed

lemma mcp_header_names [simp]:
  "CanonicalHeaderKey ''Content-Type'' = ''Content-Type''" "CanonicalHeaderKey ''Accept'' = ''Accept''"
  "CanonicalHeaderKey ''Mcp-Session-Id'' = ''Mcp-Session-Id''"
  "CanonicalHeaderKey ''Authorization'' = ''Authorization''" "CanonicalHeaderKey ''Mcp-Method'' = ''Mcp-Method''"
  "CanonicalHeaderKey ''Mcp-Name'' = ''Mcp-Name''"
  by (simp_all add: kaalm_eval)

lemma canonical_version [simp]: "CanonicalHeaderKey ''MCP-Protocol-Version'' = ''Mcp-Protocol-Version''"
  by code_simp

subsection \<open>A concrete broker\<close>

definition mcp_request :: "string \<Rightarrow> httpRequest" where
  "mcp_request body = \<lparr>rq_Method = ''POST'', rq_Path = ''/v1/mcp/search'', rq_Query = [], rq_Header = [], rq_PeerCert = None,
     rq_SourceIP = ''10.0.0.1'', rq_Body = body, rq_BodyErr = None\<rparr>"

definition sample_filter :: toolFilter where
  "sample_filter = newToolFilter [''lookup''] [''lookup'', ''erase'']"

lemma sample_tool_route: "authorizeToolRoute sample_store sample_caller sample_tool_provider = Inr sample_filter"
proof -
  have "Match ''team'' ''team''" by (simp add: Match_plain plain_char_def backslash_def)
  then show ?thesis
    by (simp add: authorizeToolRoute_def namespaceGlobAllowed_def sample_tool_provider_def sample_caller_def workload_tools_def sample_store_def sample_filter_def)
qed

lemma sample_route_to:
  assumes "authorizeToolRoute sample_store c sample_tool_provider = Inr f"
    "Unmarshal mcpRequest_dec zero_request (ParseJSON body) = Some msg" "\<not> isJSONBatch body" "length body < 1000"
  shows "handleMCPBroker mac w ((mcp_request body)\<lparr>rq_Header := h\<rparr>) c sample_server =
    broker_message mac w ((mcp_request body)\<lparr>rq_Header := h\<rparr>) c sample_tool_provider ''search'' f msg sample_server"
proof -
  have "TrimPrefix ''/v1/mcp/search'' ''/v1/mcp/'' = ''search''" "\<not> Contains ''search'' ''/''" by (simp_all add: kaalm_eval)
  moreover have "ToolProviderByName sample_store ''search'' = Some sample_tool_provider" by (simp add: sample_store_def)
  moreover have "AllowTool rl now sample_tool_provider ns = (True, rl)" for rl now ns
    by (simp add: AllowTool_def allow_key_def sample_tool_provider_def)
  moreover have "sv_Store sample_server = sample_store" "mcpMaxBodyBytes sample_server = 1000"
    "sample_server\<lparr>sv_RateLimiter := sv_RateLimiter sample_server\<rparr> = sample_server" by (simp_all add: sample_server_def mcpMaxBodyBytes_def)
  ultimately show ?thesis using assms
    by (simp add: handleMCPBroker_def broker_body_def mcp_request_def Let_def)
qed

lemma mcp_request_no_header: "(mcp_request body)\<lparr>rq_Header := []\<rparr> = mcp_request body"
  by (simp add: mcp_request_def)

lemmas sample_broker_route = sample_route_to [OF sample_tool_route, where h = "[]", unfolded mcp_request_no_header]

definition call_body :: string where
  "call_body = ''{\"id\":1,\"method\":\"tools/call\",\"params\":{\"name\":\"lookup\"}}''"

definition call_message :: mcpRequest where
  "call_message = \<lparr>mq_JSONRPC = [], mq_ID = Some (JNum 1), mq_Method = ''tools/call'', mq_Params = Some (JObj [(''name'', JStr ''lookup'')])\<rparr>"

lemma call_body_parse: "Unmarshal mcpRequest_dec zero_request (ParseJSON call_body) = Some call_message" "\<not> isJSONBatch call_body" "length call_body < 1000"
  by (simp_all add: call_body_def call_message_def kaalm_eval Let_def eval_nat_numeral)

definition mcp_upstream :: "string \<Rightarrow> upstreamRequest" where
  "mcp_upstream body = \<lparr>ur_Method = ''POST'', ur_URL = ''https://tools.example'',
     ur_Header = [(''Content-Type'', [''application/json'']), (''Accept'', [''application/json, text/event-stream'']),
       (''Authorization'', [''Bearer tool-secret''])], ur_Body = body\<rparr>"

lemma sample_sent:
  assumes "mcpAllowedMethod (mq_Method msg)" "mq_Method msg = methodToolsCall \<longrightarrow> governedToolName msg = ''lookup''"
    "\<And>m u. wd_RequestErr w m u = None"
  shows "broker_message mac w (mcp_request body) sample_caller sample_tool_provider ''search'' sample_filter msg sample_server =
    forward_mcp mac w sample_caller sample_tool_provider ''search'' msg (governedToolName msg) sample_filter (mcp_upstream body)
      (int (length body)) sample_server"
proof -
  have "permits sample_filter ''lookup''" by (simp add: sample_filter_def permits_newToolFilter)
  moreover have h: "hdr_Get (rq_Header (mcp_request body)) k = []" for k by (simp add: mcp_request_def hdr_Get_def hdr_Values_def mget_def)
  moreover have "\<not> IsModern []" by (simp add: IsModern_def ModernRevision_def)
  moreover have "ToolCredential (sv_Store sample_server) sample_tool_provider = Inr ''tool-secret''" "tp_Endpoint sample_tool_provider = ''https://tools.example''"
    by (simp_all add: sample_server_def sample_store_def sample_tool_provider_def)
  moreover have "copyMCPHeaders (mcp_request body) [] ''tool-secret'' False = ur_Header (mcp_upstream body)"
    by (simp add: copyMCPHeaders_def h Let_def mcp_upstream_def set_if_def) (simp add: kaalm_eval)
  ultimately show ?thesis using assms
    by (auto simp: broker_message_def Let_def modernHeaderRejection_def mcp_request_def mcp_upstream_def)
qed

lemma sample_tool_call:
  assumes "Unmarshal mcpRequest_dec zero_request (ParseJSON body) = Some msg" "\<not> isJSONBatch body" "length body < 1000"
    "mq_Method msg = methodToolsCall" "governedToolName msg = ''lookup''"
  shows "\<exists>rep s'. handleMCPBroker mac sample_world (mcp_request body) sample_caller sample_server = Some (rep, s') \<and> rp_Status rep = 503 \<and>
     McpForward sample_tool_provider methodToolsCall ''lookup'' (mcp_upstream body) \<in> set (drop (length (sv_Log sample_server)) (sv_Log s'))"
proof -
  have "mcpAllowedMethod (mq_Method msg)" using assms(4) by (simp add: mcpAllowedMethod_def)
  moreover have "wd_RequestErr sample_world m u = None" for m u by (simp add: sample_world_def)
  ultimately have "handleMCPBroker mac sample_world (mcp_request body) sample_caller sample_server =
    forward_mcp mac sample_world sample_caller sample_tool_provider ''search'' msg ''lookup'' sample_filter (mcp_upstream body)
      (int (length body)) sample_server"
    using sample_broker_route [OF assms(1-3)] sample_sent [of msg sample_world] assms(5) by simp
  then show ?thesis
    by (simp add: forward_mcp_def sample_world_def Let_def mcp_deny_def mcpResult_def server_frame assms(4))
qed

lemma sample_call:
  "\<exists>rep s'. handleMCPBroker mac sample_world (mcp_request call_body) sample_caller sample_server = Some (rep, s') \<and> rp_Status rep = 503 \<and>
     McpForward sample_tool_provider methodToolsCall ''lookup'' (mcp_upstream call_body) \<in> set (drop (length (sv_Log sample_server)) (sv_Log s'))"
  by (rule sample_tool_call [OF call_body_parse])
     (simp_all add: call_message_def governedToolName_def methodToolsCall_def EqualFold_def)

text \<open>A server that opens a session.\<close>

definition ping_body :: string where
  "ping_body = ''{\"method\":\"ping\"}''"

definition ping_message :: mcpRequest where
  "ping_message = \<lparr>mq_JSONRPC = [], mq_ID = None, mq_Method = ''ping'', mq_Params = None\<rparr>"

lemma ping_body_parse: "Unmarshal mcpRequest_dec zero_request (ParseJSON ping_body) = Some ping_message" "\<not> isJSONBatch ping_body" "length ping_body < 1000"
  by (simp_all add: ping_body_def ping_message_def kaalm_eval Let_def eval_nat_numeral)

definition session_world :: world where
  "session_world = sample_world\<lparr>wd_Upstream := (\<lambda>n q. Inr \<lparr>hr_Status = 200,
     hr_Header = [(''Mcp-Session-Id'', [''s1''])], hr_Data = ''{}'', hr_ReadErr = None\<rparr>)\<rparr>"

definition session_token :: "(string \<Rightarrow> string \<Rightarrow> string) \<Rightarrow> string" where
  "session_token mac = wrapSessionID mac ''key'' ''s1'' (callerIdentity sample_caller)"

lemma sample_session:
  "\<exists>rep s'. handleMCPBroker mac session_world (mcp_request ping_body) sample_caller sample_server = Some (rep, s') \<and>
     hdr_Values (rp_Header rep) ''Mcp-Session-Id'' = [session_token mac]"
proof -
  have g: "mcpAllowedMethod (mq_Method ping_message)" "governedToolName ping_message = []" "mq_Method ping_message = ''ping''"
    by (simp_all add: ping_message_def governedToolName_def mcpAllowedMethod_def methodToolsCall_def)
  have u: "wd_RequestErr session_world m u = None" "wd_Upstream session_world n q = Inr \<lparr>hr_Status = 200,
      hr_Header = [(''Mcp-Session-Id'', [''s1''])], hr_Data = ''{}'', hr_ReadErr = None\<rparr>" for m u n q
    by (simp_all add: sample_world_def session_world_def)
  have h: "hdr_Get [(''Mcp-Session-Id'', [''s1''])] ''Content-Type'' = []" "hdr_Get [(''Mcp-Session-Id'', [''s1''])] ''Mcp-Session-Id'' = ''s1''"
    by (simp_all add: hdr_Get_def hdr_Values_def mget_def)
  have k: "sv_SessionKey (emit e sample_server) = ''key''" "mcpMaxBodyBytes (emit e sample_server) = 1000" for e
    by (simp_all add: sample_server_def emit_def mcpMaxBodyBytes_def)
  have "handleMCPBroker mac session_world (mcp_request ping_body) sample_caller sample_server =
    forward_mcp mac session_world sample_caller sample_tool_provider ''search'' ping_message [] sample_filter (mcp_upstream ping_body)
      (int (length ping_body)) sample_server"
    using sample_broker_route [OF ping_body_parse] sample_sent [of ping_message session_world] g u by (simp add: methodToolsCall_def)
  then show ?thesis
    by (simp add: forward_mcp_def Let_def u h k g relay_answer_def HasPrefix_def relayMCPBuffered_def LimitReader_def session_token_def)
qed

lemma sample_stolen:
  assumes "unwrapSessionID mac ''key'' token (callerIdentity foreign) = None" "token \<noteq> []"
    "foreign = \<lparr>cl_Namespace = ''team'', cl_Workload = None\<rparr>"
  shows "\<exists>rep s'. handleMCPBroker mac w ((mcp_request ping_body)\<lparr>rq_Header := [(''Mcp-Session-Id'', [token])]\<rparr>) foreign sample_server = Some (rep, s')"
proof -
  have "Match ''team'' ''team''" by (simp add: Match_plain plain_char_def backslash_def)
  then have "authorizeToolRoute sample_store foreign sample_tool_provider = Inr (newToolFilter [] [''lookup'', ''erase''])"
    using assms(3) by (simp add: authorizeToolRoute_def namespaceGlobAllowed_def sample_tool_provider_def)
  moreover have "hdr_Get [(''Mcp-Session-Id'', [token])] ''Mcp-Session-Id'' = token" "hdr_Get [(''Mcp-Session-Id'', [token])] ''MCP-Protocol-Version'' = []"
    by (simp_all add: hdr_Get_def hdr_Values_def mget_def)
  moreover have "\<not> IsModern []" "sv_SessionKey sample_server = ''key''" by (simp_all add: IsModern_def ModernRevision_def sample_server_def)
  ultimately show ?thesis using assms(1,2)
    by (simp add: sample_route_to [OF _ ping_body_parse] broker_message_def Let_def modernHeaderRejection_def mcp_deny_def)
qed

definition list_body :: string where
  "list_body = ''{\"id\":1,\"method\":\"tools/list\"}''"

definition list_message :: mcpRequest where
  "list_message = \<lparr>mq_JSONRPC = [], mq_ID = Some (JNum 1), mq_Method = ''tools/list'', mq_Params = None\<rparr>"

lemma list_body_parse: "Unmarshal mcpRequest_dec zero_request (ParseJSON list_body) = Some list_message" "\<not> isJSONBatch list_body" "length list_body < 1000"
  by (simp_all add: list_body_def list_message_def kaalm_eval Let_def eval_nat_numeral)

definition list_world :: "string \<Rightarrow> world" where
  "list_world data = sample_world\<lparr>wd_Upstream := (\<lambda>n q. Inr \<lparr>hr_Status = 200,
     hr_Header = [(''Content-Type'', [''application/json''])], hr_Data = data, hr_ReadErr = None\<rparr>)\<rparr>"

lemma sample_listing:
  assumes "Unmarshal rpcResponse_dec zero_response (ParseJSON data) = Some parsed" "length data \<le> 1000"
    "rs_Error parsed = None" "rs_Result parsed = Some result"
  shows "\<exists>s'. handleMCPBroker mac (list_world data) (mcp_request list_body) sample_caller sample_server =
    map_option (\<lambda>v. (\<lparr>rp_Status = 200, rp_Header = [(''Content-Type'', [''application/json''])],
      rp_Body = JsonBody (response_json (parsed\<lparr>rs_Result := Some v\<rparr>))\<rparr>, s')) (filter_result sample_filter result)"
proof -
  have g: "mcpAllowedMethod (mq_Method list_message)" "governedToolName list_message = []" "mq_Method list_message = ''tools/list''"
    by (simp_all add: list_message_def governedToolName_def mcpAllowedMethod_def methodToolsCall_def)
  have u: "wd_RequestErr (list_world data) m u = None"
    "wd_Upstream (list_world data) n q = Inr \<lparr>hr_Status = 200, hr_Header = [(''Content-Type'', [''application/json''])], hr_Data = data, hr_ReadErr = None\<rparr>"
    for m u n q by (simp_all add: sample_world_def list_world_def)
  have m: "mcpMaxBodyBytes (emit e sample_server) = 1000" for e by (simp add: sample_server_def mcpMaxBodyBytes_def emit_def)
  have h: "hdr_Get [(''Content-Type'', [''application/json''])] ''Content-Type'' = ''application/json''"
    "hdr_Get [(''Content-Type'', [''application/json''])] ''Mcp-Session-Id'' = []" "hdr_Set ''Content-Type'' ''application/json'' [] = [(''Content-Type'', [''application/json''])]"
    by (simp_all add: hdr_Get_def hdr_Values_def hdr_Set_def mget_def mput_def)
  have "handleMCPBroker mac (list_world data) (mcp_request list_body) sample_caller sample_server =
    forward_mcp mac (list_world data) sample_caller sample_tool_provider ''search'' list_message [] sample_filter (mcp_upstream list_body)
      (int (length list_body)) sample_server"
    using sample_broker_route [OF list_body_parse] sample_sent [of list_message "list_world data"] g u by (simp add: methodToolsCall_def)
  then show ?thesis using assms
    by (auto simp: forward_mcp_def Let_def u h m relay_answer_def g relayFilteredToolsList_def ParseResponse_def LimitReader_def HasPrefix_def
        split: option.split)
qed

definition list_data :: string where
  "list_data = ''{\"id\":1,\"result\":{\"tools\":[{\"name\":\"lookup\"},{\"name\":\"erase\"}]}}''"

lemma list_data_parse:
  "Unmarshal rpcResponse_dec zero_response (ParseJSON list_data) = Some \<lparr>rs_JSONRPC = [], rs_ID = Some (JNum 1),
     rs_Result = Some (JObj [(''tools'', JArr [JObj [(''name'', JStr ''lookup'')], JObj [(''name'', JStr ''erase'')]])]), rs_Error = None\<rparr>"
  "length list_data \<le> 1000"
  by (simp_all add: list_data_def kaalm_eval Let_def eval_nat_numeral)

definition null_data :: string where "null_data = ''{\"id\":1,\"result\":null}''"

lemma null_data_parse:
  "Unmarshal rpcResponse_dec zero_response (ParseJSON null_data) = Some \<lparr>rs_JSONRPC = [], rs_ID = Some (JNum 1), rs_Result = Some JNull, rs_Error = None\<rparr>"
  "length null_data \<le> 1000"
  by (simp_all add: null_data_def kaalm_eval Let_def eval_nat_numeral)

subsection \<open>Properties\<close>

text \<open>Property C8. The broker forwards nothing that is not granted: a request that reaches a tool server
  is for a provider that admits the caller's namespace and that the workload's grants and class allow,
  its method is one of the brokered ones, and for a tool call the tool named in the message is among
  the granted tools and in the provider's catalogue. What is sent is the caller's own body.\<close>
theorem forwarded_call_granted:
  assumes "handleMCPBroker mac w r c s = Some (rep, s')"
    "McpForward tp m t q \<in> set (drop (length (sv_Log s)) (sv_Log s'))"
  shows "tool_route_open (sv_Store s) c tp \<and> mcpAllowedMethod m \<and> (m = methodToolsCall \<longrightarrow> tool_granted (sv_Store s) c tp t) \<and>
    ur_Body q = rq_Body r \<and> (\<exists>msg. Unmarshal mcpRequest_dec zero_request (ParseJSON (rq_Body r)) = Some msg \<and>
      m = mq_Method msg \<and> t = governedToolName msg)"
proof -
  obtain msg where "brokered mac r c s tp msg q" "m = mq_Method msg" "t = governedToolName msg"
    using handler_outcome [OF assms(1)] assms(2) by (auto simp: outcome_def audited_def split: if_splits)
  then show ?thesis by (auto simp: brokered_def)
qed

theorem forwarded_call_granted_witness:
  "tool_granted (sv_Store sample_server) sample_caller sample_tool_provider ''lookup''"
  using sample_call forwarded_call_granted by metis

text \<open>The headers the broker may send, besides those a tool schema mirrors.\<close>

definition brokered_headers :: "string list" where
  "brokered_headers = [''Content-Type'', ''Accept'', ''Mcp-Protocol-Version'', ''Mcp-Session-Id'', ''Authorization'', ''Mcp-Method'', ''Mcp-Name'']"

lemma param_headers:
  "\<not> HasPrefix k ''Mcp-Param-'' \<Longrightarrow>
   mlookup (fold (\<lambda>(name, vals) h. if HasPrefix name ''Mcp-Param-'' then mput name vals h else h) hs h) k = mlookup h k"
  by (induction hs arbitrary: h) auto

lemma mlookup_set_if: "mlookup (set_if b k v h) k' = (if b \<and> k' = CanonicalHeaderKey k then Some [v] else mlookup h k')"
  by (simp add: set_if_def hdr_Set_def)

lemma copyMCPHeaders_lookup:
  "mlookup (copyMCPHeaders r session cred modern) ''Authorization'' = (if cred = [] then None else Some [''Bearer '' @ cred])"
  "mlookup (copyMCPHeaders r session cred modern) ''Mcp-Session-Id'' = (if session = [] then None else Some [session])"
  "\<not> HasPrefix k ''Mcp-Param-'' \<Longrightarrow> k \<notin> set brokered_headers \<Longrightarrow> mlookup (copyMCPHeaders r session cred modern) k = None"
proof -
  have p: "\<not> HasPrefix ''Authorization'' ''Mcp-Param-''" "\<not> HasPrefix ''Mcp-Session-Id'' ''Mcp-Param-''" by (simp_all add: HasPrefix_def)
  show "mlookup (copyMCPHeaders r session cred modern) ''Authorization'' = (if cred = [] then None else Some [''Bearer '' @ cred])"
    by (simp add: copyMCPHeaders_def Let_def param_headers p mlookup_set_if hdr_Set_def)
  show "mlookup (copyMCPHeaders r session cred modern) ''Mcp-Session-Id'' = (if session = [] then None else Some [session])"
    by (simp add: copyMCPHeaders_def Let_def param_headers p mlookup_set_if hdr_Set_def)
  show "mlookup (copyMCPHeaders r session cred modern) k = None" if "\<not> HasPrefix k ''Mcp-Param-''" "k \<notin> set brokered_headers"
    using that by (simp add: copyMCPHeaders_def Let_def param_headers mlookup_set_if hdr_Set_def brokered_headers_def)
qed

text \<open>Property C10. What a tool server sees of the caller: the only credential is the one the operator
  configured for the provider, as the bearer token; a session id is sent only when the caller presented
  one that unwraps under the caller's own identity, and then it is the server's own id; and no header
  passes but the protocol's own and the mirrored parameters.\<close>
theorem tool_header_contract:
  assumes "handleMCPBroker mac w r c s = Some (rep, s')"
    "McpForward tp m t q \<in> set (drop (length (sv_Log s)) (sv_Log s'))"
  shows "(\<exists>cred. ToolCredential (sv_Store s) tp = Inr cred \<and>
      mlookup (ur_Header q) ''Authorization'' = (if cred = [] then None else Some [''Bearer '' @ cred])) \<and>
    (\<forall>sid. mlookup (ur_Header q) ''Mcp-Session-Id'' = Some [sid] \<longrightarrow>
      unwrapSessionID mac (sv_SessionKey s) (hdr_Get (rq_Header r) ''Mcp-Session-Id'') (callerIdentity c) = Some sid) \<and>
    (\<forall>name. mhas (ur_Header q) name \<longrightarrow> name \<in> set brokered_headers \<or> HasPrefix name ''Mcp-Param-'')"
proof -
  obtain msg where "brokered mac r c s tp msg q"
    using handler_outcome [OF assms(1)] assms(2) by (auto simp: outcome_def audited_def split: if_splits)
  then obtain session cred where cred: "ToolCredential (sv_Store s) tp = Inr cred" and
    session: "session \<noteq> [] \<longrightarrow> unwrapSessionID mac (sv_SessionKey s) (hdr_Get (rq_Header r) ''Mcp-Session-Id'') (callerIdentity c) = Some session" and
    q: "ur_Header q = copyMCPHeaders r session cred (IsModern (hdr_Get (rq_Header r) ''MCP-Protocol-Version''))"
    unfolding brokered_def by (metis upstreamRequest.select_convs(3))
  note l = copyMCPHeaders_lookup [where r = r and session = session and cred = cred and
      modern = "IsModern (hdr_Get (rq_Header r) ''MCP-Protocol-Version'')", folded q]
  have "name \<in> set brokered_headers \<or> HasPrefix name ''Mcp-Param-''" if "mhas (ur_Header q) name" for name
    using that l(3) [of name] unfolding mhas_def by metis
  moreover have "unwrapSessionID mac (sv_SessionKey s) (hdr_Get (rq_Header r) ''Mcp-Session-Id'') (callerIdentity c) = Some sid"
    if "mlookup (ur_Header q) ''Mcp-Session-Id'' = Some [sid]" for sid
    using that session unfolding l(2) by (simp split: if_splits)
  ultimately show ?thesis using cred l(1) by blast
qed

theorem tool_header_contract_witness:
  "mlookup (ur_Header (mcp_upstream call_body)) ''Authorization'' = Some [''Bearer tool-secret'']"
proof -
  obtain rep s' where "handleMCPBroker (@) sample_world (mcp_request call_body) sample_caller sample_server = Some (rep, s')"
    "McpForward sample_tool_provider methodToolsCall ''lookup'' (mcp_upstream call_body) \<in> set (drop (length (sv_Log sample_server)) (sv_Log s'))"
    using sample_call by blast
  note tool_header_contract [OF this]
  moreover have "ToolCredential (sv_Store sample_server) sample_tool_provider = Inr ''tool-secret''" by (simp add: sample_server_def sample_store_def)
  ultimately show ?thesis by simp
qed

definition audit_records :: "effect list \<Rightarrow> (caller \<times> int) list" where
  "audit_records l = List.map_filter (\<lambda>e. case e of McpCall c _ _ _ status _ _ _ \<Rightarrow> Some (c, status) | _ \<Rightarrow> None) l"

definition latency_records :: "effect list \<Rightarrow> effect list" where
  "latency_records l = filter (\<lambda>e. case e of ToolCallDuration _ _ \<Rightarrow> True | _ \<Rightarrow> False) l"

text \<open>Property C12. Every answered request leaves exactly one audit record, which names the caller and
  carries the status the caller got; there is at most one upstream call, and the latency metric is
  observed exactly when there was one.\<close>
theorem one_audit_record:
  assumes "handleMCPBroker mac w r c s = Some (rep, s')"
  shows "\<exists>l. sv_Log s' = sv_Log s @ l \<and> audit_records l = [(c, rp_Status rep)] \<and> length (mcp_forwards l) \<le> 1 \<and>
    length (latency_records l) = length (mcp_forwards l)"
  using handler_outcome [OF assms]
  by (auto simp: outcome_def audited_def audit_records_def latency_records_def mcp_forwards_def List.map_filter_def)

theorem one_audit_record_witness:
  "\<exists>l s' rep. handleMCPBroker (@) sample_world (mcp_request call_body) sample_caller sample_server = Some (rep, s') \<and>
     sv_Log s' = sv_Log sample_server @ l \<and> audit_records l = [(sample_caller, 503)]"
  using sample_call [of "(@)"] one_audit_record by metis

subsection \<open>Listings\<close>

definition json_field :: "json \<Rightarrow> string \<Rightarrow> json option" where
  "json_field v k = (case v of JObj es \<Rightarrow> mlookup es k | _ \<Rightarrow> None)"

definition tools_of :: "json \<Rightarrow> json list" where
  "tools_of result = (case json_field result ''tools'' of Some (JArr ts) \<Rightarrow> ts | _ \<Rightarrow> [])"

text \<open>The tools a client finds in a JSON-RPC message.\<close>

definition listed_tools :: "json \<Rightarrow> json list" where
  "listed_tools v = (case json_field v ''result'' of Some result \<Rightarrow> tools_of result | None \<Rightarrow> [])"

definition tool_name :: "json \<Rightarrow> string option" where
  "tool_name raw = decode_struct [(''name'', decode_string (\<lambda>u. u))] raw []"

lemma keeps_tool_iff: "keeps_tool f raw \<longleftrightarrow> (\<exists>n. tool_name raw = Some n \<and> permits f n)"
  by (auto simp: keeps_tool_def tool_name_def split: option.splits)

lemma wfmap_entries: "wfmap m \<Longrightarrow> wfmap (fold (\<lambda>(k, v). mput k v) es m)"
  by (induction es arbitrary: m) (auto simp: case_prod_beta)

text \<open>The filter keeps exactly the permitted tools, in order, and touches no other field but the
  cache scope.\<close>

lemma filter_result_object:
  assumes "result = fold (\<lambda>(k, v). mput k v) es []"
  shows "\<exists>v. filter_result f (JObj es) = Some v \<and> tools_of v = filter (keeps_tool f) (tools_of (JObj result)) \<and>
    (\<forall>k. k \<noteq> ''tools'' \<longrightarrow> k \<noteq> ''cacheScope'' \<longrightarrow> json_field v k = json_field (JObj result) k) \<and>
    json_field v ''cacheScope'' = (if mhas result ''cacheScope'' then Some (JStr ''private'') else None)"
proof -
  define r1 where "r1 = mput ''tools'' (JArr (filter (keeps_tool f) (tools_of (JObj result)))) result"
  define r2 where "r2 = (if mhas r1 ''cacheScope'' then mput ''cacheScope'' (JStr ''private'') r1 else r1)"
  have wf: "wfmap r2" using wfmap_entries [of "[]" es] assms by (simp add: r1_def r2_def)
  have "filter_result f (JObj es) = Some (JObj (sort_key fst r2))"
    by (simp add: filter_result_def assms [symmetric] Let_def r1_def r2_def tools_of_def json_field_def)
  moreover have "json_field (JObj (sort_key fst r2)) k = mlookup r2 k" for k using mlookup_sort_key [OF wf] by (simp add: json_field_def)
  moreover have "mlookup r2 k = (if k = ''cacheScope'' then (if mhas result ''cacheScope'' then Some (JStr ''private'') else None)
      else if k = ''tools'' then Some (JArr (filter (keeps_tool f) (tools_of (JObj result)))) else mlookup result k)" for k
    by (auto simp: r2_def r1_def mhas_def)
  ultimately show ?thesis by (simp add: tools_of_def json_field_def)
qed

lemma filter_result_tools: "filter_result f result = Some v \<Longrightarrow> raw \<in> set (tools_of v) \<Longrightarrow> keeps_tool f raw"
proof (cases result)
  case (JObj es)
  assume "filter_result f result = Some v" "raw \<in> set (tools_of v)"
  then show ?thesis using filter_result_object [OF refl, of f es] JObj by auto
qed (auto simp: filter_result_def tools_of_def json_field_def)

lemma error_reply_field: "json_field (error_json b) ''error'' \<noteq> Some JNull"
  by (simp add: json_field_def error_json_def)

lemma response_json_fields:
  "json_field (response_json p) ''error'' = Some JNull \<longleftrightarrow> rs_Error p = None"
  "listed_tools (response_json p) = (case rs_Result p of None \<Rightarrow> [] | Some result \<Rightarrow> tools_of result)"
  by (auto simp: json_field_def response_json_def listed_tools_def tools_of_def split: option.splits)

lemma writeErrorTo_body: "rp_Body (writeErrorTo h st b ra) = JsonBody (error_json b)"
  by (simp add: writeErrorTo_def Let_def)

lemma relay_listing:
  assumes "relay_answer w h resp msg f p n = Some (rep, status, et)" "rp_Body rep = JsonBody v"
    "json_field v ''error'' = Some JNull" "raw \<in> set (listed_tools v)"
  shows "keeps_tool f raw"
proof -
  have "relayFilteredToolsList h resp msg f p n = Some (rep, status, et)"
    using assms(1-3) by (auto simp: relay_answer_def relayMCPStream_def relayMCPBuffered_def Let_def writeErrorTo_body error_reply_field
        split: if_splits prod.splits option.splits)
  then show ?thesis using assms(2-4)
    by (auto simp: relayFilteredToolsList_def writeErrorTo_body error_reply_field response_json_fields
        split: option.splits if_splits) (rule filter_result_tools)
qed

lemma deny_no_listing:
  "mcp_deny c tp p n fwd st et message ra m t s = Some (rep, s') \<Longrightarrow> rp_Body rep = JsonBody v \<Longrightarrow> json_field v ''error'' \<noteq> Some JNull"
  by (auto simp: mcp_deny_def writeError_def writeErrorTo_body error_reply_field)

lemma forward_listing:
  assumes "forward_mcp mac w c tp p msg t f q n s = Some (rep, s')" "rp_Body rep = JsonBody v"
    "json_field v ''error'' = Some JNull" "raw \<in> set (listed_tools v)"
  shows "keeps_tool f raw"
  using assms deny_no_listing [OF _ assms(2)] relay_listing [OF _ assms(2-4)]
  unfolding forward_mcp_def Let_def by (auto split: sum.splits if_splits option.splits prod.splits) blast+

lemma message_listing:
  assumes "broker_message mac w r c tp p f msg s = Some (rep, s')" "rp_Body rep = JsonBody v"
    "json_field v ''error'' = Some JNull" "raw \<in> set (listed_tools v)"
  shows "keeps_tool f raw"
  using assms(1)
proof (cases rule: broker_message_cases)
  case denied
  then show ?thesis using deny_no_listing [OF _ assms(2)] assms(3) by blast
next
  case mismatch
  then show ?thesis using assms(2,3) by (auto simp: writeJSONRPCError_def json_field_def)
next
  case sent
  show ?thesis by (rule forward_listing [OF sent(6) assms(2-4)])
qed


lemma sample_filter_tools:
  "keeps_tool sample_filter (JObj [(''name'', JStr n)]) \<longleftrightarrow> n = ''lookup''" "tool_name (JObj [(''name'', JStr n)]) = Some n"
proof -
  show "tool_name (JObj [(''name'', JStr n)]) = Some n" by (simp add: tool_name_def decode_struct_def decode_string_def EqualFold_def)
  then show "keeps_tool sample_filter (JObj [(''name'', JStr n)]) \<longleftrightarrow> n = ''lookup''"
    by (auto simp: keeps_tool_iff sample_filter_def permits_newToolFilter)
qed


lemma relay_answer_None:
  assumes "relay_answer w h resp msg f p n = None"
  shows "\<exists>parsed. ParseResponse (hdr_Get (hr_Header resp) ''Content-Type'') (LimitReader n resp) (mq_ID msg) = Some parsed \<and>
    rs_Error parsed = None \<and> rs_Result parsed = Some JNull"
proof -
  have "filter_result f result = None \<Longrightarrow> result = JNull" for result by (auto simp: filter_result_def Let_def split: json.splits)
  then show ?thesis using assms
    by (auto simp: relay_answer_def relayFilteredToolsList_def split: if_splits option.splits)
qed



definition ambiguous_body :: string where
  "ambiguous_body = ''{\"id\":1,\"method\":\"tools/call\",\"params\":{\"name\":\"erase\",\"Name\":\"lookup\"}}''"

definition ambiguous_params :: json where
  "ambiguous_params = JObj [(''name'', JStr ''erase''), (''Name'', JStr ''lookup'')]"

lemma ambiguous_body_parse:
  "Unmarshal mcpRequest_dec zero_request (ParseJSON ambiguous_body) =
     Some \<lparr>mq_JSONRPC = [], mq_ID = Some (JNum 1), mq_Method = ''tools/call'', mq_Params = Some ambiguous_params\<rparr>"
  "\<not> isJSONBatch ambiguous_body" "length ambiguous_body < 1000"
  by (simp_all add: ambiguous_body_def ambiguous_params_def kaalm_eval Let_def eval_nat_numeral)


text \<open>When only one field can be read as the name, there is no such doubt.\<close>

lemma decode_name_skip: "\<forall>(k, v)\<in>set es. \<not> EqualFold ''name'' k \<Longrightarrow> decode_name es n = n"
  by (induction es arbitrary: n) auto

lemma decode_name_append: "decode_name (a @ b) n = decode_name b (decode_name a n)"
  by (induction a arbitrary: n) auto

lemma governedToolName_unique:
  assumes "mq_Method msg = methodToolsCall" "mq_Params msg = Some (JObj (a @ (''name'', JStr n) # b))"
    "\<forall>(k, v)\<in>set (a @ b). \<not> EqualFold ''name'' k"
  shows "governedToolName msg = n"
  using assms decode_name_skip [of a] decode_name_skip [of b]
  by (auto simp: governedToolName_def decode_name_append EqualFold_def)

end
