(* ===== verification/Spec2Isabelle.thy ===== *)
theory Spec2Isabelle
  imports Budget_Reducer Mcp_Broker
begin

text \<open>
  Kaalm runs AI agents on Kubernetes. Its gateway stands between the agents and the model and tool
  providers: it authenticates the calling workload, checks that the workload may use the provider,
  holds its namespace to budgets and rate limits, forwards the request with the provider's
  credential, translates between API formats, walks a fallback graph when a provider fails, and
  charges what was used. Every replica of the gateway keeps its own ledger, publishes its part to a
  ConfigMap and folds the parts of its peers; a reconciler in the operator retires the parts of
  dead Pods and writes the totals to the status of the provider.

  \<^bold>\<open>Go and its library.\<close> \<open>Kaalm_Prelude\<close> has maps as association lists and the simplification collection
  \<open>kaalm_eval\<close> by which concrete inputs are evaluated. \<open>Go_Text\<close>, \<open>Go_Time\<close>, \<open>Json_Doc\<close>, \<open>Json_Decode\<close>,
  \<open>Json_Print\<close> and \<open>Http_Header\<close> model what the program uses of \<^verbatim>\<open>strings\<close>, \<^verbatim>\<open>strconv\<close>, \<^verbatim>\<open>bufio\<close>, \<^verbatim>\<open>time\<close>,
  \<^verbatim>\<open>encoding/json\<close> and \<^verbatim>\<open>net/http\<close>. Instants are nanoseconds as integers; money, a decimal float in the
  code, is a rational, so rounding of floats is outside the theorems; token counts are 64-bit words
  where they wrap. A returned Go error is the left summand of a sum, and a nil dereference of a
  handler is the value \<open>None\<close>.

  \<^bold>\<open>Resources.\<close> \<open>Api_Types\<close> has the fields of \<^verbatim>\<open>api/v1beta1\<close> the gateway reads.

  \<^bold>\<open>Budgets\<close> (\<^verbatim>\<open>internal/gateway/budget.go\<close>, \<^verbatim>\<open>budget_hard.go\<close>). \<open>Budget_Period\<close> is the period arithmetic,
  \<open>Budget_Partial\<close> the wire form and the folding of peers, \<open>Budget_Ledger\<close> the ledger of a replica,
  \<open>Budget_Hard\<close> the admission slots of hard enforcement with the reachable states as a step
  relation, \<open>Budget_Cap\<close> what follows for the amount spent. \<open>Budget_Reducer\<close> is one pass of the
  reconciler (\<^verbatim>\<open>internal/controller/modelprovider_budget.go\<close>, \<^verbatim>\<open>modelprovider_agentspend.go\<close>). Shown: the
  hard cap, exclusive slots that never leak, the choice of the policy, conservation of the
  current totals by the reducers and that a second pass changes nothing.

  \<^bold>\<open>Rate limits\<close> (\<^verbatim>\<open>ratelimit.go\<close>): \<open>Rate_Limiter\<close>, with the bound on what a fleet of replicas lets
  through.

  \<^bold>\<open>Formats\<close> (\<^verbatim>\<open>adapters.go\<close>, \<^verbatim>\<open>vertex.go\<close>, \<^verbatim>\<open>internal/llmtranslate\<close>): \<open>Adapters\<close> reads usage and prepares
  requests; \<open>Llm_Translate\<close>, \<open>Llm_Response\<close> and \<open>Llm_Stream\<close> translate requests, responses and event
  streams; \<open>Llm_Crossing\<close> shows that the translated usage is the usage charged.

  \<^bold>\<open>Callers\<close> (\<^verbatim>\<open>identity.go\<close>, \<^verbatim>\<open>auth.go\<close>, \<^verbatim>\<open>tokenauth.go\<close>, \<^verbatim>\<open>routing.go\<close>, \<^verbatim>\<open>activity.go\<close>, \<^verbatim>\<open>spend.go\<close>, \<^verbatim>\<open>errors.go\<close>,
): \<open>Identity_Auth\<close> has the authentication regimes and the token cache, \<open>Routing\<close> the
  tenancy chain, \<open>Activity_Store\<close> the activity and spend views, \<open>Gateway_Errors\<close> the error envelope.

  \<^bold>\<open>The request path\<close> (\<^verbatim>\<open>proxy.go\<close>, \<^verbatim>\<open>fallback.go\<close>). \<open>Gateway_Server\<close> is the state a handler works on, with a
  log of its effects and the environment (upstreams, clock, other requests) as the record \<open>world\<close>:
  other requests act on the budget between the steps of this one, as an arbitrary function.
  \<open>Fallback_Walk\<close> is the walk over the fallback graph, once by fuel and once as a relation, with its
  invariants proved in locales about any attempt function; \<open>Llm_Proxy\<close> interprets them on the attempt
  of the proxy and has the handler.

  \<^bold>\<open>The tool broker\<close> (\<^verbatim>\<open>mcpbroker.go\<close>, \<^verbatim>\<open>mcpsession.go\<close>, \<^verbatim>\<open>internal/mcp\<close>). \<open>Mcp_Wire\<close> has the messages and the
  reading of a response from JSON or an event stream, \<open>Mcp_Session\<close> the binding of session ids to
  callers, \<open>Mcp_Broker\<close> the grant chain, the filter on listings and the handler. Shown: only granted
  calls are forwarded, under the provider's credential and the caller's own session; a caller sees no
  tool it cannot call; one audit record per answer; and, below, that a session handed to one caller
  is of no use to another. Also shown are two ways the code falls short: a listing with a null result
  is never answered, and a tool name in two capitalisations is checked as one tool and sent as the
  other.

  \<^bold>\<open>Fuel.\<close> The walk recurses along fallback edges, and every level it descends counts an attempt against
  \<^verbatim>\<open>MaxFallbackDepth\<close>. Its fuel is one more than the attempts that are left, and \<open>Fallback_Walk\<close> shows
  that this always gives a result. The JSON parser has twice the length of the text plus two: each call
  consumes a character or hands the same text to the next function. All other recursions are
  structural or have a termination proof.

  \<^bold>\<open>Parameters.\<close> Certificate verification, token review, the upstream HTTP calls, HMAC and the cluster
  objects are arguments of the definitions.

  \<^bold>\<open>Not modelled.\<close> The informer and publisher loops around the ledger, TLS and route registration,
  metric registries and tracing, because they are calls into libraries; the chat channels and
  asynchronous delivery; the handshake of the tool health probe; the reconcilers other than the two reducers, which
  compare and write Kubernetes objects; the console; the agent runtime library; generated code and
  commands.
\<close>

subsection \<open>Properties\<close>

text \<open>Property C9. A session id the broker has handed to one caller never reaches a tool server in a
  request of another: whatever else the other request carries, nothing of it is forwarded. The
  message authentication code is taken to be free of collisions between the two callers.\<close>
theorem stolen_session_never_forwarded:
  assumes issued: "handleMCPBroker mac w r c s = Some (rep, s1)" "hdr_Values (rp_Header rep) ''Mcp-Session-Id'' = [token]"
    and presented: "handleMCPBroker mac w' r' c' s2 = Some (rep', s3)" "hdr_Get (rq_Header r') ''Mcp-Session-Id'' = token"
      "\<not> IsModern (hdr_Get (rq_Header r') ''MCP-Protocol-Version'')" "sv_SessionKey s2 = sv_SessionKey s"
    and callers: "proper_caller c" "proper_caller c'" "c' \<noteq> c"
    and mac: "\<And>sid. inj_on (mac (sv_SessionKey s)) {sid @ [CHR 0x00] @ callerIdentity c, sid @ [CHR 0x00] @ callerIdentity c'}"
  shows "mcp_forwards (drop (length (sv_Log s2)) (sv_Log s3)) = []"
proof -
  obtain sid where token: "token = wrapSessionID mac (sv_SessionKey s) sid (callerIdentity c)"
    using handler_outcome [OF issued(1)] issued(2) by (auto simp: outcome_def own_session_def)
  then have "unwrapSessionID mac (sv_SessionKey s2) token (callerIdentity c') = None" "token \<noteq> []"
    using session_owner_only [where mac = mac and key = "sv_SessionKey s" and sid = sid, OF mac callers(1,2)] callers(3) presented(4) by (simp_all add: wrapSessionID_not_empty)
  then have "\<not> brokered mac r' c' s2 tp msg q" for tp msg q using presented(2,3) by (auto simp: brokered_def)
  then have "audited c' [] s2 rep' s3" using handler_outcome [OF presented(1)] by (auto simp: outcome_def)
  then show ?thesis by (auto simp: audited_def mcp_forwards_def)
qed

theorem stolen_session_never_forwarded_witness:
  "\<exists>rep s3. handleMCPBroker (@) sample_world ((mcp_request ping_body)\<lparr>rq_Header := [(''Mcp-Session-Id'', [session_token (@)])]\<rparr>)
      \<lparr>cl_Namespace = ''team'', cl_Workload = None\<rparr> sample_server = Some (rep, s3) \<and>
     mcp_forwards (drop (length (sv_Log sample_server)) (sv_Log s3)) = []"
proof -
  let ?thief = "\<lparr>cl_Namespace = ''team'', cl_Workload = None\<rparr>"
  let ?r = "(mcp_request ping_body)\<lparr>rq_Header := [(''Mcp-Session-Id'', [session_token (@)])]\<rparr>"
  have callers: "proper_caller sample_caller" "proper_caller ?thief" "?thief \<noteq> sample_caller"
    by (simp_all add: proper_caller_def sample_caller_def)
  have key: "sv_SessionKey sample_server = ''key''" by (simp add: sample_server_def)
  obtain rep s1 where issued: "handleMCPBroker (@) session_world (mcp_request ping_body) sample_caller sample_server = Some (rep, s1)"
    "hdr_Values (rp_Header rep) ''Mcp-Session-Id'' = [session_token (@)]"
    using sample_session by blast
  have "unwrapSessionID (@) ''key'' (session_token (@)) (callerIdentity ?thief) = None"
    unfolding session_token_def using session_owner_only [OF _ callers(1,2), of "(@)" "''key''" "''s1''"] callers(3)
    by (simp add: inj_on_def)
  then obtain rep' s3 where presented: "handleMCPBroker (@) sample_world ?r ?thief sample_server = Some (rep', s3)"
    using sample_stolen [OF _ _ refl] by (metis session_token_def wrapSessionID_not_empty)
  have h: "hdr_Get (rq_Header ?r) ''Mcp-Session-Id'' = session_token (@)" "\<not> IsModern (hdr_Get (rq_Header ?r) ''MCP-Protocol-Version'')"
    by (simp_all add: hdr_Get_def hdr_Values_def mget_def IsModern_def ModernRevision_def)
  have "mcp_forwards (drop (length (sv_Log sample_server)) (sv_Log s3)) = []"
    by (rule stolen_session_never_forwarded [OF issued presented h refl callers]) (auto simp: inj_on_def)
  then show ?thesis using presented by blast
qed

end
